(* ===== verification/Kernel_Prelude.thy ===== *)
theory Kernel_Prelude
  imports Main "HOL-Library.Word"
begin

text \<open>
  Shared vocabulary of the development: the machine integers of \<^verbatim>\<open>types.h\<close>, byte-addressed
  memory with wrap-around 32-bit addresses, little-endian 32-bit loads, and the generic lemmas on
  words, ranges and lists that the component theories use.

  The collection \<open>k_defs\<close> gathers the definitions that the component proofs unfold together,
  \<open>mem_simps\<close> the equations that evaluate memory after a store.
\<close>

unbundle bit_operations_syntax

named_theorems k_defs \<open>definitions unfolded together by the component proofs\<close>
named_theorems mem_simps \<open>what a load returns after stores\<close>

section \<open>Machine types\<close>

type_synonym byte = "8 word"
type_synonym u32 = "32 word"
type_synonym addr = "32 word"
type_synonym port = "16 word"

text \<open>The memory of the address space the kernel runs in: one byte per 32-bit address.\<close>

type_synonym mem = "addr \<Rightarrow> byte"

text \<open>A pointer to bytes that are only read, as the function from the index to the byte.\<close>

type_synonym cptr = "u32 \<Rightarrow> byte"

abbreviation (input) NULL :: addr where
  "NULL \<equiv> 0"

abbreviation (input) NUL :: byte where
  "NUL \<equiv> 0"

abbreviation (input) newline :: byte where
  "newline \<equiv> 10"

abbreviation (input) blank :: byte where
  "blank \<equiv> 32"

section \<open>Words and addresses\<close>

lemma unat_lt_word32 [simp]: "unat (x :: 32 word) < 4294967296"
  using unsigned_less [of x] by simp

lemma of_nat_unat_small: "n < 4294967296 \<Longrightarrow> unat (of_nat n :: 32 word) = n"
  by (simp add: unat_of_nat)

lemma unat_Suc_word32:
  assumes "unat (x :: 32 word) + 1 < 4294967296"
  shows "unat (x + 1) = unat x + 1"
  using assms by (simp add: unat_word_ariths)

lemma unat_inc:
  assumes "(i :: 32 word) < n"
  shows "unat (i + 1) = unat i + 1"
proof (rule unat_Suc_word32)
  have "unat i < unat n" using assms by (simp add: word_less_nat_alt)
  then show "unat i + 1 < 4294967296" using unat_lt_word32 [of n] by linarith
qed

lemma unat_diff_1:
  assumes "(x :: 32 word) \<noteq> 0"
  shows "unat (x - 1) = unat x - 1"
  using assms by (metis unat_minus_one)

lemma unat_add_less: "unat (x :: 32 word) + unat y < 4294967296 \<Longrightarrow> unat (x + y) = unat x + unat y"
  by (simp add: unat_word_ariths)

lemma unat_sub_le: "y \<le> (x :: 32 word) \<Longrightarrow> unat (x - y) = unat x - unat y"
  by (rule unat_sub)

text \<open>
  Distance from a base address. \<open>unat (x - a) < n\<close> says that \<open>x\<close> lies among the \<open>n\<close> bytes that
  start at \<open>a\<close>, with the wrap-around of the 32-bit address space.
\<close>

lemma dist_Suc:
  assumes "unat (x - (a + 1) :: 32 word) < n" and "n < 4294967296"
  shows "unat (x - a) = Suc (unat (x - (a + 1)))"
proof -
  have "x - a = (x - (a + 1)) + 1" by simp
  moreover have "unat (x - (a + 1)) + 1 < 4294967296" using assms by simp
  ultimately show ?thesis by (metis Suc_eq_plus1 unat_Suc_word32)
qed

lemma dist_cases:
  assumes "x \<noteq> (a :: 32 word)"
  shows "unat (x - (a + 1)) = unat (x - a) - 1" and "0 < unat (x - a)"
proof -
  have "x - a \<noteq> 0" using assms by simp
  then show "0 < unat (x - a)" by (simp add: unat_gt_0)
  have "unat (x - a - 1) = unat (x - a) - 1"
    using \<open>x - a \<noteq> 0\<close> by (rule unat_diff_1)
  then show "unat (x - (a + 1)) = unat (x - a) - 1" by (simp add: diff_diff_eq)
qed

lemma in_range_step:
  fixes a x :: "32 word"
  assumes "Suc n < 4294967296"
  shows "unat (x - a) < Suc n \<longleftrightarrow> x = a \<or> unat (x - (a + 1)) < n"
proof (cases "x = a")
  case True
  then show ?thesis by simp
next
  case False
  have "unat (x - (a + 1)) = unat (x - a) - 1" and "0 < unat (x - a)"
    using dist_cases [OF False] by auto
  then show ?thesis using False by auto
qed

text \<open>Two ranges of addresses do not meet.\<close>

definition disjoint_ranges :: "addr \<Rightarrow> nat \<Rightarrow> addr \<Rightarrow> nat \<Rightarrow> bool" where
  "disjoint_ranges a n b m \<longleftrightarrow> n \<le> unat (b - a) \<and> m \<le> unat (a - b)"

lemma disjoint_rangesD:
  assumes "disjoint_ranges a n b m" and "unat (x - a) < n"
  shows "\<not> unat (x - b) < m"
proof
  assume m: "unat (x - b) < m"
  show False
  proof (cases "unat (x - b) \<le> unat (x - a)")
    case True
    have "b - a = (x - a) - (x - b)" by simp
    then have "unat (b - a) = unat (x - a) - unat (x - b)"
      using True by (metis unat_sub word_le_nat_alt)
    then show False using assms by (simp add: disjoint_ranges_def) linarith
  next
    case False
    have "a - b = (x - b) - (x - a)" by simp
    then have "unat (a - b) = unat (x - b) - unat (x - a)"
      using False by (metis nat_le_linear unat_sub word_le_nat_alt)
    then show False using assms m by (simp add: disjoint_ranges_def) linarith
  qed
qed

section \<open>Bytes in memory\<close>

primrec load_bytes :: "mem \<Rightarrow> addr \<Rightarrow> nat \<Rightarrow> byte list" where
  "load_bytes M a 0 = []"
| "load_bytes M a (Suc n) = M a # load_bytes M (a + 1) n"

primrec store_bytes :: "mem \<Rightarrow> addr \<Rightarrow> byte list \<Rightarrow> mem" where
  "store_bytes M a [] = M"
| "store_bytes M a (b # bs) = store_bytes (M(a := b)) (a + 1) bs"

definition load32 :: "mem \<Rightarrow> addr \<Rightarrow> u32" where
  "load32 M a = ucast (M a) OR push_bit 8 (ucast (M (a + 1)))
     OR push_bit 16 (ucast (M (a + 2))) OR push_bit 24 (ucast (M (a + 3)))"

text \<open>The bytes of a value in memory order.\<close>

definition word_bytes :: "u32 \<Rightarrow> byte list" where
  "word_bytes v = [ucast v, ucast (drop_bit 8 v), ucast (drop_bit 16 v), ucast (drop_bit 24 v)]"

definition half_bytes :: "16 word \<Rightarrow> byte list" where
  "half_bytes w = [ucast w, ucast (drop_bit 8 w)]"

lemma length_load_bytes [simp]: "length (load_bytes M a n) = n"
  by (induction n arbitrary: a) auto

lemma nth_load_bytes: "i < n \<Longrightarrow> load_bytes M a n ! i = M (a + of_nat i)"
proof (induction n arbitrary: a i)
  case (Suc n)
  then show ?case by (cases i) (auto simp: add.assoc)
qed simp

lemma load_bytes_cong:
  "(\<And>i. i < n \<Longrightarrow> M (a + of_nat i) = N (b + of_nat i)) \<Longrightarrow> load_bytes M a n = load_bytes N b n"
  by (rule nth_equalityI) (auto simp: nth_load_bytes)

lemma load_bytes_add: "load_bytes M a (m + n) = load_bytes M a m @ load_bytes M (a + of_nat m) n"
  by (induction m arbitrary: a) (auto simp: ac_simps)

lemma store_bytes_nth:
  assumes "length bs < 4294967296"
  shows "store_bytes M a bs x
    = (if unat (x - a) < length bs then bs ! unat (x - a) else M x)"
  using assms
proof (induction bs arbitrary: M a)
  case (Cons b bs)
  have IH: "store_bytes (M(a := b)) (a + 1) bs x
      = (if unat (x - (a + 1)) < length bs then bs ! unat (x - (a + 1)) else (M(a := b)) x)"
    using Cons by simp
  show ?case
  proof (cases "x = a")
    case True
    have "unat (a - (a + 1)) = 4294967295" by (simp add: unsigned_minus_1_eq_mask mask_eq_exp_minus_1)
    then show ?thesis using IH True Cons.prems by simp
  next
    case False
    then show ?thesis using IH in_range_step [of "length bs" x a] Cons.prems dist_cases [OF False]
      by (auto simp: nth_Cons')
  qed
qed simp

lemma load_store_bytes:
  assumes "length bs < 4294967296"
  shows "load_bytes (store_bytes M a bs) a (length bs) = bs"
  by (rule nth_equalityI) (use assms in \<open>auto simp: nth_load_bytes store_bytes_nth of_nat_unat_small\<close>)

lemma load32_cong:
  assumes "\<And>i. i < 4 \<Longrightarrow> M (a + of_nat i) = N (a + of_nat i)"
  shows "load32 M a = load32 N a"
  using assms [of 0] assms [of 1] assms [of 2] assms [of 3] by (simp add: load32_def)

section \<open>Lists\<close>

lemma fold_append_concat: "fold (\<lambda>x acc. acc @ f x) xs acc = acc @ concat (map f xs)"
  by (induction xs arbitrary: acc) auto

lemma map_upt_append: "a \<le> b \<Longrightarrow> b \<le> c \<Longrightarrow> map f [a..<b] @ map f [b..<c] = map f [a..<c]"
  by (metis le_Suc_ex map_append upt_add_eq_append)

end
