(* ===== verification/Lib_Mem.thy ===== *)
theory Lib_Mem
  imports Kernel_Prelude
begin

text \<open>
  The block routines of \<^verbatim>\<open>lib.c\<close> written in inline assembly: \<open>memset\<close>, \<open>memset_word\<close>,
  \<open>memset_dword\<close>, \<open>memcpy\<close> and \<open>memmove\<close>. Each definition follows the instructions: the byte loop up
  to a 4-byte boundary of \<^verbatim>\<open>edi\<close>, the \<^verbatim>\<open>rep stosl\<close> / \<^verbatim>\<open>rep movsl\<close> over \<^verbatim>\<open>ecx >> 2\<close> double words, and
  the tail of \<^verbatim>\<open>ecx & 3\<close> bytes. The lemmas show that they implement the byte-list specification
  \<open>store_bytes\<close>.
\<close>

section \<open>Definitions\<close>

definition store32 :: "mem \<Rightarrow> addr \<Rightarrow> u32 \<Rightarrow> mem" where
  "store32 M a v = M(a := ucast v, a + 1 := ucast (drop_bit 8 v),
     a + 2 := ucast (drop_bit 16 v), a + 3 := ucast (drop_bit 24 v))"

definition store16 :: "mem \<Rightarrow> addr \<Rightarrow> u32 \<Rightarrow> mem" where
  "store16 M a v = M(a := ucast v, a + 1 := ucast (drop_bit 8 v))"

text \<open>\<^verbatim>\<open>rep stosl\<close> and \<^verbatim>\<open>rep stosw\<close> with the direction flag clear; the count is \<^verbatim>\<open>ecx\<close>.\<close>

primrec rep_stosl :: "u32 \<Rightarrow> addr \<Rightarrow> nat \<Rightarrow> mem \<Rightarrow> mem" where
  "rep_stosl eax edi 0 M = M"
| "rep_stosl eax edi (Suc n) M = rep_stosl eax (edi + 4) n (store32 M edi eax)"

primrec rep_stosw :: "u32 \<Rightarrow> addr \<Rightarrow> nat \<Rightarrow> mem \<Rightarrow> mem" where
  "rep_stosw eax edi 0 M = M"
| "rep_stosw eax edi (Suc n) M = rep_stosw eax (edi + 2) n (store16 M edi eax)"

primrec memset_bottom :: "u32 \<Rightarrow> addr \<Rightarrow> nat \<Rightarrow> mem \<Rightarrow> mem" where
  "memset_bottom eax edi 0 M = M"
| "memset_bottom eax edi (Suc edx) M = memset_bottom eax (edi + 1) edx (M(edi := ucast eax))"

definition memset_aligned :: "u32 \<Rightarrow> addr \<Rightarrow> u32 \<Rightarrow> mem \<Rightarrow> mem" where
  "memset_aligned eax edi ecx M =
     (let edx = ecx AND 3; ecx = drop_bit 2 ecx
      in memset_bottom eax (edi + 4 * ecx) (unat edx) (rep_stosl eax edi (unat ecx) M))"

function memset_top :: "u32 \<Rightarrow> addr \<Rightarrow> u32 \<Rightarrow> mem \<Rightarrow> mem" where
  "memset_top eax edi ecx M =
     (if ecx = 0 then M
      else if edi AND 3 = 0 then memset_aligned eax edi ecx M
      else memset_top eax (edi + 1) (ecx - 1) (M(edi := ucast eax)))"
  by pat_completeness auto
termination
  by (relation "measure (\<lambda>(eax, edi, ecx, M). unat ecx)") (auto simp: unat_diff_1 unat_gt_0)

declare memset_top.simps [simp del]

definition memset :: "addr \<Rightarrow> u32 \<Rightarrow> u32 \<Rightarrow> mem \<Rightarrow> mem" where
  "memset s c n M =
     (let c = c AND 0xFF
      in memset_top (push_bit 24 c OR push_bit 16 c OR push_bit 8 c OR c) s n M)"

definition memset_word :: "addr \<Rightarrow> u32 \<Rightarrow> u32 \<Rightarrow> mem \<Rightarrow> mem" where
  "memset_word s c n M = rep_stosw c s (unat n) M"

definition memset_dword :: "addr \<Rightarrow> u32 \<Rightarrow> u32 \<Rightarrow> mem \<Rightarrow> mem" where
  "memset_dword s c n M = rep_stosl c s (unat n) M"

primrec rep_movsl :: "addr \<Rightarrow> addr \<Rightarrow> nat \<Rightarrow> mem \<Rightarrow> mem" where
  "rep_movsl edi esi 0 M = M"
| "rep_movsl edi esi (Suc n) M = rep_movsl (edi + 4) (esi + 4) n (store32 M edi (load32 M esi))"

primrec memcpy_bottom :: "addr \<Rightarrow> addr \<Rightarrow> nat \<Rightarrow> mem \<Rightarrow> mem" where
  "memcpy_bottom edi esi 0 M = M"
| "memcpy_bottom edi esi (Suc edx) M = memcpy_bottom (edi + 1) (esi + 1) edx (M(edi := M esi))"

definition memcpy_aligned :: "addr \<Rightarrow> addr \<Rightarrow> u32 \<Rightarrow> mem \<Rightarrow> mem" where
  "memcpy_aligned edi esi ecx M =
     (let edx = ecx AND 3; ecx = drop_bit 2 ecx
      in memcpy_bottom (edi + 4 * ecx) (esi + 4 * ecx) (unat edx) (rep_movsl edi esi (unat ecx) M))"

function memcpy_top :: "addr \<Rightarrow> addr \<Rightarrow> u32 \<Rightarrow> mem \<Rightarrow> mem" where
  "memcpy_top edi esi ecx M =
     (if ecx = 0 then M
      else if edi AND 3 = 0 then memcpy_aligned edi esi ecx M
      else memcpy_top (edi + 1) (esi + 1) (ecx - 1) (M(edi := M esi)))"
  by pat_completeness auto
termination
  by (relation "measure (\<lambda>(edi, esi, ecx, M). unat ecx)") (auto simp: unat_diff_1 unat_gt_0)

declare memcpy_top.simps [simp del]

definition memcpy :: "addr \<Rightarrow> addr \<Rightarrow> u32 \<Rightarrow> mem \<Rightarrow> mem" where
  "memcpy dest src n M = memcpy_top dest src n M"

text \<open>
  \<open>memmove\<close> returns the memory and the direction flag: the backward branch executes \<^verbatim>\<open>std\<close> and
  nothing clears the flag again.
\<close>

primrec movsb_up :: "addr \<Rightarrow> addr \<Rightarrow> nat \<Rightarrow> mem \<Rightarrow> mem" where
  "movsb_up edi esi 0 M = M"
| "movsb_up edi esi (Suc n) M = movsb_up (edi + 1) (esi + 1) n (M(edi := M esi))"

primrec movsb_down :: "addr \<Rightarrow> addr \<Rightarrow> nat \<Rightarrow> mem \<Rightarrow> mem" where
  "movsb_down edi esi 0 M = M"
| "movsb_down edi esi (Suc n) M = movsb_down (edi - 1) (esi - 1) n (M(edi := M esi))"

definition memmove :: "addr \<Rightarrow> addr \<Rightarrow> u32 \<Rightarrow> mem \<Rightarrow> mem \<times> bool" where
  "memmove dest src n M =
     (if dest \<le> src then (movsb_up dest src (unat n) M, False)
      else (movsb_down (dest + n - 1) (src + n - 1) (unat n) M, True))"

section \<open>Storing lists of bytes\<close>

lemma store_bytes_append:
  "store_bytes M a (xs @ ys) = store_bytes (store_bytes M a xs) (a + of_nat (length xs)) ys"
  by (induction xs arbitrary: M a) (auto simp: ac_simps)

lemma store_bytes_outside:
  assumes "length bs < 4294967296" and "length bs \<le> unat (x - a)"
  shows "store_bytes M a bs x = M x"
  using assms by (simp add: store_bytes_nth)

lemma store_bytes_upd_commute:
  assumes "length bs < 4294967296" and "length bs \<le> unat (x - a)"
  shows "store_bytes (M(x := v)) a bs = (store_bytes M a bs)(x := v)"
  using assms by (auto simp: store_bytes_nth fun_eq_iff)

lemma store_bytes_4:
  "store_bytes M a [b0, b1, b2, b3] = M(a := b0, a + 1 := b1, a + 2 := b2, a + 3 := b3)"
  by (simp add: add.assoc)

lemma unat_and_3: "unat (x AND 3 :: 32 word) = unat x mod 4"
proof -
  have "x AND 3 = take_bit 2 x" by (simp only: take_bit_eq_mask) (simp add: mask_eq_exp_minus_1)
  then show ?thesis by (simp add: take_bit_eq_mod unat_mod_distrib)
qed

lemma unat_drop_bit_2: "unat (drop_bit 2 x :: 32 word) = unat x div 4"
  by (simp add: drop_bit_eq_div unat_div_distrib)

lemma quad_split:
  "unat (x :: 32 word) = 4 * unat (drop_bit 2 x) + unat (x AND 3)"
  by (simp add: unat_and_3 unat_drop_bit_2)

lemma of_nat_quad: "(of_nat (4 * unat x) :: 32 word) = 4 * x"
  by simp

section \<open>memset\<close>

lemma replicated_bytes:
  fixes c :: u32
  defines "e \<equiv> push_bit 24 (c AND 0xFF) OR push_bit 16 (c AND 0xFF) OR push_bit 8 (c AND 0xFF)
    OR (c AND 0xFF)"
  shows "(ucast e :: byte) = ucast c" and "(ucast (drop_bit 8 e) :: byte) = ucast c"
    and "(ucast (drop_bit 16 e) :: byte) = ucast c" and "(ucast (drop_bit 24 e) :: byte) = ucast c"
proof -
  have m: "(0xFF :: u32) = mask 8" by (simp add: mask_eq_exp_minus_1)
  show "(ucast e :: byte) = ucast c" "(ucast (drop_bit 8 e) :: byte) = ucast c"
    "(ucast (drop_bit 16 e) :: byte) = ucast c" "(ucast (drop_bit 24 e) :: byte) = ucast c"
    by (auto simp: e_def m bit_eq_iff bit_simps)
qed

text \<open>A register whose four bytes are all \<open>b\<close>.\<close>

definition all_bytes :: "u32 \<Rightarrow> byte \<Rightarrow> bool" where
  "all_bytes e b \<longleftrightarrow> ucast e = b \<and> ucast (drop_bit 8 e) = b
     \<and> ucast (drop_bit 16 e) = b \<and> ucast (drop_bit 24 e) = b"

lemma store32_all_bytes: "all_bytes e b \<Longrightarrow> store32 M a e = store_bytes M a (replicate 4 b)"
proof -
  assume "all_bytes e b"
  moreover have "replicate 4 b = [b, b, b, b]" by (simp add: numeral_eq_Suc)
  ultimately show ?thesis by (simp only: store_bytes_4) (simp add: store32_def all_bytes_def)
qed

lemma rep_stosl_store:
  "all_bytes e b \<Longrightarrow> rep_stosl e a n M = store_bytes M a (replicate (4 * n) b)"
proof (induction n arbitrary: a M)
  case (Suc n)
  have "replicate (4 * Suc n) b = replicate 4 b @ replicate (4 * n) b"
    by (simp add: replicate_add [symmetric])
  then show ?case
    using Suc by (simp add: store32_all_bytes store_bytes_append del: replicate.simps)
qed simp

lemma memset_bottom_store:
  "all_bytes e b \<Longrightarrow> memset_bottom e a n M = store_bytes M a (replicate n b)"
  by (induction n arbitrary: a M) (auto simp: all_bytes_def)

lemma memset_top_store:
  "all_bytes e b \<Longrightarrow> memset_top e a n M = store_bytes M a (replicate (unat n) b)"
proof (induction e a n M rule: memset_top.induct)
  case (1 e a n M)
  show ?case
  proof (cases "n \<noteq> 0 \<and> a AND 3 \<noteq> 0")
    case True
    then have "unat n = Suc (unat (n - 1))"
      by (simp add: unat_diff_1 unat_gt_0)
    with True 1 show ?thesis
      by (subst memset_top.simps) (simp add: all_bytes_def fun_upd_def)
  next
    case False
    have "replicate (unat n) b
        = replicate (4 * unat (drop_bit 2 n)) b @ replicate (unat (n AND 3)) b"
      by (subst quad_split) (simp add: replicate_add)
    with False 1 show ?thesis
      by (subst memset_top.simps)
        (auto simp: memset_aligned_def Let_def rep_stosl_store memset_bottom_store
          store_bytes_append)
  qed
qed

lemma memset_store: "memset s c n M = store_bytes M s (replicate (unat n) (ucast c))"
proof -
  have "all_bytes (push_bit 24 (c AND 0xFF) OR push_bit 16 (c AND 0xFF) OR push_bit 8 (c AND 0xFF)
      OR (c AND 0xFF)) (ucast c)"
    unfolding all_bytes_def by (intro conjI replicated_bytes)
  then show ?thesis by (simp add: memset_def Let_def memset_top_store)
qed

section \<open>memcpy\<close>

lemma load32_bytes:
  "(ucast (load32 M a) :: byte) = M a"
  "(ucast (drop_bit 8 (load32 M a)) :: byte) = M (a + 1)"
  "(ucast (drop_bit 16 (load32 M a)) :: byte) = M (a + 2)"
  "(ucast (drop_bit 24 (load32 M a)) :: byte) = M (a + 3)"
  by (auto simp: load32_def bit_eq_iff bit_simps dest: bit_imp_le_length)

lemma load_bytes_4: "load_bytes M a 4 = [M a, M (a + 1), M (a + 2), M (a + 3)]"
  by (simp add: numeral_eq_Suc add.assoc)

lemma movsl_bytes: "store32 M d (load32 M s) = store_bytes M d (load_bytes M s 4)"
  by (simp add: store32_def load32_bytes load_bytes_4 add.assoc)

text \<open>The source range keeps its contents while the destination is written.\<close>

lemma load_bytes_store_disjoint:
  assumes "length bs < 4294967296"
    and "\<And>i. i < n \<Longrightarrow> length bs \<le> unat (s + of_nat i - d)"
  shows "load_bytes (store_bytes M d bs) s n = load_bytes M s n"
  using assms by (auto intro: load_bytes_cong simp: store_bytes_outside)

definition apart :: "addr \<Rightarrow> addr \<Rightarrow> nat \<Rightarrow> bool" where
  "apart d s n \<longleftrightarrow> (\<forall>i<n. \<forall>j<n. d + of_nat j \<noteq> s + of_nat i)"

lemma apart_dist:
  assumes "apart d s n" and "i < n"
  shows "n \<le> unat (s + of_nat i - d)"
proof (rule ccontr)
  let ?j = "unat (s + of_nat i - d)"
  assume "\<not> n \<le> ?j"
  then have "?j < n" by simp
  then have "d + of_nat ?j \<noteq> s + of_nat i" using assms unfolding apart_def by blast
  then show False by simp
qed

lemma apart_mono: "apart d s n \<Longrightarrow> m \<le> n \<Longrightarrow> apart d s m"
  by (simp add: apart_def)

lemma apart_shift: "apart d s (k + n) \<Longrightarrow> apart (d + of_nat k) (s + of_nat k) n"
  unfolding apart_def
proof (intro allI impI)
  fix i j
  assume "\<forall>i<k + n. \<forall>j<k + n. d + of_nat j \<noteq> s + of_nat i" and "i < n" and "j < n"
  then have "d + of_nat (k + j) \<noteq> s + of_nat (k + i)" by simp
  then show "d + of_nat k + of_nat j \<noteq> s + of_nat k + of_nat i" by (simp add: ac_simps)
qed

lemma disjoint_ranges_apart:
  assumes "disjoint_ranges d n s n" and "n < 4294967296"
  shows "apart d s n"
  unfolding apart_def
proof (intro allI impI notI)
  fix i j
  assume "i < n" "j < n" and eq: "d + of_nat j = s + of_nat i"
  have "unat (d + of_nat j - d) < n" using \<open>j < n\<close> assms by (simp add: of_nat_unat_small)
  then have "\<not> unat (d + of_nat j - s) < n" by (rule disjoint_rangesD [OF assms(1)])
  then show False using eq \<open>i < n\<close> assms by (simp add: of_nat_unat_small)
qed

text \<open>One chunk of a copy: the first \<open>k\<close> bytes are copied, the rest remains to be done.\<close>

lemma copy_chunk:
  assumes "apart d s (k + n)" and "k + n < 4294967296"
  shows "store_bytes (store_bytes M d (load_bytes M s k)) (d + of_nat k)
      (load_bytes (store_bytes M d (load_bytes M s k)) (s + of_nat k) n)
    = store_bytes M d (load_bytes M s (k + n))"
proof -
  have "load_bytes (store_bytes M d (load_bytes M s k)) (s + of_nat k) n
      = load_bytes M (s + of_nat k) n"
  proof (rule load_bytes_store_disjoint)
    show "length (load_bytes M s k) < 4294967296" using assms by simp
    fix i assume "i < n"
    then have "k + n \<le> unat (s + of_nat (k + i) - d)"
      using apart_dist [OF assms(1), of "k + i"] by linarith
    then show "length (load_bytes M s k) \<le> unat (s + of_nat k + of_nat i - d)"
      by (simp add: ac_simps)
  qed
  then show ?thesis by (simp add: load_bytes_add store_bytes_append)
qed

lemma memcpy_bottom_store:
  "apart d s n \<Longrightarrow> n < 4294967296 \<Longrightarrow> memcpy_bottom d s n M = store_bytes M d (load_bytes M s n)"
proof (induction n arbitrary: d s M)
  case (Suc n)
  have "apart (d + 1) (s + 1) n" using apart_shift [of d s 1 n] Suc.prems by simp
  with Suc have "memcpy_bottom d s (Suc n) M
      = store_bytes (M(d := M s)) (d + 1) (load_bytes (M(d := M s)) (s + 1) n)"
    by simp
  also have "\<dots> = store_bytes M d (load_bytes M s (1 + n))"
    using copy_chunk [of d s 1 n M] Suc.prems by simp
  finally show ?case by simp
qed simp

lemma rep_movsl_store:
  "apart d s (4 * n) \<Longrightarrow> 4 * n < 4294967296
    \<Longrightarrow> rep_movsl d s n M = store_bytes M d (load_bytes M s (4 * n))"
proof (induction n arbitrary: d s M)
  case (Suc n)
  have "apart (d + 4) (s + 4) (4 * n)" using apart_shift [of d s 4 "4 * n"] Suc.prems by simp
  with Suc have "rep_movsl d s (Suc n) M
      = store_bytes (store_bytes M d (load_bytes M s 4)) (d + 4)
          (load_bytes (store_bytes M d (load_bytes M s 4)) (s + 4) (4 * n))"
    by (simp add: movsl_bytes)
  also have "\<dots> = store_bytes M d (load_bytes M s (4 + 4 * n))"
    using copy_chunk [of d s 4 "4 * n" M] Suc.prems by simp
  finally show ?case by simp
qed simp

lemma memcpy_aligned_store:
  assumes "apart d s (unat n)"
  shows "memcpy_aligned d s n M = store_bytes M d (load_bytes M s (unat n))"
proof -
  let ?q = "4 * unat (drop_bit 2 n)" and ?r = "unat (n AND 3)"
  have split: "unat n = ?q + ?r" by (rule quad_split)
  have lt: "?q + ?r < 4294967296" using unat_lt_word32 [of n] split by simp
  have ap: "apart d s (?q + ?r)" using assms split by simp
  have "memcpy_aligned d s n M = memcpy_bottom (d + of_nat ?q) (s + of_nat ?q) ?r
      (rep_movsl d s (unat (drop_bit 2 n)) M)"
    by (simp add: memcpy_aligned_def Let_def)
  also have "\<dots> = store_bytes M d (load_bytes M s (?q + ?r))"
    using copy_chunk [OF ap lt] apart_mono [OF ap] apart_shift [OF ap] lt
    by (simp add: rep_movsl_store memcpy_bottom_store)
  finally show ?thesis using split by simp
qed

lemma memcpy_top_store:
  "apart d s (unat n) \<Longrightarrow> memcpy_top d s n M = store_bytes M d (load_bytes M s (unat n))"
proof (induction d s n M rule: memcpy_top.induct)
  case (1 d s n M)
  show ?case
  proof (cases "n \<noteq> 0 \<and> d AND 3 \<noteq> 0")
    case True
    then have n: "unat n = 1 + unat (n - 1)"
      by (simp add: unat_diff_1 unat_gt_0)
    have ap: "apart d s (1 + unat (n - 1))" and lt: "1 + unat (n - 1) < 4294967296"
      using 1 n unat_lt_word32 [of n] by auto
    have "memcpy_top d s n M = memcpy_top (d + 1) (s + 1) (n - 1) (M(d := M s))"
      using True by (subst memcpy_top.simps) simp
    also have "\<dots> = store_bytes (M(d := M s)) (d + 1)
        (load_bytes (M(d := M s)) (s + 1) (unat (n - 1)))"
      using 1 True apart_shift [OF ap] by (simp add: fun_upd_def)
    also have "\<dots> = store_bytes M d (load_bytes M s (unat n))"
      using copy_chunk [OF ap lt, of M] n by simp
    finally show ?thesis .
  next
    case False
    with 1 show ?thesis by (subst memcpy_top.simps) (auto simp: memcpy_aligned_store)
  qed
qed

section \<open>memmove\<close>

lemma movsb_up_store:
  assumes "\<And>i j. j < i \<Longrightarrow> i < n \<Longrightarrow> d + of_nat j \<noteq> s + of_nat i"
  shows "movsb_up d s n M = store_bytes M d (load_bytes M s n)"
  using assms
proof (induction n arbitrary: d s M)
  case (Suc n)
  have "load_bytes (M(d := M s)) (s + 1) n = load_bytes M (s + 1) n"
  proof (rule load_bytes_cong)
    fix i assume "i < n"
    then have "d \<noteq> s + of_nat (Suc i)" using Suc.prems [of 0 "Suc i"] by simp
    then show "(M(d := M s)) (s + 1 + of_nat i) = M (s + 1 + of_nat i)" by (simp add: ac_simps)
  qed
  moreover have "d + 1 + of_nat j \<noteq> s + 1 + of_nat i" if "j < i" "i < n" for i j
    using Suc.prems [of "Suc j" "Suc i"] that by (simp add: ac_simps)
  ultimately show ?case using Suc.IH [of "d + 1" "s + 1" "M(d := M s)"] by (simp add: fun_upd_def)
qed simp

lemma movsb_down_store:
  assumes "\<And>i j. i < j \<Longrightarrow> j < n \<Longrightarrow> d + of_nat j \<noteq> s + of_nat i" and "n < 4294967296"
  shows "movsb_down (d + of_nat n - 1) (s + of_nat n - 1) n M = store_bytes M d (load_bytes M s n)"
  using assms
proof (induction n arbitrary: M)
  case (Suc n)
  let ?e = "d + of_nat n" and ?t = "s + of_nat n"
  let ?M = "M(?e := M ?t)"
  have "movsb_down (d + of_nat (Suc n) - 1) (s + of_nat (Suc n) - 1) (Suc n) M
      = movsb_down (d + of_nat n - 1) (s + of_nat n - 1) n ?M"
    by simp
  also have "\<dots> = store_bytes ?M d (load_bytes ?M s n)"
    using Suc by simp
  also have "load_bytes ?M s n = load_bytes M s n"
    using Suc.prems(1) [of _ n] by (intro load_bytes_cong) force
  also have "store_bytes ?M d (load_bytes M s n) = (store_bytes M d (load_bytes M s n))(?e := M ?t)"
    using Suc.prems by (subst store_bytes_upd_commute) (auto simp: of_nat_unat_small)
  also have "\<dots> = store_bytes M d (load_bytes M s (n + 1))"
    by (subst load_bytes_add) (simp add: store_bytes_append)
  finally show ?case by simp
qed simp

lemma no_wrap_add:
  assumes "unat (a :: 32 word) + n \<le> 4294967296" and "i < n"
  shows "unat (a + of_nat i) = unat a + i"
  using assms by (subst unat_add_less) (auto simp: of_nat_unat_small)

lemma memmove_store:
  assumes "unat d + unat n \<le> 4294967296" and "unat s + unat n \<le> 4294967296"
  shows "memmove d s n M = (store_bytes M d (load_bytes M s (unat n)), \<not> d \<le> s)"
proof (cases "d \<le> s")
  case True
  have "d + of_nat j \<noteq> s + of_nat i" if "j < i" "i < unat n" for i j
  proof -
    have "unat (d + of_nat j) < unat (s + of_nat i)"
      using that True no_wrap_add [OF assms(1), of j] no_wrap_add [OF assms(2), of i]
      by (simp add: word_le_nat_alt)
    then show ?thesis by auto
  qed
  then show ?thesis using True by (simp add: memmove_def movsb_up_store)
next
  case False
  have "d + of_nat j \<noteq> s + of_nat i" if "i < j" "j < unat n" for i j
  proof -
    have "unat (s + of_nat i) < unat (d + of_nat j)"
      using that False no_wrap_add [OF assms(1), of j] no_wrap_add [OF assms(2), of i]
      by (simp add: word_le_nat_alt)
    then show ?thesis by auto
  qed
  then show ?thesis
    using False movsb_down_store [of "unat n" d s M] by (simp add: memmove_def)
qed

section \<open>What the routines do to every byte\<close>

lemma word_dist_less: "unat (x - a) < unat n \<longleftrightarrow> x - a < (n :: u32)"
  by (simp add: word_less_nat_alt)

lemma store_load_nth:
  "store_bytes M d (load_bytes M s (unat n)) x = (if x - d < n then M (s + (x - d)) else M x)"
proof -
  have "length (load_bytes M s (unat n)) < 4294967296" by simp
  then have "store_bytes M d (load_bytes M s (unat n)) x
      = (if unat (x - d) < unat n then load_bytes M s (unat n) ! unat (x - d) else M x)"
    by (subst store_bytes_nth) simp_all
  then show ?thesis by (simp add: nth_load_bytes word_dist_less)
qed

text \<open>\<open>memset\<close>, which stores byte by byte up to an aligned address, then four bytes at a time, then the remainder, sets exactly the \<open>n\<close> bytes at \<open>s\<close> to the low byte of \<open>c\<close> and no other byte, for every alignment and length.\<close>

lemma memset_fills: "memset s c n M x = (if x - s < n then ucast c else M x)"
proof -
  have "memset s c n M x = (if unat (x - s) < unat n then ucast c else M x)"
    unfolding memset_store by (subst store_bytes_nth) auto
  then show ?thesis by (simp add: word_dist_less)
qed

text \<open>C40: \<open>memcpy\<close> of disjoint ranges copies exactly the \<open>n\<close> bytes from \<open>src\<close> to \<open>dest\<close>, for every alignment and length.\<close>

theorem memcpy_copies:
  assumes "disjoint_ranges dest (unat n) src (unat n)"
  shows "memcpy dest src n M x = (if x - dest < n then M (src + (x - dest)) else M x)"
  using memcpy_top_store [OF disjoint_ranges_apart [OF assms]] store_load_nth
  by (simp add: memcpy_def)

theorem memcpy_copies_witness:
  "memcpy 0x1001 0x2000 7 (\<lambda>a. if a = 0x2005 then 42 else 0) 0x1006 = (42 :: byte)"
proof -
  have "disjoint_ranges 0x1001 (unat (7 :: u32)) 0x2000 (unat (7 :: u32))"
    by (simp add: disjoint_ranges_def)
  then show ?thesis
    using memcpy_copies [of "0x1001" 7 "0x2000" "\<lambda>a. if a = 0x2005 then 42 else 0" "0x1006"] by simp
qed

text \<open>C39: \<open>memmove\<close> is correct for overlapping ranges, whichever of its two directions it takes, as long as neither range wraps around; after the backward direction the processor's direction flag stays set.\<close>

theorem memmove_copies:
  assumes "unat dest + unat n \<le> 4294967296" and "unat src + unat n \<le> 4294967296"
  shows "fst (memmove dest src n M) x = (if x - dest < n then M (src + (x - dest)) else M x)
    \<and> snd (memmove dest src n M) = (src < dest)"
  using memmove_store [OF assms] store_load_nth by auto

theorem memmove_copies_witness:
  "fst (memmove 0x1002 0x1000 4 (\<lambda>a. ucast a)) 0x1004 = (2 :: byte)
   \<and> snd (memmove 0x1002 0x1000 4 (\<lambda>a. ucast a))"
  using memmove_copies [of "0x1002" 4 "0x1000" "\<lambda>a. ucast a" "0x1004"] by simp

end
