(* ===== verification/Lib_String.thy ===== *)
theory Lib_String
  imports Lib_Mem
begin

text \<open>
  The string routines of \<^verbatim>\<open>lib.c\<close>: \<open>strlen\<close>, \<open>strncmp\<close>, \<open>strcpy\<close>, \<open>strncpy\<close>, \<open>strrev\<close> and \<open>itoa\<close>.
  Strings that are only read are functions from the index to the byte (\<^typ>\<open>cptr\<close>); routines that
  write take the memory and addresses. A scan for the terminating NUL need not end, so such loops
  return \<open>None\<close> when they run forever.
\<close>

section \<open>Definitions\<close>

definition at :: "mem \<Rightarrow> addr \<Rightarrow> cptr" where
  "at M p = (\<lambda>i. M (p + i))"

partial_function (option) strlen_loop :: "cptr \<Rightarrow> u32 \<Rightarrow> u32 option" where
  "strlen_loop s len = (if s len \<noteq> 0 then strlen_loop s (len + 1) else Some len)"

definition strlen :: "cptr \<Rightarrow> u32 option" where
  "strlen s = strlen_loop s 0"

function strncmp_loop :: "cptr \<Rightarrow> cptr \<Rightarrow> u32 \<Rightarrow> u32 \<Rightarrow> int" where
  "strncmp_loop s1 s2 n i =
     (if i < n then
        (if s1 i \<noteq> s2 i \<or> s1 i = 0 then sint (s1 i) - sint (s2 i)
         else strncmp_loop s1 s2 n (i + 1))
      else 0)"
  by pat_completeness auto
termination
proof (relation "measure (\<lambda>(s1, s2, n, i). unat n - unat i)")
  fix s1 s2 :: cptr and n i :: u32
  assume "i < n" and "\<not> (s1 i \<noteq> s2 i \<or> s1 i = 0)"
  then show "((s1, s2, n, i + 1), s1, s2, n, i) \<in> measure (\<lambda>(s1, s2, n, i). unat n - unat i)"
    using unat_inc [of i n] by (simp add: word_less_nat_alt)
qed simp

declare strncmp_loop.simps [simp del]

definition strncmp :: "cptr \<Rightarrow> cptr \<Rightarrow> u32 \<Rightarrow> int" where
  "strncmp s1 s2 n = strncmp_loop s1 s2 n 0"

partial_function (option) strcpy_loop :: "addr \<Rightarrow> addr \<Rightarrow> u32 \<Rightarrow> mem \<Rightarrow> mem option" where
  "strcpy_loop dest src i M =
     (if M (src + i) \<noteq> 0 then strcpy_loop dest src (i + 1) (M(dest + i := M (src + i)))
      else Some (M(dest + i := 0)))"

definition strcpy :: "addr \<Rightarrow> addr \<Rightarrow> mem \<Rightarrow> mem option" where
  "strcpy dest src M = strcpy_loop dest src 0 M"

text \<open>
  \<open>strncpy\<close> has two loops. The first stops at the NUL or at \<open>n\<close> bytes and hands its index to the
  second, which pads with NUL bytes up to \<open>n\<close>.
\<close>

primrec strncpy_pad :: "addr \<Rightarrow> u32 \<Rightarrow> nat \<Rightarrow> mem \<Rightarrow> mem" where
  "strncpy_pad dest i 0 M = M"
| "strncpy_pad dest i (Suc k) M = strncpy_pad dest (i + 1) k (M(dest + i := 0))"

primrec strncpy_loop :: "addr \<Rightarrow> addr \<Rightarrow> u32 \<Rightarrow> nat \<Rightarrow> mem \<Rightarrow> mem" where
  "strncpy_loop dest src i 0 M = M"
| "strncpy_loop dest src i (Suc k) M =
     (if M (src + i) \<noteq> 0 then strncpy_loop dest src (i + 1) k (M(dest + i := M (src + i)))
      else strncpy_pad dest i (Suc k) M)"

definition strncpy :: "addr \<Rightarrow> addr \<Rightarrow> u32 \<Rightarrow> mem \<Rightarrow> mem" where
  "strncpy dest src n M = strncpy_loop dest src 0 (unat n) M"

function strrev_loop :: "addr \<Rightarrow> int \<Rightarrow> int \<Rightarrow> mem \<Rightarrow> mem" where
  "strrev_loop s beg en M =
     (if beg < en then
        strrev_loop s (beg + 1) (en - 1)
          (M(s + of_int en := M (s + of_int beg), s + of_int beg := M (s + of_int en)))
      else M)"
  by pat_completeness auto
termination
  by (relation "measure (\<lambda>(s, beg, en, M). nat (en - beg))") auto

declare strrev_loop.simps [simp del]

definition strrev :: "addr \<Rightarrow> mem \<Rightarrow> mem option" where
  "strrev s M =
     (case strlen (at M s) of
        None \<Rightarrow> None
      | Some len \<Rightarrow> Some (strrev_loop s 0 (sint len - 1) M))"

text \<open>The digits of \<open>itoa\<close>; the table ends in a NUL at index 36.\<close>

definition lookup_digits :: "byte list" where
  "lookup_digits = map (\<lambda>c. of_nat (of_char c)) ''0123456789ABCDEFGHIJKLMNOPQRSTUVWXYZ'' @ [0]"

text \<open>
  The digit loop of \<open>itoa\<close>. A radix of 0 traps, a radix of 1 never ends and a digit above the table
  reads out of bounds: these runs have no result.
\<close>

partial_function (option) itoa_loop :: "addr \<Rightarrow> u32 \<Rightarrow> u32 \<Rightarrow> mem \<Rightarrow> (addr \<times> mem) option" where
  "itoa_loop newbuf newval radix M =
     (if newval = 0 then Some (newbuf, M)
      else if radix = 0 \<or> length lookup_digits \<le> unat (newval mod radix) then None
      else itoa_loop (newbuf + 1) (newval div radix) radix
             (M(newbuf := lookup_digits ! unat (newval mod radix))))"

definition itoa :: "u32 \<Rightarrow> addr \<Rightarrow> u32 \<Rightarrow> mem \<Rightarrow> mem option" where
  "itoa value buf radix M =
     (if value = 0 then Some (M(buf := 48, buf + 1 := 0))
      else case itoa_loop buf value radix M of
             None \<Rightarrow> None
           | Some (newbuf, M') \<Rightarrow> strrev buf (M'(newbuf := 0)))"

section \<open>NUL-terminated strings\<close>

text \<open>\<open>cstr s xs\<close>: the pointer \<open>s\<close> holds the bytes \<open>xs\<close>, none of them NUL, followed by a NUL.\<close>

definition cstr :: "cptr \<Rightarrow> byte list \<Rightarrow> bool" where
  "cstr s xs \<longleftrightarrow> length xs < 4294967296 \<and> 0 \<notin> set xs
     \<and> (\<forall>i<length xs. s (of_nat i) = xs ! i) \<and> s (of_nat (length xs)) = 0"

lemma cstr_nth: "cstr s xs \<Longrightarrow> i < length xs \<Longrightarrow> s (of_nat i) = xs ! i \<and> xs ! i \<noteq> 0"
  by (auto simp: cstr_def in_set_conv_nth)

lemma strlen_loop_cstr:
  assumes "cstr s xs" and "i \<le> length xs"
  shows "strlen_loop s (of_nat i) = Some (of_nat (length xs))"
  using assms(2)
proof (induction "length xs - i" arbitrary: i)
  case 0
  then have "i = length xs" by simp
  then show ?case using assms(1) by (subst strlen_loop.simps) (simp add: cstr_def)
next
  case (Suc k)
  then have i: "i < length xs" by simp
  have "strlen_loop s (of_nat (Suc i)) = Some (of_nat (length xs))"
    using Suc.hyps Suc.prems i by (intro Suc.hyps(1)) auto
  then show ?case
    using cstr_nth [OF assms(1) i] by (subst strlen_loop.simps) (simp add: ac_simps)
qed

lemma strlen_cstr: "cstr s xs \<Longrightarrow> strlen s = Some (of_nat (length xs))"
  using strlen_loop_cstr [of s xs 0] by (simp add: strlen_def)

text \<open>Every string with a NUL somewhere is the image of a byte list, so \<open>strlen\<close> returns on it.\<close>

lemma cstr_exists:
  assumes "s z = 0"
  obtains xs where "cstr s xs" and "length xs \<le> unat z"
proof -
  define n where "n = (LEAST k. s (of_nat k) = 0)"
  have z: "s (of_nat (unat z)) = 0" using assms by simp
  then have n0: "s (of_nat n) = 0" and nz: "n \<le> unat z"
    unfolding n_def by (rule LeastI, rule Least_le)
  have nonzero: "s (of_nat k) \<noteq> 0" if "k < n" for k
    using that not_less_Least unfolding n_def by blast
  have "n < 4294967296" using nz unat_lt_word32 [of z] by linarith
  then have "cstr s (map (\<lambda>i. s (of_nat i)) [0..<n])"
    using n0 nonzero by (auto simp: cstr_def)
  then show ?thesis using nz that by fastforce
qed

lemma cstr_prefix_unique:
  assumes "cstr s xs" and "s (of_nat n) = 0" and "\<And>k. k < n \<Longrightarrow> s (of_nat k) \<noteq> 0"
    and "n < 4294967296"
  shows "length xs = n"
proof (rule ccontr)
  assume "length xs \<noteq> n"
  then consider "length xs < n" | "n < length xs" by linarith
  then show False
  proof cases
    case 1
    then show False using assms(1,3) by (auto simp: cstr_def)
  next
    case 2
    then show False using assms(2) cstr_nth [OF assms(1)] by auto
  qed
qed

section \<open>strncmp\<close>

lemma sint_diff_eq_0: "sint (a :: byte) - sint b = 0 \<longleftrightarrow> a = b"
  using signed_word_eqI [of a b] by auto

lemma strncmp_loop_zero_iff:
  "strncmp_loop s1 s2 n i = 0 \<longleftrightarrow>
     (\<forall>k. i \<le> k \<and> k < n \<and> (\<forall>j. i \<le> j \<and> j < k \<longrightarrow> s1 j \<noteq> 0) \<longrightarrow> s1 k = s2 k)"
proof (induction s1 s2 n i rule: strncmp_loop.induct)
  case (1 s1 s2 n i)
  let ?P = "\<lambda>i. \<forall>k. i \<le> k \<and> k < n \<and> (\<forall>j. i \<le> j \<and> j < k \<longrightarrow> s1 j \<noteq> 0) \<longrightarrow> s1 k = s2 k"
  show ?case
  proof (cases "i < n")
    case False
    then have "?P i" by auto
    then show ?thesis using False by (subst strncmp_loop.simps) simp
  next
    case lt: True
    show ?thesis
    proof (cases "s1 i \<noteq> s2 i \<or> s1 i = 0")
      case True
      have "s1 i = s2 i \<longleftrightarrow> ?P i"
      proof
        assume "s1 i = s2 i"
        with True have "s1 i = 0" "s2 i = 0" by auto
        show "?P i"
        proof (intro allI impI)
          fix k assume k: "i \<le> k \<and> k < n \<and> (\<forall>j. i \<le> j \<and> j < k \<longrightarrow> s1 j \<noteq> 0)"
          then have "k = i" using \<open>s1 i = 0\<close> by force
          then show "s1 k = s2 k" using \<open>s1 i = s2 i\<close> by simp
        qed
      next
        assume "?P i"
        then show "s1 i = s2 i" using lt by auto
      qed
      then show ?thesis
        using lt True unfolding strncmp_loop.simps [of s1 s2 n i]
        by (simp only: if_True simp_thms sint_diff_eq_0)
    next
      case False
      have up: "i + 1 \<le> k \<longleftrightarrow> i < k" for k
        using unat_inc [OF lt] by (simp add: word_less_nat_alt word_le_nat_alt Suc_le_eq)
      have "?P i \<longleftrightarrow> ?P (i + 1)"
        using False up by (metis order_le_less)
      then show ?thesis
        using 1 lt False by (subst strncmp_loop.simps) simp
    qed
  qed
qed

lemma word_of_nat_unat32: "(of_nat (unat x) :: 32 word) = x"
  by simp

text \<open>
  On a C string compared over its own length, \<open>strncmp\<close> returns zero exactly when the other
  pointer starts with the same bytes.
\<close>

lemma strncmp_prefix_iff:
  assumes "0 \<notin> set xs" and "\<And>i. i < length xs \<Longrightarrow> s1 (of_nat i) = xs ! i"
    and "length xs < 4294967296"
  shows "strncmp s1 s2 (of_nat (length xs)) = 0 \<longleftrightarrow> (\<forall>i<length xs. s2 (of_nat i) = xs ! i)"
proof -
  have nz: "s1 j \<noteq> 0" if "unat j < length xs" for j
    using assms(1) assms(2) [OF that] that by (metis nth_mem word_of_nat_unat32)
  have "strncmp s1 s2 (of_nat (length xs)) = 0 \<longleftrightarrow> (\<forall>k. unat k < length xs \<longrightarrow> s1 k = s2 k)"
    unfolding strncmp_def strncmp_loop_zero_iff
    using assms(3) nz by (auto simp: word_less_nat_alt of_nat_unat_small)
  also have "\<dots> \<longleftrightarrow> (\<forall>i<length xs. s2 (of_nat i) = xs ! i)"
  proof (intro iffI allI impI)
    fix i assume "\<forall>k. unat k < length xs \<longrightarrow> s1 k = s2 k" and "i < length xs"
    then show "s2 (of_nat i) = xs ! i" using assms(2,3) by (simp add: of_nat_unat_small)
  next
    fix k :: u32 assume "\<forall>i<length xs. s2 (of_nat i) = xs ! i" and "unat k < length xs"
    then show "s1 k = s2 k" using assms(2) [of "unat k"] by (metis word_of_nat_unat32)
  qed
  finally show ?thesis .
qed

section \<open>strcpy and strncpy\<close>

lemma store_bytes_snoc:
  "i < length xs \<Longrightarrow> (store_bytes M a (take i xs))(a + of_nat i := xs ! i)
     = store_bytes M a (take (Suc i) xs)"
  by (simp add: take_Suc_conv_app_nth store_bytes_append)

text \<open>The copied prefix leaves the source readable.\<close>

lemma source_kept:
  assumes "disjoint_ranges d (Suc n) s (Suc n)" and "n < 4294967295" and "i \<le> n" and "length ys \<le> n"
  shows "store_bytes M d ys (s + of_nat i) = M (s + of_nat i)"
proof (rule store_bytes_outside)
  have "apart d s (Suc n)" using assms by (intro disjoint_ranges_apart) auto
  then have "Suc n \<le> unat (s + of_nat i - d)" using assms by (intro apart_dist) auto
  then show "length ys \<le> unat (s + of_nat i - d)" using assms by linarith
qed (use assms in simp)

lemma strcpy_loop_store:
  assumes "cstr (at M src) xs" and "disjoint_ranges dest (Suc (length xs)) src (Suc (length xs))"
    and "length xs < 4294967295" and "i \<le> length xs"
  shows "strcpy_loop dest src (of_nat i) (store_bytes M dest (take i xs))
    = Some (store_bytes M dest (xs @ [0]))"
  using assms(4)
proof (induction "length xs - i" arbitrary: i)
  case 0
  then have "i = length xs" by simp
  then show ?case
    using source_kept [OF assms(2,3), of "length xs" xs M] assms(1)
    by (subst strcpy_loop.simps) (simp add: cstr_def at_def store_bytes_append)
next
  case (Suc k)
  then have i: "i < length xs" by simp
  have src: "store_bytes M dest (take i xs) (src + of_nat i) = xs ! i" and "xs ! i \<noteq> 0"
    using source_kept [OF assms(2,3), of i "take i xs" M] cstr_nth [OF assms(1) i] i
    by (auto simp: at_def)
  have "strcpy_loop dest src (of_nat (Suc i)) (store_bytes M dest (take (Suc i) xs))
      = Some (store_bytes M dest (xs @ [0]))"
    using Suc.hyps i by (intro Suc.hyps(1)) auto
  then show ?case
    using src \<open>xs ! i \<noteq> 0\<close> store_bytes_snoc [OF i, of M dest]
    by (subst strcpy_loop.simps) (simp add: ac_simps)
qed

lemma strncpy_pad_store: "strncpy_pad dest i k M = store_bytes M (dest + i) (replicate k 0)"
  by (induction k arbitrary: i M) (auto simp: ac_simps)

lemma strncpy_loop_store:
  assumes "cstr (at M src) xs" and "disjoint_ranges dest (Suc n) src (Suc n)"
    and "n < 4294967295" and "i \<le> n" and "i \<le> length xs"
  shows "strncpy_loop dest src (of_nat i) (n - i) (store_bytes M dest (take i xs))
    = store_bytes M dest (take n xs @ replicate (n - length xs) 0)"
  using assms(4,5)
proof (induction "n - i" arbitrary: i)
  case 0
  then show ?case by simp
next
  case (Suc k)
  then have n: "n - i = Suc (n - Suc i)" and "i < n" by auto
  have src: "store_bytes M dest (take i xs) (src + of_nat i) = M (src + of_nat i)"
    using source_kept [OF assms(2,3), of i "take i xs" M] \<open>i < n\<close> by simp
  show ?case
  proof (cases "i < length xs")
    case True
    have "strncpy_loop dest src (of_nat (Suc i)) (n - Suc i) (store_bytes M dest (take (Suc i) xs))
        = store_bytes M dest (take n xs @ replicate (n - length xs) 0)"
      using Suc.hyps True \<open>i < n\<close> by (intro Suc.hyps(1)) auto
    then show ?thesis
      using src cstr_nth [OF assms(1) True] store_bytes_snoc [OF True, of M dest] n
      by (simp add: at_def ac_simps)
  next
    case False
    with Suc.prems have i: "i = length xs" by simp
    then have "M (src + of_nat i) = 0" using assms(1) by (simp add: cstr_def at_def)
    then have "strncpy_loop dest src (of_nat i) (n - i) (store_bytes M dest (take i xs))
        = strncpy_pad dest (of_nat i) (n - i) (store_bytes M dest (take i xs))"
      using src n by simp
    then show ?thesis using i \<open>i < n\<close> by (simp add: strncpy_pad_store store_bytes_append)
  qed
qed

section \<open>strrev and itoa\<close>

lemma strrev_loop_nth:
  assumes "e < 4294967296" and "b \<le> Suc e"
  shows "strrev_loop s (int b) (int e) M x
    = (if b \<le> unat (x - s) \<and> unat (x - s) \<le> e then M (s + of_nat (b + e - unat (x - s))) else M x)"
proof -
  define d where "d = unat (x - s)"
  then have x: "x = s + of_nat d" by simp
  have "strrev_loop s (int b) (int e) M x
    = (if b \<le> d \<and> d \<le> e then M (s + of_nat (b + e - d)) else M x)"
    using assms
  proof (induction "e - b" arbitrary: b e M rule: less_induct)
    case less
    show ?case
    proof (cases "b < e")
      case False
      with less.prems have "b = e \<or> b = Suc e" by linarith
      then show ?thesis
        using False x by (subst strrev_loop.simps) auto
    next
      case True
      let ?N = "M(s + of_nat e := M (s + of_nat b), s + of_nat b := M (s + of_nat e))"
      have step: "strrev_loop s (int b) (int e) M = strrev_loop s (int (Suc b)) (int (e - 1)) ?N"
        using True by (subst strrev_loop.simps) (simp add: of_nat_diff algebra_simps)
      have IH: "strrev_loop s (int (Suc b)) (int (e - 1)) ?N x
          = (if Suc b \<le> d \<and> d \<le> e - 1
             then ?N (s + of_nat (Suc b + (e - 1) - d)) else ?N x)"
        using True less.prems by (intro less.hyps) auto
      have small: "d < 4294967296" unfolding d_def by simp
      have neq: "s + of_nat k \<noteq> s + of_nat l" if "k \<le> e \<or> k = d" "l \<le> e" "k \<noteq> l" for k l
      proof
        assume "s + of_nat k = s + of_nat l"
        then have "unat (of_nat k :: 32 word) = unat (of_nat l :: 32 word)" by simp
        then show False using that small less.prems by (auto simp: of_nat_unat_small)
      qed
      consider "d = b" | "d = e" | "b < d \<and> d < e" | "d < b \<or> e < d" by linarith
      then show ?thesis
      proof cases
        case 1
        then show ?thesis using step IH True x by simp
      next
        case 2
        then have "\<not> d \<le> e - 1" using True by linarith
        then show ?thesis using 2 step IH True x neq [of e b] by simp
      next
        case 3
        then have sum: "Suc b + (e - 1) - d = b + e - d" and "d \<le> e - 1" and "Suc b \<le> d" by auto
        have "s + of_nat (b + e - d) \<noteq> s + of_nat e" "s + of_nat (b + e - d) \<noteq> s + of_nat b"
          using 3 by (intro neq; linarith)+
        then have "?N (s + of_nat (b + e - d)) = M (s + of_nat (b + e - d))"
          by (simp only: fun_upd_def if_False)
        then show ?thesis
          unfolding step IH sum using \<open>d \<le> e - 1\<close> \<open>Suc b \<le> d\<close> 3 by (simp del: of_nat_diff)
      next
        case 4
        then have "x \<noteq> s + of_nat e" "x \<noteq> s + of_nat b"
          using neq [of d e] neq [of d b] True x by auto
        moreover have "\<not> (Suc b \<le> d \<and> d \<le> e - 1)" "\<not> (b \<le> d \<and> d \<le> e)" using 4 True by auto
        ultimately show ?thesis unfolding step IH by (simp only: if_False fun_upd_def)
      qed
    qed
  qed
  then show ?thesis by (simp add: d_def)
qed

lemma strrev_store:
  assumes "cstr (at (store_bytes M s (xs @ [0])) s) xs" and "length xs < 2147483648" and "xs \<noteq> []"
  shows "strrev s (store_bytes M s (xs @ [0])) = Some (store_bytes M s (rev xs @ [0]))"
proof -
  let ?n = "length xs" and ?S = "store_bytes M s (xs @ [0])"
  have "sint (of_nat ?n :: u32) = int ?n"
    using assms(2) by (simp add: signed_of_nat signed_take_bit_int_eq_self)
  then have "strrev s ?S = Some (strrev_loop s (int 0) (int (?n - 1)) ?S)"
    using strlen_cstr [OF assms(1)] assms(3) by (simp add: strrev_def of_nat_diff Suc_leI)
  also have "strrev_loop s (int 0) (int (?n - 1)) ?S = store_bytes M s (rev xs @ [0])"
  proof
    fix x
    let ?d = "unat (x - s)"
    have len: "length (xs @ [0]) < 4294967296" "length (rev xs @ [0]) < 4294967296"
      using assms(2) by auto
    have nth: "?S (s + of_nat k) = xs ! k" if "k < ?n" for k
      using that assms(2) len by (simp add: store_bytes_nth of_nat_unat_small nth_append)
    show "strrev_loop s (int 0) (int (?n - 1)) ?S x = store_bytes M s (rev xs @ [0]) x"
    proof (cases "?d < ?n")
      case True
      then have le: "?d \<le> ?n - 1" by linarith
      then have "strrev_loop s (int 0) (int (?n - 1)) ?S x = xs ! (?n - 1 - ?d)"
        using strrev_loop_nth [of "?n - 1" 0 s ?S x] nth [of "?n - 1 - ?d"] assms(2) True
        by (simp del: of_nat_diff)
      also have "\<dots> = store_bytes M s (rev xs @ [0]) x"
        using True len(2) by (simp add: store_bytes_nth nth_append rev_nth)
      finally show ?thesis .
    next
      case False
      then have "\<not> ?d \<le> ?n - 1" using assms(3) by (cases xs) auto
      then have "strrev_loop s (int 0) (int (?n - 1)) ?S x = ?S x"
        using strrev_loop_nth [of "?n - 1" 0 s ?S x] assms(2) by simp
      also have "\<dots> = store_bytes M s (rev xs @ [0]) x"
        using False len by (simp add: store_bytes_nth nth_append)
      finally show ?thesis .
    qed
  qed
  finally show ?thesis .
qed

text \<open>The digits of a number, least significant first, and the value of a digit string.\<close>

fun radix_digits :: "nat \<Rightarrow> nat \<Rightarrow> nat list" where
  "radix_digits r v = (if v = 0 \<or> r < 2 then [] else (v mod r) # radix_digits r (v div r))"

declare radix_digits.simps [simp del]

definition horner :: "nat \<Rightarrow> nat list \<Rightarrow> nat" where
  "horner r ds = foldl (\<lambda>acc d. acc * r + d) 0 ds"

definition digit_char :: "nat \<Rightarrow> byte" where
  "digit_char d = lookup_digits ! d"

lemma horner_snoc: "horner r (ds @ [d]) = horner r ds * r + d"
  by (simp add: horner_def)

lemma horner_radix_digits: "2 \<le> r \<Longrightarrow> horner r (rev (radix_digits r v)) = v"
proof (induction r v rule: radix_digits.induct)
  case (1 r v)
  then show ?case
    by (subst radix_digits.simps) (auto simp: horner_snoc horner_def)
qed

lemma radix_digits_less: "d \<in> set (radix_digits r v) \<Longrightarrow> d < r"
proof (induction r v rule: radix_digits.induct)
  case (1 r v)
  then show ?case
    by (subst (asm) radix_digits.simps) (auto split: if_splits)
qed

lemma radix_digits_length: "v < 2 ^ k \<Longrightarrow> length (radix_digits r v) \<le> k"
proof (induction r v arbitrary: k rule: radix_digits.induct)
  case (1 r v)
  show ?case
  proof (cases "v = 0 \<or> r < 2")
    case False
    with "1.prems" obtain l where k: "k = Suc l" by (cases k) auto
    have "v div r \<le> v div 2" using False by (intro div_le_mono2) auto
    also have "\<dots> < 2 ^ l" using "1.prems" k by (simp add: less_mult_imp_div_less)
    finally show ?thesis using 1 False k by (subst radix_digits.simps) auto
  qed (subst radix_digits.simps, simp)
qed

lemma last_radix_digits: "2 \<le> r \<Longrightarrow> 0 < v \<Longrightarrow> radix_digits r v \<noteq> [] \<and> last (radix_digits r v) \<noteq> 0"
proof (induction r v rule: radix_digits.induct)
  case (1 r v)
  show ?case
  proof (cases "v div r = 0")
    case True
    then have "radix_digits r (v div r) = []" by (subst radix_digits.simps) simp
    moreover have "v mod r = v" using True "1.prems" by (simp add: div_eq_0_iff)
    ultimately show ?thesis using "1.prems" by (subst (1 2) radix_digits.simps) simp
  next
    case False
    then have "radix_digits r (v div r) \<noteq> [] \<and> last (radix_digits r (v div r)) \<noteq> 0"
      using 1 by auto
    then show ?thesis using "1.prems" by (subst (1 2) radix_digits.simps) simp
  qed
qed

lemma length_lookup_digits: "length lookup_digits = 37"
  by (simp add: lookup_digits_def)

lemma digit_char_nonzero: "d < 36 \<Longrightarrow> digit_char d \<noteq> 0"
proof -
  have "list_all (\<lambda>d. digit_char d \<noteq> 0) [0..<36]"
    by code_simp
  then show "d < 36 \<Longrightarrow> digit_char d \<noteq> 0" by (simp add: list_all_iff)
qed

lemma itoa_loop_store:
  assumes "2 \<le> unat r" and "unat r \<le> 36"
  shows "itoa_loop a v r M = Some (a + of_nat (length (radix_digits (unat r) (unat v))),
    store_bytes M a (map digit_char (radix_digits (unat r) (unat v))))"
proof (induction "unat v" arbitrary: v a M rule: less_induct)
  case less
  show ?case
  proof (cases "v = 0")
    case True
    then show ?thesis by (subst itoa_loop.simps) (simp add: radix_digits.simps)
  next
    case False
    have r: "r \<noteq> 0" using assms by auto
    have dv: "unat (v div r) = unat v div unat r" "unat (v mod r) = unat v mod unat r"
      by (simp_all add: unat_div_distrib unat_mod_distrib)
    have "unat (v div r) < unat v"
      unfolding dv using False assms by (intro div_less_dividend) (auto simp: unat_gt_0)
    moreover have "unat v mod unat r < unat r" using assms by (intro mod_less_divisor) linarith
    then have "unat (v mod r) < length lookup_digits"
      using assms unfolding dv length_lookup_digits by linarith
    ultimately show ?thesis
      using less.hyps [of "v div r" "a + 1"] False r assms
      by (subst itoa_loop.simps, subst (1 2) radix_digits.simps)
        (simp add: dv digit_char_def unat_eq_0 ac_simps)
  qed
qed

lemma cstr_store:
  assumes "0 \<notin> set xs" and "length xs < 4294967295"
  shows "cstr (at (store_bytes M s (xs @ [0])) s) xs"
  using assms by (auto simp: cstr_def at_def store_bytes_nth of_nat_unat_small nth_append)

lemma itoa_store:
  assumes "2 \<le> unat r" and "unat r \<le> 36" and "v \<noteq> 0"
  shows "itoa v buf r M
    = Some (store_bytes M buf (map digit_char (rev (radix_digits (unat r) (unat v))) @ [0]))"
proof -
  let ?ds = "radix_digits (unat r) (unat v)"
  let ?xs = "map digit_char ?ds"
  have len: "length ?xs \<le> 32" using radix_digits_length [of "unat v" 32] by simp
  have "\<forall>d\<in>set ?ds. d < 36" using radix_digits_less assms(2) by fastforce
  then have "0 \<notin> set ?xs" using digit_char_nonzero by (metis imageE list.set_map)
  then have c: "cstr (at (store_bytes M buf (?xs @ [0])) buf) ?xs" using len by (intro cstr_store) auto
  have "0 < unat v" using assms(3) by (simp add: unat_gt_0)
  then have ne: "?xs \<noteq> []" using last_radix_digits assms(1) by auto
  have "itoa v buf r M = strrev buf (store_bytes M buf (?xs @ [0]))"
    using itoa_loop_store [OF assms(1,2)] assms(3) by (simp add: itoa_def store_bytes_append)
  also have "\<dots> = Some (store_bytes M buf (rev ?xs @ [0]))"
    using len ne by (intro strrev_store [OF c]) auto
  finally show ?thesis by (simp add: rev_map)
qed

section \<open>Properties\<close>

text \<open>C38: \<open>itoa\<close> returns for every value and every radix from 2 to 36, and what it leaves in the buffer is the NUL-terminated positional notation of the value: at most 32 digits below the radix, no leading zero unless the value is zero, whose weighted sum is the value again.\<close>

theorem itoa_round_trip:
  assumes "2 \<le> unat radix" and "unat radix \<le> 36"
  shows "\<exists>ds. itoa value buf radix M = Some (store_bytes M buf (map digit_char ds @ [0]))
    \<and> horner (unat radix) ds = unat value \<and> ds \<noteq> [] \<and> length ds \<le> 32
    \<and> (\<forall>d\<in>set ds. d < unat radix) \<and> (hd ds = 0 \<longrightarrow> value = 0)"
proof (cases "value = 0")
  case True
  have "digit_char 0 = 48" by code_simp
  then show ?thesis using True assms by (intro exI [of _ "[0]"]) (simp add: itoa_def horner_def)
next
  case False
  let ?ds = "radix_digits (unat radix) (unat value)"
  have "0 < unat value" using False by (simp add: unat_gt_0)
  then have "?ds \<noteq> [] \<and> last ?ds \<noteq> 0" using last_radix_digits assms by blast
  then show ?thesis
    using itoa_store [OF assms False] horner_radix_digits [OF assms(1)] radix_digits_less
      radix_digits_length [of "unat value" 32]
    by (intro exI [of _ "rev ?ds"]) (auto simp: hd_rev)
qed

theorem itoa_round_trip_witness:
  "\<exists>ds. itoa 255 0x1000 16 (\<lambda>_. 7)
      = Some (store_bytes (\<lambda>_. 7) 0x1000 (map digit_char ds @ [0]))
    \<and> horner 16 ds = 255 \<and> length ds \<le> 32"
  using itoa_round_trip [of 16 255 "0x1000" "\<lambda>_. 7"] by auto

text \<open>\<open>strncpy\<close> writes exactly \<open>n\<close> bytes: the first \<open>n\<close> bytes of the source string, padded with NUL bytes when the string is shorter, and nothing after them.\<close>

lemma strncpy_copies:
  assumes "cstr (at M src) xs" and "disjoint_ranges dest (Suc (unat n)) src (Suc (unat n))"
    and "unat n < 4294967295"
  shows "strncpy dest src n M = store_bytes M dest (take (unat n) xs @ replicate (unat n - length xs) 0)"
  using strncpy_loop_store [OF assms, of 0] by (simp add: strncpy_def)

text \<open>\<open>strcpy\<close> returns on every NUL-terminated source and copies the string with its terminator.\<close>

lemma strcpy_copies:
  assumes "cstr (at M src) xs" and "disjoint_ranges dest (Suc (length xs)) src (Suc (length xs))"
    and "length xs < 4294967295"
  shows "strcpy dest src M = Some (store_bytes M dest (xs @ [0]))"
  using strcpy_loop_store [OF assms, of 0] by (simp add: strcpy_def)

end
