(* ===== verification/Kernel_State.thy ===== *)
theory Kernel_State
  imports Lib_String
begin

text \<open>
  The data of the kernel: the structures of \<^verbatim>\<open>syscall.h\<close>, \<^verbatim>\<open>general_file.h\<close> and \<^verbatim>\<open>paging.h\<close> as records,
  the global variables of \<^verbatim>\<open>syscall.c\<close>, \<^verbatim>\<open>paging.c\<close>, \<^verbatim>\<open>keyboard.c\<close>, \<^verbatim>\<open>rtc.c\<close> and \<^verbatim>\<open>filesystem.c\<close> as the
  fields of one record \<open>kstate\<close>, and the parts of the machine the code touches: physical memory by
  page frame and offset, the interrupt flag, the log of bytes written to I/O ports, and the bytes
  the devices answer (\<open>inb_dev\<close>, a function of that log: the devices are not part of the sources).

  C \<open>int\<close> is \<^typ>\<open>int\<close>; \<open>uint32_t\<close> and addresses are 32-bit words; bit fields keep their width.
\<close>

section \<open>Terminals\<close>

text \<open>
  The three terminal objects \<^verbatim>\<open>terminal_1\<close>, \<^verbatim>\<open>terminal_2\<close>, \<^verbatim>\<open>terminal_3\<close>. Pointers to terminals are only
  ever assigned the address of one of them.
\<close>

datatype term_ptr = Terminal_1 | Terminal_2 | Terminal_3

instantiation term_ptr :: linorder
begin

fun term_rank :: "term_ptr \<Rightarrow> nat" where
  "term_rank Terminal_1 = 1"
| "term_rank Terminal_2 = 2"
| "term_rank Terminal_3 = 3"

definition less_eq_term_ptr :: "term_ptr \<Rightarrow> term_ptr \<Rightarrow> bool" where
  "less_eq_term_ptr a b \<longleftrightarrow> term_rank a \<le> term_rank b"

definition less_term_ptr :: "term_ptr \<Rightarrow> term_ptr \<Rightarrow> bool" where
  "less_term_ptr a b \<longleftrightarrow> term_rank a < term_rank b"

instance
proof
  have inj: "term_rank x = term_rank y \<Longrightarrow> x = y" for x y
    by (cases x; cases y) auto
  fix x y z :: term_ptr
  show "(x < y) = (x \<le> y \<and> \<not> y \<le> x)" and "x \<le> x" and "x \<le> y \<or> y \<le> x"
    and "x \<le> y \<Longrightarrow> y \<le> z \<Longrightarrow> x \<le> z"
    by (auto simp: less_eq_term_ptr_def less_term_ptr_def)
  assume "x \<le> y" and "y \<le> x"
  then have "term_rank x = term_rank y" by (simp add: less_eq_term_ptr_def)
  then show "x = y" by (rule inj)
qed

end

lemma all_terminals: "(\<forall>t. P t) \<longleftrightarrow> P Terminal_1 \<and> P Terminal_2 \<and> P Terminal_3"
proof
  assume P: "P Terminal_1 \<and> P Terminal_2 \<and> P Terminal_3"
  show "\<forall>t. P t"
  proof
    fix t
    show "P t" by (cases t) (use P in simp_all)
  qed
qed simp

record terminal_t =
  terminal_id :: int
  screen_x :: int
  screen_y :: int
  key_buf :: "byte list"
  keyboard_buffer_size :: int
  keyboard_buffer_enable :: int
  overflow :: int
  video_address :: addr
  current_process_id :: u32
  virtual_rate :: int
  virtual_count :: int

section \<open>File descriptors and process control blocks\<close>

text \<open>A \<^verbatim>\<open>file_ops_t *\<close>: NULL or the address of one of the five operation tables.\<close>

datatype file_ops_ptr = Ops_null | Ops_stdin | Ops_stdout | Ops_file | Ops_dir | Ops_rtc

record file_descriptor_t =
  file_ops :: file_ops_ptr
  inode :: u32
  file_pos :: u32
  flags :: u32

definition MAX_NUM_FILES :: nat where
  "MAX_NUM_FILES = 8"

definition MAX_ARG_LENGTH :: nat where
  "MAX_ARG_LENGTH = 33"

record pcb_t =
  file_descriptor_array :: "file_descriptor_t list"
  current_pid :: u32
  parent_pid :: u32
  current_esp :: u32
  current_ebp :: u32
  current_eip :: u32
  pcb_arg_buf :: "byte list"
  vidmap_flag :: u32
  pcb_terminal :: term_ptr

section \<open>Page tables\<close>

record pde =
  pde_present :: "1 word"
  pde_write_read :: "1 word"
  pde_u_s :: "1 word"
  pde_write_through :: "1 word"
  pde_cache_disable :: "1 word"
  pde_access :: "1 word"
  pde_dirty :: "1 word"
  pde_page_size :: "1 word"
  pde_glob :: "1 word"
  pde_avail :: "3 word"
  pde_address :: "20 word"

record pte =
  pte_present :: "1 word"
  pte_write_read :: "1 word"
  pte_u_s :: "1 word"
  pte_write_through :: "1 word"
  pte_cache_disable :: "1 word"
  pte_access :: "1 word"
  pte_dirty :: "1 word"
  pte_pat :: "1 word"
  pte_glob :: "1 word"
  pte_avail :: "3 word"
  pte_address :: "20 word"

text \<open>The arrays of \<open>SIZE\<close> = 1024 entries are indexed by the ten bits that select an entry.\<close>

record page_tables =
  page_dir :: "10 word \<Rightarrow> pde"
  pg_tab_1 :: "10 word \<Rightarrow> pte"
  vidmap_pg_tab_1 :: "10 word \<Rightarrow> pte"
  paging_enabled :: bool
  pg_tab_1_at :: addr
  vidmap_pg_tab_1_at :: addr

section \<open>The state\<close>

record kstate =
  terminals :: "term_ptr \<Rightarrow> terminal_t"
  active_terminal :: term_ptr
  current_terminal :: term_ptr
  active_pid :: u32
  process_count :: int
  processes :: "int list"
  arg_buf :: "byte list"
  argument_exist :: byte
  pcbs :: "addr \<Rightarrow> pcb_t"
  pages :: page_tables
  tss_esp0 :: u32
  boot_block_pointer :: addr
  alt_pressed :: u32
  ctrl_pressed :: u32
  shift_pressed :: u32
  caps_lock :: u32
  rtc_read_flag :: byte
  physical_rate :: int
  pmem :: "20 word \<Rightarrow> 12 word \<Rightarrow> byte"
  iflag :: bool
  io_log :: "(port \<times> byte) list"
  inb_dev :: "(port \<times> byte) list \<Rightarrow> port \<Rightarrow> byte"

definition KERNEL_STACK_BASE_ADDRESS :: u32 where
  "KERNEL_STACK_BASE_ADDRESS = 0x800000"

definition USER_KERNEL_STACK_SIZE :: u32 where
  "USER_KERNEL_STACK_SIZE = 0x2000"

text \<open>The address of a process control block, as every function of \<^verbatim>\<open>syscall.c\<close> computes it.\<close>

definition pcb_addr :: "u32 \<Rightarrow> addr" where
  "pcb_addr pid = KERNEL_STACK_BASE_ADDRESS - pid * USER_KERNEL_STACK_SIZE"

definition pcb_of :: "u32 \<Rightarrow> kstate \<Rightarrow> pcb_t" where
  "pcb_of pid s = pcbs s (pcb_addr pid)"

definition upd_pcb :: "u32 \<Rightarrow> (pcb_t \<Rightarrow> pcb_t) \<Rightarrow> kstate \<Rightarrow> kstate" where
  "upd_pcb pid f s = s\<lparr>pcbs := (pcbs s)(pcb_addr pid := f (pcb_of pid s))\<rparr>"

definition upd_terminal :: "term_ptr \<Rightarrow> (terminal_t \<Rightarrow> terminal_t) \<Rightarrow> kstate \<Rightarrow> kstate" where
  "upd_terminal t f s = s\<lparr>terminals := (terminals s)(t := f (terminals s t))\<rparr>"

text \<open>Port output, \<^verbatim>\<open>cli\<close> and \<^verbatim>\<open>sti\<close>.\<close>

definition outb :: "byte \<Rightarrow> port \<Rightarrow> kstate \<Rightarrow> kstate" where
  "outb v p s = s\<lparr>io_log := io_log s @ [(p, v)]\<rparr>"

definition inb :: "port \<Rightarrow> kstate \<Rightarrow> byte" where
  "inb p s = inb_dev s (io_log s) p"

definition cli :: "kstate \<Rightarrow> kstate" where
  "cli s = s\<lparr>iflag := False\<rparr>"

definition sti :: "kstate \<Rightarrow> kstate" where
  "sti s = s\<lparr>iflag := True\<rparr>"

text \<open>Busy waiting: check the condition, let one interrupt happen, check again.\<close>

primrec spin_until :: "(kstate \<Rightarrow> bool) \<Rightarrow> (kstate \<Rightarrow> kstate) list \<Rightarrow> kstate \<Rightarrow> kstate option" where
  "spin_until c [] s = (if c s then Some s else None)"
| "spin_until c (e # es) s = (if c s then Some s else spin_until c es (e s))"

section \<open>Static initial values\<close>

text \<open>
  The globals as the loader leaves them: the initialisers of the sources, zero for the others. The
  process control blocks lie outside the kernel image, so their contents are an argument, as are the
  addresses of the two page tables, the contents of memory and the devices.
\<close>

definition zero_pde :: pde where
  "zero_pde = \<lparr>pde_present = 0, pde_write_read = 0, pde_u_s = 0, pde_write_through = 0,
     pde_cache_disable = 0, pde_access = 0, pde_dirty = 0, pde_page_size = 0, pde_glob = 0,
     pde_avail = 0, pde_address = 0\<rparr>"

definition zero_pte :: pte where
  "zero_pte = \<lparr>pte_present = 0, pte_write_read = 0, pte_u_s = 0, pte_write_through = 0,
     pte_cache_disable = 0, pte_access = 0, pte_dirty = 0, pte_pat = 0, pte_glob = 0,
     pte_avail = 0, pte_address = 0\<rparr>"

definition static_tables :: "addr \<Rightarrow> addr \<Rightarrow> page_tables" where
  "static_tables tab_at vidmap_tab_at =
     \<lparr>page_dir = (\<lambda>_. zero_pde), pg_tab_1 = (\<lambda>_. zero_pte), vidmap_pg_tab_1 = (\<lambda>_. zero_pte),
      paging_enabled = False, pg_tab_1_at = tab_at, vidmap_pg_tab_1_at = vidmap_tab_at\<rparr>"

definition zero_terminal :: terminal_t where
  "zero_terminal = \<lparr>terminal_id = 0, screen_x = 0, screen_y = 0, key_buf = replicate 128 0,
     keyboard_buffer_size = 0, keyboard_buffer_enable = 0, overflow = 0, video_address = 0,
     current_process_id = 0, virtual_rate = 0, virtual_count = 0\<rparr>"

definition static_state :: "(addr \<Rightarrow> pcb_t) \<Rightarrow> addr \<Rightarrow> addr \<Rightarrow> (20 word \<Rightarrow> 12 word \<Rightarrow> byte)
    \<Rightarrow> ((port \<times> byte) list \<Rightarrow> port \<Rightarrow> byte) \<Rightarrow> kstate"
where
  "static_state blocks tab_at vidmap_tab_at memory dev =
     \<lparr>terminals = (\<lambda>_. zero_terminal), active_terminal = Terminal_1, current_terminal = Terminal_1,
      active_pid = 0, process_count = 3, processes = [1, 1, 1, 1, 0, 0, 0],
      arg_buf = replicate MAX_ARG_LENGTH 0, argument_exist = 0, pcbs = blocks,
      pages = static_tables tab_at vidmap_tab_at, tss_esp0 = 0, boot_block_pointer = NULL,
      alt_pressed = 0, ctrl_pressed = 0, shift_pressed = 0, caps_lock = 0, rtc_read_flag = 0,
      physical_rate = 1024, pmem = memory, iflag = False, io_log = [], inb_dev = dev\<rparr>"

definition empty_fd :: file_descriptor_t where
  "empty_fd = \<lparr>file_ops = Ops_null, inode = 0, file_pos = 0, flags = 0\<rparr>"

definition empty_pcb :: pcb_t where
  "empty_pcb = \<lparr>file_descriptor_array = replicate MAX_NUM_FILES empty_fd, current_pid = 0, parent_pid = 0,
     current_esp = 0, current_ebp = 0, current_eip = 0, pcb_arg_buf = replicate MAX_ARG_LENGTH 0,
     vidmap_flag = 0, pcb_terminal = Terminal_1\<rparr>"

text \<open>A concrete instance, with zeroed memory and devices that answer zero.\<close>

definition sample_state :: kstate where
  "sample_state = static_state (\<lambda>_. empty_pcb) 0x401000 0x402000 (\<lambda>_ _. 0) (\<lambda>_ _. 0)"

section \<open>Lemmas on the state\<close>

lemma terminals_upd_terminal [simp]:
  "terminals (upd_terminal t f s) u = (if u = t then f (terminals s t) else terminals s u)"
  by (simp add: upd_terminal_def)

lemma pcb_of_upd_pcb:
  "pcb_of q (upd_pcb p f s) = (if pcb_addr q = pcb_addr p then f (pcb_of p s) else pcb_of q s)"
  by (simp add: upd_pcb_def pcb_of_def)

lemma pcb_addr_inj_nat:
  assumes "unat p < 524288" and "unat q < 524288"
  shows "pcb_addr p = pcb_addr q \<longleftrightarrow> p = q"
proof -
  have "pcb_addr p = pcb_addr q \<longleftrightarrow> p * 0x2000 = q * 0x2000"
    by (simp add: pcb_addr_def KERNEL_STACK_BASE_ADDRESS_def USER_KERNEL_STACK_SIZE_def)
  also have "\<dots> \<longleftrightarrow> unat (p * 0x2000) = unat (q * 0x2000)" by (rule word_unat_eq_iff)
  also have "\<dots> \<longleftrightarrow> p = q"
    using assms by (simp add: unat_word_ariths word_unat_eq_iff)
  finally show ?thesis .
qed

text \<open>Frame equations: what each primitive leaves alone.\<close>

lemma upd_terminal_frame [simp]:
  "active_terminal (upd_terminal t f s) = active_terminal s"
  "current_terminal (upd_terminal t f s) = current_terminal s"
  "active_pid (upd_terminal t f s) = active_pid s"
  "process_count (upd_terminal t f s) = process_count s"
  "processes (upd_terminal t f s) = processes s"
  "arg_buf (upd_terminal t f s) = arg_buf s"
  "argument_exist (upd_terminal t f s) = argument_exist s"
  "pcbs (upd_terminal t f s) = pcbs s"
  "pages (upd_terminal t f s) = pages s"
  "tss_esp0 (upd_terminal t f s) = tss_esp0 s"
  "boot_block_pointer (upd_terminal t f s) = boot_block_pointer s"
  "alt_pressed (upd_terminal t f s) = alt_pressed s"
  "ctrl_pressed (upd_terminal t f s) = ctrl_pressed s"
  "shift_pressed (upd_terminal t f s) = shift_pressed s"
  "caps_lock (upd_terminal t f s) = caps_lock s"
  "rtc_read_flag (upd_terminal t f s) = rtc_read_flag s"
  "physical_rate (upd_terminal t f s) = physical_rate s"
  "pmem (upd_terminal t f s) = pmem s"
  "iflag (upd_terminal t f s) = iflag s"
  "io_log (upd_terminal t f s) = io_log s"
  "inb_dev (upd_terminal t f s) = inb_dev s"
  "pcb_of p (upd_terminal t f s) = pcb_of p s"
  by (simp_all add: upd_terminal_def pcb_of_def)

lemma upd_pcb_frame [simp]:
  "terminals (upd_pcb p g s) = terminals s"
  "active_terminal (upd_pcb p g s) = active_terminal s"
  "current_terminal (upd_pcb p g s) = current_terminal s"
  "active_pid (upd_pcb p g s) = active_pid s"
  "process_count (upd_pcb p g s) = process_count s"
  "processes (upd_pcb p g s) = processes s"
  "arg_buf (upd_pcb p g s) = arg_buf s"
  "argument_exist (upd_pcb p g s) = argument_exist s"
  "pages (upd_pcb p g s) = pages s"
  "tss_esp0 (upd_pcb p g s) = tss_esp0 s"
  "boot_block_pointer (upd_pcb p g s) = boot_block_pointer s"
  "shift_pressed (upd_pcb p g s) = shift_pressed s"
  "caps_lock (upd_pcb p g s) = caps_lock s"
  "physical_rate (upd_pcb p g s) = physical_rate s"
  "pmem (upd_pcb p g s) = pmem s"
  "iflag (upd_pcb p g s) = iflag s"
  "io_log (upd_pcb p g s) = io_log s"
  "inb_dev (upd_pcb p g s) = inb_dev s"
  by (simp_all add: upd_pcb_def)

end
