(* ===== verification/Paging.thy ===== *)
theory Paging
  imports Kernel_State
begin

text \<open>
  Paging: \<^verbatim>\<open>page_initialize\<close> of \<^verbatim>\<open>paging.c\<close> and the functions of \<^verbatim>\<open>syscall.c\<close> that rewrite page tables
  (\<open>paging_execute\<close>, \<open>paging_halt\<close>, \<open>paging_video_memory\<close>, \<open>syscall_enable_vidmap_paging\<close>). \<open>xlate\<close> is
  the translation the processor performs with these tables, for supervisor and for user accesses;
  every function reloads CR3 after its changes, so the tables are what the processor uses.

  The invariant \<open>wf_pages\<close> describes the address spaces the kernel builds. It is established by
  \<open>page_initialize\<close> and kept by every later change, and it implies that user code reaches only the
  program pages above 8 MB and the video pages.
\<close>

section \<open>Constants\<close>

definition VIDEO_ADDRESS_TO_PHYSICAL :: addr where
  "VIDEO_ADDRESS_TO_PHYSICAL = 0x000B7000"

definition VIDEO_MEM :: addr where
  "VIDEO_MEM = 0x000B8000"

definition VIDEO_MEM_TERMINAL_1 :: addr where
  "VIDEO_MEM_TERMINAL_1 = 0x000B9000"

definition VIDEO_MEM_TERMINAL_2 :: addr where
  "VIDEO_MEM_TERMINAL_2 = 0x000BA000"

definition VIDEO_MEM_TERMINAL_3 :: addr where
  "VIDEO_MEM_TERMINAL_3 = 0x000BB000"

definition VIRTUAL_ADDRESS_PROGRAM_START :: addr where
  "VIRTUAL_ADDRESS_PROGRAM_START = 0x08048000"

definition VIRTUAL_128MB_START :: addr where
  "VIRTUAL_128MB_START = 0x08000000"

lemmas video_consts = VIDEO_ADDRESS_TO_PHYSICAL_def VIDEO_MEM_def VIDEO_MEM_TERMINAL_1_def
  VIDEO_MEM_TERMINAL_2_def VIDEO_MEM_TERMINAL_3_def

text \<open>The page number of an address (\<^verbatim>\<open>>> 12\<close>) and the index of its directory entry (\<^verbatim>\<open>>> 22\<close>).\<close>

definition page_index :: "addr \<Rightarrow> 10 word" where
  "page_index va = ucast (drop_bit 12 va)"

definition dir_index :: "addr \<Rightarrow> 10 word" where
  "dir_index va = ucast (drop_bit 22 va)"

definition frame_of :: "addr \<Rightarrow> 20 word" where
  "frame_of pa = ucast (drop_bit 12 pa)"

section \<open>Building the tables\<close>

text \<open>A present, writable supervisor page, as \<open>page_initialize\<close> fills the video entries.\<close>

definition video_pte :: "addr \<Rightarrow> pte" where
  "video_pte pa = \<lparr>pte_present = 1, pte_write_read = 1, pte_u_s = 0, pte_write_through = 0,
     pte_cache_disable = 0, pte_access = 0, pte_dirty = 0, pte_pat = 0, pte_glob = 0,
     pte_avail = 0, pte_address = frame_of pa\<rparr>"

definition page_initialize :: "page_tables \<Rightarrow> page_tables" where
  "page_initialize pt = pt\<lparr>
     page_dir := (\<lambda>i.
       if i = 0 then
         \<lparr>pde_present = 1, pde_write_read = 1, pde_u_s = 0, pde_write_through = 0,
          pde_cache_disable = 0, pde_access = 0, pde_dirty = 0, pde_page_size = 0, pde_glob = 0,
          pde_avail = 0, pde_address = frame_of (pg_tab_1_at pt)\<rparr>
       else if i = 1 then
         \<lparr>pde_present = 1, pde_write_read = 1, pde_u_s = 0, pde_write_through = 0,
          pde_cache_disable = 1, pde_access = 0, pde_dirty = 0, pde_page_size = 1, pde_glob = 1,
          pde_avail = 0, pde_address = 0x00400\<rparr>
       else zero_pde),
     pg_tab_1 := (\<lambda>_. zero_pte)(
       page_index VIDEO_ADDRESS_TO_PHYSICAL := video_pte VIDEO_MEM,
       page_index VIDEO_MEM := video_pte VIDEO_MEM,
       page_index VIDEO_MEM_TERMINAL_1 := video_pte VIDEO_MEM_TERMINAL_1,
       page_index VIDEO_MEM_TERMINAL_2 := video_pte VIDEO_MEM_TERMINAL_2,
       page_index VIDEO_MEM_TERMINAL_3 := video_pte VIDEO_MEM_TERMINAL_3),
     vidmap_pg_tab_1 := (\<lambda>_. zero_pte),
     paging_enabled := True\<rparr>"

text \<open>The 4 MB page of a user program; \<open>frame\<close> is the value assigned to the 20-bit \<open>address\<close> field.\<close>

definition user_pde :: "u32 \<Rightarrow> pde" where
  "user_pde frame = \<lparr>pde_present = 1, pde_write_read = 1, pde_u_s = 1, pde_write_through = 0,
     pde_cache_disable = 0, pde_access = 0, pde_dirty = 0, pde_page_size = 1, pde_glob = 0,
     pde_avail = 0, pde_address = ucast frame\<rparr>"

definition set_user_page :: "u32 \<Rightarrow> page_tables \<Rightarrow> page_tables" where
  "set_user_page frame pt =
     pt\<lparr>page_dir := (page_dir pt)(dir_index VIRTUAL_ADDRESS_PROGRAM_START := user_pde frame)\<rparr>"

definition paging_execute :: "u32 \<Rightarrow> kstate \<Rightarrow> kstate" where
  "paging_execute pid s =
     s\<lparr>pages := set_user_page (0x00400 + 0x00400 + pid * 0x00400) (pages s)\<rparr>"

definition paging_halt :: "u32 \<Rightarrow> kstate \<Rightarrow> kstate" where
  "paging_halt pid s =
     s\<lparr>pages := set_user_page (0x00400 + 0x00400 + (pid - 1) * 0x00400) (pages s),
       process_count := process_count s - 1\<rparr>"

text \<open>Point the kernel's and the user's video page at one frame and set the user page's presence.\<close>

definition set_video_frame :: "20 word \<Rightarrow> 1 word \<Rightarrow> page_tables \<Rightarrow> page_tables" where
  "set_video_frame f user_present pt =
     pt\<lparr>pg_tab_1 := (pg_tab_1 pt)(page_index VIDEO_MEM :=
          (pg_tab_1 pt (page_index VIDEO_MEM))\<lparr>pte_address := f\<rparr>),
        vidmap_pg_tab_1 := (vidmap_pg_tab_1 pt)(0 :=
          (vidmap_pg_tab_1 pt 0)\<lparr>pte_address := f, pte_present := user_present\<rparr>)\<rparr>"

definition paging_video_memory :: "kstate \<Rightarrow> kstate" where
  "paging_video_memory s =
     (let target_pcb = pcb_of (active_pid s) s;
          f = (if active_terminal s = current_terminal s then frame_of VIDEO_MEM
               else ucast (drop_bit 12 VIDEO_MEM
                      + of_int (terminal_id (terminals s (active_terminal s)))))
      in s\<lparr>pages := set_video_frame f (if vidmap_flag target_pcb = 1 then 1 else 0) (pages s)\<rparr>)"

definition vidmap_address :: addr where
  "vidmap_address = VIRTUAL_128MB_START + KERNEL_STACK_BASE_ADDRESS div 2"

definition enable_vidmap :: "page_tables \<Rightarrow> page_tables" where
  "enable_vidmap pt = pt\<lparr>
     page_dir := (page_dir pt)(dir_index vidmap_address :=
       \<lparr>pde_present = 1, pde_write_read = 1, pde_u_s = 1, pde_write_through = 0,
        pde_cache_disable = 0, pde_access = 0, pde_dirty = 0, pde_page_size = 0, pde_glob = 0,
        pde_avail = 0, pde_address = frame_of (vidmap_pg_tab_1_at pt)\<rparr>),
     vidmap_pg_tab_1 := (vidmap_pg_tab_1 pt)(0 :=
       \<lparr>pte_present = 1, pte_write_read = 1, pte_u_s = 1, pte_write_through = 0,
        pte_cache_disable = 0, pte_access = 0, pte_dirty = 0, pte_pat = 0, pte_glob = 0,
        pte_avail = 0, pte_address = frame_of VIDEO_MEM\<rparr>)\<rparr>"

definition syscall_enable_vidmap_paging :: "kstate \<Rightarrow> kstate" where
  "syscall_enable_vidmap_paging s = s\<lparr>pages := enable_vidmap (pages s)\<rparr>"

section \<open>Translation\<close>

text \<open>
  The processor's walk of the two-level tables: the frame and the offset an access reaches, or
  \<open>None\<close> for a page fault. \<open>user\<close> is true for an access made in user mode, which needs the
  user bit at both levels.
\<close>

definition table_entry :: "page_tables \<Rightarrow> 20 word \<Rightarrow> 10 word \<Rightarrow> pte option" where
  "table_entry pt f i =
     (if f = frame_of (pg_tab_1_at pt) then Some (pg_tab_1 pt i)
      else if f = frame_of (vidmap_pg_tab_1_at pt) then Some (vidmap_pg_tab_1 pt i)
      else None)"

definition xlate :: "bool \<Rightarrow> page_tables \<Rightarrow> addr \<Rightarrow> (20 word \<times> 12 word) option" where
  "xlate user pt va =
     (if \<not> paging_enabled pt then Some (frame_of va, ucast va)
      else let e = page_dir pt (dir_index va)
        in if pde_present e = 0 \<or> (user \<and> pde_u_s e = 0) then None
           else if pde_page_size e = 1 then
             Some ((pde_address e AND 0xFFC00) OR (frame_of va AND 0x003FF), ucast va)
           else case table_entry pt (pde_address e) (page_index va) of
                  None \<Rightarrow> None
                | Some t \<Rightarrow>
                    if pte_present t = 0 \<or> (user \<and> pte_u_s t = 0) then None
                    else Some (pte_address t, ucast va))"

text \<open>
  Byte accesses of the kernel through the tables. The page fault of an access to an unmapped address is not modelled: a load
  gives 0 and a store does nothing.
\<close>

definition vload :: "kstate \<Rightarrow> addr \<Rightarrow> byte" where
  "vload s va = (case xlate False (pages s) va of None \<Rightarrow> 0 | Some (f, off) \<Rightarrow> pmem s f off)"

definition vstore :: "addr \<Rightarrow> byte \<Rightarrow> kstate \<Rightarrow> kstate" where
  "vstore va b s =
     (case xlate False (pages s) va of
        None \<Rightarrow> s
      | Some (f, off) \<Rightarrow> s\<lparr>pmem := (pmem s)(f := (pmem s f)(off := b))\<rparr>)"

text \<open>The kernel's view of memory, and storing a list of bytes from an address upwards.\<close>

definition view :: "kstate \<Rightarrow> mem" where
  "view s = vload s"

primrec vstore_bytes :: "addr \<Rightarrow> byte list \<Rightarrow> kstate \<Rightarrow> kstate" where
  "vstore_bytes va [] s = s"
| "vstore_bytes va (b # bs) s = vstore_bytes (va + 1) bs (vstore va b s)"

section \<open>The invariant\<close>

definition video_frames :: "20 word set" where
  "video_frames = {0xB8, 0xB9, 0xBA, 0xBB}"

text \<open>Frames of 4 MB program pages, for process numbers 0 to 6.\<close>

definition user_frame :: "20 word \<Rightarrow> bool" where
  "user_frame f \<longleftrightarrow> 0x800 \<le> f \<and> f < 0x2400"

definition wf_pages :: "page_tables \<Rightarrow> bool" where
  "wf_pages pt \<longleftrightarrow>
     paging_enabled pt
     \<and> frame_of (pg_tab_1_at pt) \<noteq> frame_of (vidmap_pg_tab_1_at pt)
     \<and> pde_present (page_dir pt 0) = 1 \<and> pde_u_s (page_dir pt 0) = 0
     \<and> pde_page_size (page_dir pt 0) = 0 \<and> pde_address (page_dir pt 0) = frame_of (pg_tab_1_at pt)
     \<and> pde_present (page_dir pt 1) = 1 \<and> pde_u_s (page_dir pt 1) = 0
     \<and> pde_page_size (page_dir pt 1) = 1 \<and> pde_address (page_dir pt 1) = 0x400
     \<and> (pde_present (page_dir pt 32) = 1 \<longrightarrow> pde_page_size (page_dir pt 32) = 1
          \<and> (\<exists>p\<le>6. pde_address (page_dir pt 32) = 0x800 + p * 0x400))
     \<and> (pde_present (page_dir pt 33) = 1 \<longrightarrow> pde_page_size (page_dir pt 33) = 0
          \<and> pde_address (page_dir pt 33) = frame_of (vidmap_pg_tab_1_at pt))
     \<and> (\<forall>i. i \<noteq> 0 \<and> i \<noteq> 1 \<and> i \<noteq> 32 \<and> i \<noteq> 33 \<longrightarrow> pde_present (page_dir pt i) = 0)
     \<and> pte_present (pg_tab_1 pt 0xB7) = 1 \<and> pte_address (pg_tab_1 pt 0xB7) = 0xB8
     \<and> pte_present (pg_tab_1 pt 0xB8) = 1 \<and> pte_address (pg_tab_1 pt 0xB8) \<in> video_frames
     \<and> pte_present (pg_tab_1 pt 0xB9) = 1 \<and> pte_address (pg_tab_1 pt 0xB9) = 0xB9
     \<and> pte_present (pg_tab_1 pt 0xBA) = 1 \<and> pte_address (pg_tab_1 pt 0xBA) = 0xBA
     \<and> pte_present (pg_tab_1 pt 0xBB) = 1 \<and> pte_address (pg_tab_1 pt 0xBB) = 0xBB
     \<and> (\<forall>i. i \<noteq> 0xB7 \<and> i \<noteq> 0xB8 \<and> i \<noteq> 0xB9 \<and> i \<noteq> 0xBA \<and> i \<noteq> 0xBB
            \<longrightarrow> pte_present (pg_tab_1 pt i) = 0)
     \<and> (pte_present (vidmap_pg_tab_1 pt 0) = 1 \<longrightarrow> pte_address (vidmap_pg_tab_1 pt 0) \<in> video_frames)
     \<and> (\<forall>i. i \<noteq> 0 \<longrightarrow> pte_present (vidmap_pg_tab_1 pt i) = 0)"

section \<open>Indices and frames\<close>

lemma bit_cases: "(x :: 1 word) \<noteq> 0 \<longleftrightarrow> x = 1"
proof -
  have "unat x < 2" using unsigned_less [of x] by simp
  then have "unat x = 0 \<or> unat x = 1" by linarith
  then show ?thesis by (auto simp: word_unat_eq_iff)
qed

lemma index_consts [simp]:
  "dir_index VIRTUAL_ADDRESS_PROGRAM_START = 32"
  "dir_index vidmap_address = 33"
  "page_index VIDEO_ADDRESS_TO_PHYSICAL = 0xB7"
  "page_index VIDEO_MEM = 0xB8"
  "page_index VIDEO_MEM_TERMINAL_1 = 0xB9"
  "page_index VIDEO_MEM_TERMINAL_2 = 0xBA"
  "page_index VIDEO_MEM_TERMINAL_3 = 0xBB"
  "frame_of VIDEO_MEM = 0xB8"
  "frame_of VIDEO_MEM_TERMINAL_1 = 0xB9"
  "frame_of VIDEO_MEM_TERMINAL_2 = 0xBA"
  "frame_of VIDEO_MEM_TERMINAL_3 = 0xBB"
  by (simp_all add: dir_index_def page_index_def frame_of_def video_consts vidmap_address_def
      VIRTUAL_ADDRESS_PROGRAM_START_def VIRTUAL_128MB_START_def KERNEL_STACK_BASE_ADDRESS_def)

lemma le_6_cases:
  assumes "(p :: 20 word) \<le> 6"
  shows "p \<in> {0, 1, 2, 3, 4, 5, 6}"
proof -
  have "unat p \<le> 6" using assms by (simp add: word_le_nat_alt)
  then have "unat p \<in> {0, 1, 2, 3, 4, 5, 6}" by auto
  then show ?thesis by (auto simp: word_unat_eq_iff)
qed

text \<open>The base of a 4 MB page and the ten page bits of the address occupy different bits.\<close>

lemma large_frame:
  fixes x base :: "20 word"
  assumes "base AND 0xFFC00 = base" and "base AND 0x003FF = 0"
  shows "(base AND 0xFFC00) OR (x AND 0x003FF) = base + (x AND 0x003FF)"
proof -
  have "base AND (x AND 0x003FF) = x AND (base AND 0x003FF)" by (rule and.left_commute)
  then have "base AND (x AND 0x003FF) = 0" unfolding assms(2) by simp
  then show ?thesis unfolding assms(1) by (rule disjunctive_add_eq_or [symmetric])
qed

lemma low_bits_bound: "unat (x AND 0x003FF :: 20 word) < 1024"
proof -
  have "x AND 0x003FF \<le> 0x003FF" by (rule word_and_le1)
  then show ?thesis by (simp add: word_le_nat_alt)
qed

lemma pid_frame:
  fixes x p :: "20 word"
  assumes "p \<le> 6"
  shows "((0x800 + p * 0x400) AND 0xFFC00) OR (x AND 0x003FF) = 0x800 + p * 0x400 + (x AND 0x003FF)"
    and "unat (0x800 + p * 0x400 + (x AND 0x003FF)) = 0x800 + unat p * 0x400 + unat (x AND 0x003FF)"
proof -
  show "((0x800 + p * 0x400) AND 0xFFC00) OR (x AND 0x003FF) = 0x800 + p * 0x400 + (x AND 0x003FF)"
    using le_6_cases [OF assms] by (intro large_frame) auto
  have "unat p \<le> 6" using assms by (simp add: word_le_nat_alt)
  then show "unat (0x800 + p * 0x400 + (x AND 0x003FF)) = 0x800 + unat p * 0x400 + unat (x AND 0x003FF)"
    using low_bits_bound [of x] by (simp add: unat_word_ariths)
qed

section \<open>Preservation\<close>

lemma wf_page_initialize:
  assumes "frame_of (pg_tab_1_at pt) \<noteq> frame_of (vidmap_pg_tab_1_at pt)"
  shows "wf_pages (page_initialize pt)"
  using assms
  by (simp add: wf_pages_def page_initialize_def zero_pde_def zero_pte_def video_pte_def
      video_frames_def)

lemma wf_set_user_page:
  assumes "wf_pages pt" and "pid \<le> 6"
  shows "wf_pages (set_user_page (0x00400 + 0x00400 + pid * 0x00400) pt)"
proof -
  have "unat pid \<le> 6" using assms(2) by (simp add: word_le_nat_alt)
  then have "unat pid \<in> {0, 1, 2, 3, 4, 5, 6}" by auto
  then have "pid \<in> {0, 1, 2, 3, 4, 5, 6}" by (auto simp: word_unat_eq_iff)
  then have "\<exists>p\<le>6. (ucast (0x00400 + 0x00400 + pid * 0x00400) :: 20 word) = 0x800 + p * 0x400"
    by (intro exI [of _ "ucast pid"]) auto
  then show ?thesis
    using assms(1) by (simp add: wf_pages_def set_user_page_def user_pde_def)
qed

lemma wf_set_video_frame:
  assumes "wf_pages pt" and "f \<in> video_frames"
  shows "wf_pages (set_video_frame f b pt)"
  using assms by (simp add: wf_pages_def set_video_frame_def)

lemma wf_enable_vidmap:
  assumes "wf_pages pt"
  shows "wf_pages (enable_vidmap pt)"
  using assms by (simp add: wf_pages_def enable_vidmap_def video_frames_def)

section \<open>What an access reaches\<close>

lemma xlate_user:
  assumes wf: "wf_pages pt" and x: "xlate True pt va = Some (f, off)"
  shows "dir_index va = 32 \<and> (\<exists>p\<le>6. f = 0x800 + p * 0x400 + (frame_of va AND 0x003FF))
    \<or> dir_index va = 33 \<and> page_index va = 0 \<and> f \<in> video_frames"
proof -
  let ?e = "page_dir pt (dir_index va)"
  have pe: "pde_present ?e = 1" and us: "pde_u_s ?e \<noteq> 0"
    using x wf by (auto simp: xlate_def wf_pages_def Let_def bit_cases split: if_splits)
  then have "dir_index va \<noteq> 0" "dir_index va \<noteq> 1" using wf by (auto simp: wf_pages_def)
  then consider "dir_index va = 32" | "dir_index va = 33"
    using pe wf by (auto simp: wf_pages_def)
  then show ?thesis
  proof cases
    case 1
    then obtain p where p: "p \<le> 6" "pde_address ?e = 0x800 + p * 0x400" and "pde_page_size ?e = 1"
      using wf pe by (auto simp: wf_pages_def)
    then have "f = ((0x800 + p * 0x400) AND 0xFFC00) OR (frame_of va AND 0x003FF)"
      using x wf pe us by (auto simp: xlate_def Let_def wf_pages_def)
    then show ?thesis using 1 p(1) pid_frame(1) [OF p(1)] by auto
  next
    case 2
    then have tab: "table_entry pt (pde_address ?e) (page_index va)
        = Some (vidmap_pg_tab_1 pt (page_index va))" and "pde_page_size ?e = 0"
      using wf pe by (auto simp: wf_pages_def table_entry_def)
    then have "pte_present (vidmap_pg_tab_1 pt (page_index va)) = 1"
      and "f = pte_address (vidmap_pg_tab_1 pt (page_index va))"
      using x wf pe us by (auto simp: xlate_def Let_def wf_pages_def bit_cases split: if_splits)
    moreover have "\<forall>i. i \<noteq> 0 \<longrightarrow> pte_present (vidmap_pg_tab_1 pt i) = 0"
      and "pte_present (vidmap_pg_tab_1 pt 0) = 1 \<longrightarrow> pte_address (vidmap_pg_tab_1 pt 0) \<in> video_frames"
      using wf unfolding wf_pages_def by blast+
    ultimately show ?thesis using 2 by (cases "page_index va = 0") auto
  qed
qed

text \<open>The kernel's own 4 MB page is mapped one to one, and only for the kernel.\<close>

lemma xlate_kernel:
  assumes "wf_pages pt" and "dir_index va = 1"
  shows "xlate False pt va = Some (0x400 + (frame_of va AND 0x003FF), ucast va)"
    and "xlate True pt va = None"
proof -
  have "((0x400 :: 20 word) AND 0xFFC00) OR (frame_of va AND 0x003FF) = 0x400 + (frame_of va AND 0x003FF)"
    by (rule large_frame) auto
  then show "xlate False pt va = Some (0x400 + (frame_of va AND 0x003FF), ucast va)"
    using assms by (auto simp: xlate_def wf_pages_def Let_def)
  show "xlate True pt va = None"
    using assms by (auto simp: xlate_def wf_pages_def Let_def)
qed

text \<open>The pages of the first 4 MB the kernel uses.\<close>

lemma xlate_low_page:
  assumes "wf_pages pt" and "dir_index va = 0" and "pte_present (pg_tab_1 pt (page_index va)) = 1"
  shows "xlate False pt va = Some (pte_address (pg_tab_1 pt (page_index va)), ucast va)"
  using assms by (simp add: xlate_def wf_pages_def Let_def table_entry_def)

lemma unat_drop_bit_div: "unat (drop_bit n w) = unat w div 2 ^ n"
  by (subst unat_drop_bit_eq) (rule drop_bit_eq_div)

lemma low_page_index:
  assumes "unat off < 4096" and "a = 0xB7000 \<or> a = 0xB8000 \<or> a = 0xB9000 \<or> a = 0xBA000 \<or> a = 0xBB000"
  shows "dir_index (a + off) = 0" and "page_index (a + off) = page_index a"
    and "(ucast (a + off) :: 12 word) = ucast off"
proof -
  have a: "unat (a + off) = unat a + unat off"
    using assms by (auto simp: unat_word_ariths)
  have "(unat a + unat off) div 2 ^ 22 = 0" using assms by auto
  then have "drop_bit 22 (a + off) = 0"
    unfolding word_unat_eq_iff unat_drop_bit_div a by simp
  then show "dir_index (a + off) = 0" by (simp only: dir_index_def unsigned_0)
  have "(unat a + unat off) div 2 ^ 12 = unat a div 2 ^ 12" using assms by auto
  then have "drop_bit 12 (a + off) = drop_bit 12 a"
    unfolding word_unat_eq_iff unat_drop_bit_div a .
  then show "page_index (a + off) = page_index a" by (simp only: page_index_def)
  have "unat a mod 2 ^ 12 = 0" using assms(2) by auto
  then have "(unat a + unat off) mod 2 ^ 12 = unat off mod 2 ^ 12"
    using mod_add_left_eq [of "unat a" "2 ^ 12" "unat off"] by (simp only: add_0)
  then show "(ucast (a + off) :: 12 word) = ucast off"
    by (simp add: word_unat_eq_iff unsigned_ucast_eq take_bit_eq_mod a del: ucast_id)
qed

text \<open>The program page of a process, as user code sees it after \<open>set_user_page\<close>.\<close>

lemma pid_cases:
  assumes "(pid :: u32) \<le> 6"
  shows "pid \<in> {0, 1, 2, 3, 4, 5, 6}"
proof -
  have "unat pid \<le> 6" using assms by (simp add: word_le_nat_alt)
  then have "unat pid \<in> {0, 1, 2, 3, 4, 5, 6}" by auto
  then show ?thesis by (auto simp: word_unat_eq_iff)
qed

lemma ucast_pid_frame:
  assumes "pid \<le> 6"
  shows "(ucast (0x00400 + 0x00400 + pid * 0x00400 :: u32) :: 20 word) = 0x800 + ucast pid * 0x400"
    and "(ucast pid :: 20 word) \<le> 6" and "unat (ucast pid :: 20 word) = unat pid"
  using pid_cases [OF assms] by auto

lemma xlate_set_user_page:
  assumes "paging_enabled pt" and "dir_index va = 32" and "pid \<le> 6"
  shows "xlate True (set_user_page (0x00400 + 0x00400 + pid * 0x00400) pt) va
    = Some (0x800 + ucast pid * 0x400 + (frame_of va AND 0x003FF), ucast va)"
  using assms pid_frame(1) [OF ucast_pid_frame(2) [OF assms(3)], of "frame_of va"]
    ucast_pid_frame(1) [OF assms(3)]
  by (simp add: xlate_def set_user_page_def user_pde_def)

section \<open>Address spaces\<close>

text \<open>
  The states the code can reach by turning paging on and calling its five functions that change the tables, in any order and
  with anything that leaves the tables alone in between. The index is the number of the process whose
  program page has been installed last.
\<close>

inductive address_space :: "u32 option \<Rightarrow> kstate \<Rightarrow> bool" where
  turn_on: "frame_of (pg_tab_1_at (pages s)) \<noteq> frame_of (vidmap_pg_tab_1_at (pages s))
    \<Longrightarrow> address_space None (s\<lparr>pages := page_initialize (pages s)\<rparr>)"
| execute: "address_space cur s \<Longrightarrow> pid \<le> 6 \<Longrightarrow> address_space (Some pid) (paging_execute pid s)"
| halt: "address_space cur s \<Longrightarrow> pid - 1 \<le> 6 \<Longrightarrow> address_space (Some (pid - 1)) (paging_halt pid s)"
| video: "address_space cur s \<Longrightarrow> terminal_id (terminals s (active_terminal s)) \<in> {1, 2, 3}
    \<Longrightarrow> address_space cur (paging_video_memory s)"
| vidmap: "address_space cur s \<Longrightarrow> address_space cur (syscall_enable_vidmap_paging s)"
| elsewhere: "address_space cur s \<Longrightarrow> pages s' = pages s \<Longrightarrow> address_space cur s'"

text \<open>The entry of the program page: absent before the first process, then the page of the last one.\<close>

definition program_entry :: "u32 option \<Rightarrow> page_tables \<Rightarrow> bool" where
  "program_entry cur pt \<longleftrightarrow>
     (case cur of None \<Rightarrow> pde_present (page_dir pt 32) = 0
      | Some pid \<Rightarrow> pid \<le> 6 \<and> page_dir pt 32 = user_pde (0x00400 + 0x00400 + pid * 0x00400))"

lemma program_entry_simps:
  "program_entry None (page_initialize pt)"
  "pid \<le> 6 \<Longrightarrow> program_entry (Some pid) (set_user_page (0x00400 + 0x00400 + pid * 0x00400) pt)"
  "program_entry cur (set_video_frame f b pt) = program_entry cur pt"
  "program_entry cur (enable_vidmap pt) = program_entry cur pt"
  by (simp_all add: program_entry_def page_initialize_def zero_pde_def set_user_page_def set_video_frame_def
      enable_vidmap_def split: option.split)

lemma video_target_frame:
  assumes "i \<in> {1, 2, 3}"
  shows "(ucast (drop_bit 12 VIDEO_MEM + of_int i :: u32) :: 20 word) \<in> video_frames"
  using assms by (auto simp: VIDEO_MEM_def video_frames_def)

lemma address_space_tables:
  "address_space cur s \<Longrightarrow> wf_pages (pages s) \<and> program_entry cur (pages s)"
proof (induction rule: address_space.induct)
  case (turn_on s)
  then show ?case by (simp add: wf_page_initialize program_entry_simps)
next
  case (execute cur s pid)
  then show ?case
    using wf_set_user_page [of "pages s" pid] program_entry_simps(2) [of pid "pages s"] by (simp add: paging_execute_def)
next
  case (halt cur s pid)
  then show ?case
    using wf_set_user_page [of "pages s" "pid - 1"] program_entry_simps(2) [of "pid - 1" "pages s"] by (simp add: paging_halt_def)
next
  case (video cur s)
  have "frame_of VIDEO_MEM \<in> video_frames" by (simp add: video_frames_def)
  then show ?case
    using video video_target_frame by (auto simp: paging_video_memory_def Let_def program_entry_simps intro!: wf_set_video_frame)
next
  case (vidmap cur s)
  then show ?case by (simp add: syscall_enable_vidmap_paging_def wf_enable_vidmap program_entry_simps)
qed simp

text \<open>Under the invariant a user access reaches a program page above 8 MB or a video page.\<close>

lemma wf_user_access:
  assumes "wf_pages pt" and "xlate True pt va = Some (f, off)"
  shows "user_frame f \<and> dir_index va = 32 \<or> f \<in> video_frames \<and> dir_index va = 33 \<and> page_index va = 0"
proof -
  consider p where "p \<le> 6" "f = 0x800 + p * 0x400 + (frame_of va AND 0x003FF)" "dir_index va = 32"
    | "dir_index va = 33" "page_index va = 0" "f \<in> video_frames"
    using xlate_user [OF assms] by blast
  then show ?thesis
  proof cases
    case 1
    have "unat p \<le> 6" using 1(1) by (simp add: word_le_nat_alt)
    then have "0x800 \<le> unat f" "unat f < 0x2400"
      using pid_frame(2) [OF 1(1), of "frame_of va"] low_bits_bound [of "frame_of va"]
      unfolding 1(2) by auto
    then show ?thesis using 1(3) by (simp add: user_frame_def word_le_nat_alt word_less_nat_alt)
  qed blast
qed

lemma sample_tables_wf: "wf_pages (page_initialize (static_tables 0x401000 0x402000))"
  by (rule wf_page_initialize) (simp add: static_tables_def frame_of_def)

section \<open>Properties\<close>

text \<open>C8: User code is confined by the tables the code builds. After \<open>page_initialize\<close> and any sequence of calls of \<open>paging_execute\<close>, \<open>paging_halt\<close>, \<open>paging_video_memory\<close> and \<open>syscall_enable_vidmap_paging\<close>, with valid process and terminal numbers, an access of user code faults, or it lies in the 4 MB at 128 MB and reaches the corresponding byte of the program page of the process that was installed last (above 8 MB), or it lies in the single page at 132 MB and reaches one of the four video pages: never the kernel's 4 MB page, the rest of low memory or the page of another process.\<close>

theorem user_access_confined:
  assumes "address_space cur s" and "xlate True (pages s) va = Some (f, off)"
  shows "dir_index va = 32 \<and> user_frame f \<and> off = ucast va
        \<and> (\<exists>pid. cur = Some pid \<and> unat f = 0x800 + unat pid * 0x400 + unat (frame_of va AND 0x003FF))
    \<or> dir_index va = 33 \<and> page_index va = 0 \<and> f \<in> video_frames"
proof -
  have wf: "wf_pages (pages s)" and e: "program_entry cur (pages s)" using address_space_tables [OF assms(1)] by simp_all
  have en: "paging_enabled (pages s)" using wf by (simp add: wf_pages_def)
  consider "dir_index va = 32" "user_frame f" | "dir_index va = 33" "page_index va = 0" "f \<in> video_frames"
    using wf_user_access [OF wf assms(2)] by blast
  then show ?thesis
  proof cases
    case 1
    then obtain pid where c: "cur = Some pid" "pid \<le> 6"
        and d: "page_dir (pages s) 32 = user_pde (0x00400 + 0x00400 + pid * 0x00400)"
      using e assms(2) en by (cases cur) (auto simp: program_entry_def xlate_def)
    have "set_user_page (0x00400 + 0x00400 + pid * 0x00400) (pages s) = pages s"
      unfolding set_user_page_def index_consts d [symmetric] by simp
    then have f: "f = 0x800 + ucast pid * 0x400 + (frame_of va AND 0x003FF)" "off = ucast va"
      using xlate_set_user_page [OF en 1(1) c(2)] assms(2) by simp_all
    have "unat f = 0x800 + unat pid * 0x400 + unat (frame_of va AND 0x003FF)"
      using pid_frame(2) [OF ucast_pid_frame(2) [OF c(2)], of "frame_of va"] ucast_pid_frame(3) [OF c(2)] f(1) by simp
    then show ?thesis using 1 c(1) f(2) by blast
  qed blast
qed

theorem user_access_confined_witness:
  "\<exists>s f off. address_space (Some 1) s \<and> xlate True (pages s) 0x08048000 = Some (f, off) \<and> user_frame f \<and> unat f = 0xC48"
proof -
  let ?s = "static_state (\<lambda>_. empty_pcb) 0x401000 0x402000 (\<lambda>_ _. 0) (\<lambda>_ _. 0)"
  let ?u = "?s\<lparr>pages := page_initialize (pages ?s)\<rparr>"
  have "frame_of (pg_tab_1_at (pages ?s)) \<noteq> frame_of (vidmap_pg_tab_1_at (pages ?s))"
    by (simp add: static_state_def static_tables_def frame_of_def)
  from turn_on [OF this] have a: "address_space (Some 1) (paging_execute 1 ?u)" by (rule execute) simp
  have d: "dir_index 0x08048000 = 32" "frame_of 0x08048000 AND 0x003FF = 0x48" by (simp_all add: dir_index_def frame_of_def)
  have "paging_enabled (pages ?u)" by (simp add: page_initialize_def)
  then obtain f off where x: "xlate True (pages (paging_execute 1 ?u)) 0x08048000 = Some (f, off)"
    using xlate_set_user_page [of "pages ?u" "0x08048000" 1] d(1) by (simp add: paging_execute_def)
  from user_access_confined [OF a x] have "user_frame f \<and> unat f = 0xC48" using d by simp
  then show ?thesis using a x by blast
qed

text \<open>Processes do not share program memory. The program pages that \<open>paging_execute\<close> installs for two different process numbers up to 6 map every pair of user addresses to different physical frames.\<close>

lemma processes_disjoint:
  assumes "wf_pages (pages s)" and "p \<le> 6" and "q \<le> 6" and "p \<noteq> q"
    and "dir_index va = 32" and "dir_index vb = 32"
    and "xlate True (pages (paging_execute p s)) va = Some (f, off)"
    and "xlate True (pages (paging_execute q s)) vb = Some (g, off')"
  shows "f \<noteq> g"
proof -
  have en: "paging_enabled (pages s)" using assms(1) by (simp add: wf_pages_def)
  have f: "f = 0x800 + ucast p * 0x400 + (frame_of va AND 0x003FF)"
    using xlate_set_user_page [OF en assms(5,2)] assms(7) by (simp add: paging_execute_def)
  have g: "g = 0x800 + ucast q * 0x400 + (frame_of vb AND 0x003FF)"
    using xlate_set_user_page [OF en assms(6,3)] assms(8) by (simp add: paging_execute_def)
  have "unat f = 0x800 + unat p * 0x400 + unat (frame_of va AND 0x003FF)"
    "unat g = 0x800 + unat q * 0x400 + unat (frame_of vb AND 0x003FF)"
    using pid_frame(2) ucast_pid_frame [OF assms(2)] ucast_pid_frame [OF assms(3)] f g by auto
  moreover have "unat p \<noteq> unat q" using assms(4) by (simp add: word_unat_eq_iff)
  ultimately show ?thesis
    using low_bits_bound [of "frame_of va"] low_bits_bound [of "frame_of vb"] by (cases "unat p < unat q") auto
qed

end
