(* ===== verification/Console.thy ===== *)
theory Console
  imports Paging
begin

text \<open>
  The text console of \<^verbatim>\<open>lib.c\<close>: 25 rows of 80 cells, a character and an attribute byte each, written
  through the page tables at \<open>VIDEO\<close> (the terminal of the running process) or at \<open>VIDEO_DIRECT\<close> (the
  terminal on the screen), and the cursor registers of the VGA controller at ports 0x3D4 and 0x3D5.
  \<open>putc\<close> and \<open>current_terminal_putc\<close> are the same text in the source up to the terminal and the base
  address, and so are instances of \<open>putc_at\<close> here.

  The abstract console is a list of 2000 cells with a cursor; the refinement lemmas show that the
  byte-level operations implement the operations on it and touch nothing else.
\<close>

section \<open>Definitions\<close>

definition NUM_COLS :: int where
  "NUM_COLS = 80"

definition NUM_ROWS :: int where
  "NUM_ROWS = 25"

definition ATTRIB :: byte where
  "ATTRIB = 0x7"

definition BLUE :: byte where
  "BLUE = 0x16"

definition VIDEO :: addr where
  "VIDEO = 0xB8000"

definition VIDEO_DIRECT :: addr where
  "VIDEO_DIRECT = 0xB7000"

text \<open>The address of the character byte of a cell: \<^verbatim>\<open>video_mem + (i << 1)\<close>.\<close>

definition cell :: "addr \<Rightarrow> int \<Rightarrow> addr" where
  "cell base i = base + of_int (2 * i)"

definition blue_screen :: "kstate \<Rightarrow> kstate" where
  "blue_screen s = fold (\<lambda>i. vstore (cell VIDEO (int i) + 1) BLUE) [0..<nat (NUM_ROWS * NUM_COLS)] s"

text \<open>\<^verbatim>\<open>%\<close> of C truncates toward zero.\<close>

definition c_mod :: "int \<Rightarrow> int \<Rightarrow> int" where
  "c_mod a b = sgn a * (\<bar>a\<bar> mod \<bar>b\<bar>)"

definition set_cursor_position :: "int \<Rightarrow> int \<Rightarrow> kstate \<Rightarrow> kstate" where
  "set_cursor_position x y s =
     (let character_position = of_int (c_mod (y * NUM_COLS + x) (NUM_ROWS * NUM_COLS)) :: 16 word;
          s = cli s;
          s = outb 0x0e 0x3D4 s;
          s = outb (ucast (drop_bit 8 character_position)) 0x3D5 s;
          s = outb 0x0f 0x3D4 s;
          s = outb (ucast character_position) 0x3D5 s
      in sti s)"

text \<open>The statement \<open>set_cursor_position(current_terminal->screen_x, current_terminal->screen_y)\<close>.\<close>

definition show_cursor :: "kstate \<Rightarrow> kstate" where
  "show_cursor s =
     (let t = terminals s (current_terminal s) in set_cursor_position (screen_x t) (screen_y t) s)"

definition blank_cell :: "addr \<Rightarrow> int \<Rightarrow> kstate \<Rightarrow> kstate" where
  "blank_cell base i s = vstore (cell base i + 1) ATTRIB (vstore (cell base i) blank s)"

text \<open>The body of \<open>clear\<close> and \<open>current_terminal_clear\<close> before the cursor is moved.\<close>

definition clear_at :: "term_ptr \<Rightarrow> addr \<Rightarrow> kstate \<Rightarrow> kstate" where
  "clear_at t base s =
     (let s = fold (\<lambda>i. blank_cell base (int i)) [0..<nat (NUM_ROWS * NUM_COLS)] s;
          s = upd_terminal t (\<lambda>t. t\<lparr>screen_x := 0, screen_y := 0\<rparr>) s
      in show_cursor s)"

definition clear :: "kstate \<Rightarrow> kstate" where
  "clear s = clear_at (active_terminal s) VIDEO s"

text \<open>One step of the copying loop of the scroll: the character byte, then the attribute byte.\<close>

definition copy_cell :: "addr \<Rightarrow> int \<Rightarrow> kstate \<Rightarrow> kstate" where
  "copy_cell base i s =
     (let s = vstore (cell base i) (vload s (cell base (i + NUM_COLS))) s
      in vstore (cell base i + 1) (vload s (cell base (i + NUM_COLS) + 1)) s)"

definition scroll :: "addr \<Rightarrow> kstate \<Rightarrow> kstate" where
  "scroll base s =
     (let s = fold (\<lambda>i. copy_cell base (int i)) [0..<nat ((NUM_ROWS - 1) * NUM_COLS)] s
      in fold (\<lambda>i. blank_cell base (int i))
           [nat ((NUM_ROWS - 1) * NUM_COLS)..<nat (NUM_ROWS * NUM_COLS)] s)"

definition cursor_index :: "term_ptr \<Rightarrow> kstate \<Rightarrow> int" where
  "cursor_index t s = NUM_COLS * screen_y (terminals s t) + screen_x (terminals s t)"

text \<open>
  The body of \<open>putc\<close> for the terminal \<open>t\<close> and the video page at \<open>base\<close>: scroll when the cursor is past
  the last cell, write the character or start a new row, show the cursor.
\<close>

definition putc_wrap :: "term_ptr \<Rightarrow> addr \<Rightarrow> kstate \<Rightarrow> kstate" where
  "putc_wrap t base s =
     (if NUM_ROWS * NUM_COLS \<le> cursor_index t s
      then upd_terminal t (\<lambda>t. t\<lparr>screen_x := 0, screen_y := NUM_ROWS - 1\<rparr>) (scroll base s)
      else s)"

definition putc_char :: "term_ptr \<Rightarrow> addr \<Rightarrow> byte \<Rightarrow> kstate \<Rightarrow> kstate" where
  "putc_char t base c s =
     (if c = newline \<or> c = 13 then
        let s = upd_terminal t (\<lambda>t. t\<lparr>screen_y := screen_y t + 1\<rparr>) s;
            s = (if NUM_ROWS \<le> screen_y (terminals s t)
                 then upd_terminal t (\<lambda>t. t\<lparr>screen_y := NUM_ROWS - 1\<rparr>) (scroll base s)
                 else s)
        in upd_terminal t (\<lambda>t. t\<lparr>screen_x := 0\<rparr>) s
      else
        let s = vstore (cell base (cursor_index t s)) c s;
            s = vstore (cell base (cursor_index t s) + 1) ATTRIB s;
            s = upd_terminal t (\<lambda>t. t\<lparr>screen_x := screen_x t + 1\<rparr>) s
        in if NUM_COLS \<le> screen_x (terminals s t)
           then upd_terminal t (\<lambda>t. t\<lparr>screen_x := 0, screen_y := screen_y t + 1\<rparr>) s
           else s)"

definition putc_at :: "term_ptr \<Rightarrow> addr \<Rightarrow> byte \<Rightarrow> kstate \<Rightarrow> kstate" where
  "putc_at t base c s = show_cursor (putc_char t base c (putc_wrap t base s))"

definition putc :: "byte \<Rightarrow> kstate \<Rightarrow> kstate" where
  "putc c s = putc_at (active_terminal s) VIDEO c s"

definition back_putc_at :: "term_ptr \<Rightarrow> addr \<Rightarrow> kstate \<Rightarrow> kstate" where
  "back_putc_at t base s =
     (let T = terminals s t
      in if screen_x T = 0 \<and> screen_y T = 0 then set_cursor_position (screen_x T) (screen_y T) s
         else
           let s = (if screen_x T = 0
                    then upd_terminal t (\<lambda>t. t\<lparr>screen_x := NUM_COLS - 1, screen_y := screen_y t - 1\<rparr>) s
                    else upd_terminal t (\<lambda>t. t\<lparr>screen_x := screen_x t - 1\<rparr>) s);
               s = blank_cell base (cursor_index t s) s
           in show_cursor s)"

definition back_putc :: "kstate \<Rightarrow> kstate" where
  "back_putc s = back_putc_at (active_terminal s) VIDEO s"

definition current_terminal_putc :: "byte \<Rightarrow> kstate \<Rightarrow> kstate" where
  "current_terminal_putc c s = putc_at (current_terminal s) VIDEO_DIRECT c s"

definition current_terminal_back_putc :: "kstate \<Rightarrow> kstate" where
  "current_terminal_back_putc s = back_putc_at (current_terminal s) VIDEO_DIRECT s"

definition current_terminal_clear :: "kstate \<Rightarrow> kstate" where
  "current_terminal_clear s = clear_at (current_terminal s) VIDEO_DIRECT s"

text \<open>\<open>puts\<close> on the characters before the terminating NUL; the result is their number.\<close>

definition puts :: "byte list \<Rightarrow> kstate \<Rightarrow> int \<times> kstate" where
  "puts cs s = (int (length cs), fold putc cs s)"

definition test_interrupts :: "kstate \<Rightarrow> kstate" where
  "test_interrupts s =
     fold (\<lambda>i s. vstore (cell VIDEO (int i)) (vload s (cell VIDEO (int i)) + 1) s)
       [0..<nat (NUM_ROWS * NUM_COLS)] s"

section \<open>The abstract console\<close>

type_synonym cellv = "byte \<times> byte"

record console =
  cells :: "cellv list"
  col :: int
  row :: int

definition blank_row :: "cellv list" where
  "blank_row = replicate 80 (blank, ATTRIB)"

definition spec_scroll :: "cellv list \<Rightarrow> cellv list" where
  "spec_scroll cs = drop 80 cs @ blank_row"

text \<open>Put a character on a console whose cursor may rest one past the last cell.\<close>

definition spec_putc :: "byte \<Rightarrow> console \<Rightarrow> console" where
  "spec_putc c k =
     (let k = (if row k = 25 then \<lparr>cells = spec_scroll (cells k), col = 0, row = 24\<rparr> else k)
      in if c = newline \<or> c = 13 then
           if row k = 24 then \<lparr>cells = spec_scroll (cells k), col = 0, row = 24\<rparr>
           else k\<lparr>col := 0, row := row k + 1\<rparr>
         else
           let cs = (cells k)[nat (80 * row k + col k) := (c, ATTRIB)]
           in if col k = 79 then \<lparr>cells = cs, col = 0, row = row k + 1\<rparr>
              else \<lparr>cells = cs, col = col k + 1, row = row k\<rparr>)"

definition spec_back :: "console \<Rightarrow> console" where
  "spec_back k =
     (if col k = 0 \<and> row k = 0 then k
      else let x = (if col k = 0 then 79 else col k - 1); y = (if col k = 0 then row k - 1 else row k)
           in \<lparr>cells = (cells k)[nat (80 * y + x) := (blank, ATTRIB)], col = x, row = y\<rparr>)"

text \<open>Where the cursor may be: on a cell, or at the start of the row below the last one.\<close>

definition cursor_ok :: "terminal_t \<Rightarrow> bool" where
  "cursor_ok t \<longleftrightarrow> 0 \<le> screen_x t \<and> screen_x t < 80 \<and> 0 \<le> screen_y t
     \<and> (screen_y t < 25 \<or> screen_y t = 25 \<and> screen_x t = 0)"

text \<open>The cells held by a page frame, and the console a terminal presents in it.\<close>

definition frame_cells :: "(12 word \<Rightarrow> byte) \<Rightarrow> cellv list" where
  "frame_cells g = map (\<lambda>i. (g (of_nat (2 * i)), g (of_nat (2 * i + 1)))) [0..<2000]"

definition console_of :: "term_ptr \<Rightarrow> 20 word \<Rightarrow> kstate \<Rightarrow> console" where
  "console_of t f s = \<lparr>cells = frame_cells (pmem s f), col = screen_x (terminals s t),
     row = screen_y (terminals s t)\<rparr>"

text \<open>The frame a page of the first 4 MB is mapped to.\<close>

definition low_frame :: "addr \<Rightarrow> kstate \<Rightarrow> 20 word" where
  "low_frame base s = pte_address (pg_tab_1 (pages s) (page_index base))"

definition upd_frame :: "20 word \<Rightarrow> ((12 word \<Rightarrow> byte) \<Rightarrow> 12 word \<Rightarrow> byte) \<Rightarrow> kstate \<Rightarrow> kstate" where
  "upd_frame f h s = s\<lparr>pmem := (pmem s)(f := h (pmem s f))\<rparr>"

text \<open>
  What a console operation may change: one page frame, the cursor of one terminal, the ports and the
  interrupt flag.
\<close>

definition console_effect :: "term_ptr \<Rightarrow> 20 word \<Rightarrow> kstate \<Rightarrow> kstate \<Rightarrow> bool" where
  "console_effect t f s s' \<longleftrightarrow> (\<exists>g x y l b. s' = s\<lparr>pmem := (pmem s)(f := g),
     terminals := (terminals s)(t := (terminals s t)\<lparr>screen_x := x, screen_y := y\<rparr>),
     io_log := l, iflag := b\<rparr>)"

definition video_base :: "addr \<Rightarrow> bool" where
  "video_base base \<longleftrightarrow> base = VIDEO \<or> base = VIDEO_DIRECT"

section \<open>Bytes of a video page\<close>

lemma of_nat_12_eq:
  assumes "m < 4096" and "n < 4096"
  shows "(of_nat m :: 12 word) = of_nat n \<longleftrightarrow> m = n"
  using assms by (simp add: word_unat_eq_iff unat_of_nat)

lemma upd_frame_frame [simp]:
  "pages (upd_frame f h s) = pages s" "terminals (upd_frame f h s) = terminals s"
  "active_terminal (upd_frame f h s) = active_terminal s"
  "current_terminal (upd_frame f h s) = current_terminal s"
  "pmem (upd_frame f h s) = (pmem s)(f := h (pmem s f))"
  "low_frame base (upd_frame f h s) = low_frame base s"
  by (simp_all add: upd_frame_def low_frame_def)

lemma upd_frame_upd_frame [simp]: "upd_frame f h (upd_frame f k s) = upd_frame f (\<lambda>g. h (k g)) s"
  by (simp add: upd_frame_def)

lemma upd_frame_id [simp]: "upd_frame f (\<lambda>g. g) s = s"
  by (simp add: upd_frame_def)

lemma low_frame_upd_terminal [simp]: "low_frame base (upd_terminal t h s) = low_frame base s"
  by (simp add: low_frame_def)

text \<open>The five pages of the first 4 MB that the kernel maps.\<close>

definition video_page :: "addr \<Rightarrow> bool" where
  "video_page a \<longleftrightarrow> a = 0xB7000 \<or> a = 0xB8000 \<or> a = 0xB9000 \<or> a = 0xBA000 \<or> a = 0xBB000"

lemma video_base_page: "video_base base \<Longrightarrow> video_page base"
  by (auto simp: video_base_def video_page_def VIDEO_def VIDEO_DIRECT_def)

lemma xlate_page:
  assumes "wf_pages (pages s)" and "video_page base" and "n < 4096"
  shows "xlate False (pages s) (base + of_nat n) = Some (low_frame base s, of_nat n)"
proof -
  have n: "unat (of_nat n :: u32) < 4096" using assms(3) by (simp add: of_nat_unat_small)
  note b = assms(2) [unfolded video_page_def]
  have "page_index base = 0xB7 \<or> page_index base = 0xB8 \<or> page_index base = 0xB9
      \<or> page_index base = 0xBA \<or> page_index base = 0xBB"
    using assms(2) by (auto simp: video_page_def page_index_def)
  then have "pte_present (pg_tab_1 (pages s) (page_index base)) = 1"
    using assms(1) unfolding wf_pages_def by metis
  moreover have "(ucast (of_nat n :: u32) :: 12 word) = of_nat n"
    using assms(3) by (simp add: word_unat_eq_iff unsigned_ucast_eq unat_of_nat take_bit_eq_mod)
  ultimately show ?thesis
    using xlate_low_page [of "pages s" "base + of_nat n"] low_page_index [OF n b] assms(1)
    by (simp add: low_frame_def)
qed

lemma xlate_video:
  assumes "wf_pages (pages s)" and "video_base base" and "n < 4096"
  shows "xlate False (pages s) (base + of_nat n) = Some (low_frame base s, of_nat n)"
  by (rule xlate_page [OF assms(1) video_base_page [OF assms(2)] assms(3)])

lemma vstore_video:
  assumes "wf_pages (pages s)" and "video_base base" and "n < 4096"
  shows "vstore (base + of_nat n) b s = upd_frame (low_frame base s) (\<lambda>g. g(of_nat n := b)) s"
  using xlate_video [OF assms] by (simp add: vstore_def upd_frame_def)

lemma vload_video:
  assumes "wf_pages (pages s)" and "video_base base" and "n < 4096"
  shows "vload s (base + of_nat n) = pmem s (low_frame base s) (of_nat n)"
  using xlate_video [OF assms] by (simp add: vload_def)

lemma cell_nat: "cell base (int i) = base + of_nat (2 * i)"
  "cell base (int i) + 1 = base + of_nat (2 * i + 1)"
  by (simp_all add: cell_def ac_simps)

text \<open>Setting a cell in a frame, and in the list of its cells.\<close>

definition set_cell :: "nat \<Rightarrow> cellv \<Rightarrow> (12 word \<Rightarrow> byte) \<Rightarrow> 12 word \<Rightarrow> byte" where
  "set_cell i v g = g(of_nat (2 * i) := fst v, of_nat (2 * i + 1) := snd v)"

definition get_cell :: "nat \<Rightarrow> (12 word \<Rightarrow> byte) \<Rightarrow> cellv" where
  "get_cell i g = (g (of_nat (2 * i)), g (of_nat (2 * i + 1)))"

lemma length_frame_cells [simp]: "length (frame_cells g) = 2000"
  by (simp add: frame_cells_def)

lemma nth_frame_cells: "i < 2000 \<Longrightarrow> frame_cells g ! i = get_cell i g"
  by (simp add: frame_cells_def get_cell_def)

lemma get_set_cell:
  assumes "i < 2000" and "j < 2000"
  shows "get_cell j (set_cell i v g) = (if i = j then v else get_cell j g)"
proof -
  have eqs: "(of_nat (2 * j) :: 12 word) = of_nat (2 * i) \<longleftrightarrow> j = i"
    "(of_nat (2 * j) :: 12 word) = of_nat (2 * i + 1) \<longleftrightarrow> False"
    "(of_nat (2 * j + 1) :: 12 word) = of_nat (2 * i) \<longleftrightarrow> False"
    "(of_nat (2 * j + 1) :: 12 word) = of_nat (2 * i + 1) \<longleftrightarrow> j = i"
    using assms by (subst of_nat_12_eq; presburger)+
  show ?thesis unfolding get_cell_def set_cell_def fun_upd_apply eqs by auto
qed

lemma frame_cells_set_cell:
  assumes "i < 2000"
  shows "frame_cells (set_cell i v g) = (frame_cells g)[i := v]"
  by (rule nth_equalityI) (use assms in \<open>simp_all add: nth_frame_cells get_set_cell nth_list_update\<close>)

lemma store_cell:
  assumes "wf_pages (pages s)" and "video_base base" and "i < 2000"
  shows "vstore (cell base (int i) + 1) a (vstore (cell base (int i)) c s)
    = upd_frame (low_frame base s) (set_cell i (c, a)) s"
proof -
  have n: "2 * i < 4096" "2 * i + 1 < 4096" using assms(3) by auto
  show ?thesis
    unfolding cell_nat(2) unfolding cell_nat(1) vstore_video [OF assms(1,2) n(1)]
    by (subst vstore_video) (use assms n in \<open>simp_all add: set_cell_def [abs_def]\<close>)
qed

lemma blank_cell_upd:
  assumes "wf_pages (pages s)" and "video_base base" and "i < 2000"
  shows "blank_cell base (int i) s = upd_frame (low_frame base s) (set_cell i (blank, ATTRIB)) s"
  using store_cell [OF assms] by (simp add: blank_cell_def)

lemma copy_cell_upd:
  assumes "wf_pages (pages s)" and "video_base base" and "i < 1920"
  shows "copy_cell base (int i) s
    = upd_frame (low_frame base s) (\<lambda>g. set_cell i (get_cell (i + 80) g) g) s"
proof -
  let ?f = "low_frame base s" and ?s1 = "vstore (cell base (int i)) (vload s (cell base (int (i + 80)))) s"
  have n: "2 * i < 4096" "2 * (i + 80) < 4096" "2 * (i + 80) + 1 < 4096" and i: "i < 2000"
    using assms(3) by auto
  have s1: "?s1 = upd_frame ?f (\<lambda>g. g(of_nat (2 * i) := pmem s ?f (of_nat (2 * (i + 80))))) s"
    unfolding cell_nat(1) vstore_video [OF assms(1,2) n(1)] vload_video [OF assms(1,2) n(2)] ..
  have neq: "(of_nat (2 * (i + 80) + 1) :: 12 word) \<noteq> of_nat (2 * i)"
    using n by (subst of_nat_12_eq) presburger+
  have "vload ?s1 (cell base (int (i + 80)) + 1) = pmem ?s1 ?f (of_nat (2 * (i + 80) + 1))"
    unfolding cell_nat(2) by (subst vload_video) (use assms n s1 in \<open>simp_all\<close>)
  also have "\<dots> = pmem s ?f (of_nat (2 * (i + 80) + 1))"
    unfolding s1 using neq by simp
  finally have ld: "vload ?s1 (cell base (int (i + 80)) + 1) = pmem s ?f (of_nat (2 * (i + 80) + 1))" .
  have "copy_cell base (int i) s = vstore (cell base (int i) + 1) (vload ?s1 (cell base (int (i + 80)) + 1)) ?s1"
    by (simp add: copy_cell_def NUM_COLS_def Let_def)
  also have "\<dots> = upd_frame ?f (set_cell i (get_cell (i + 80) (pmem s ?f))) s"
    unfolding ld get_cell_def
    using store_cell [OF assms(1,2) i, of "pmem s ?f (of_nat (2 * (i + 80) + 1))" "vload s (cell base (int (i + 80)))"]
      vload_video [OF assms(1,2) n(2)] unfolding cell_nat(1) [of base "i + 80"] by simp
  also have "\<dots> = upd_frame ?f (\<lambda>g. set_cell i (get_cell (i + 80) g) g) s"
    by (simp add: upd_frame_def)
  finally show ?thesis .
qed

lemma fold_upd_frame:
  assumes "\<And>i s. i \<in> set xs \<Longrightarrow> pages s = P \<Longrightarrow> step i s = upd_frame f (h i) s" and "pages s = P"
  shows "fold step xs s = upd_frame f (fold h xs) s"
  using assms
proof (induction xs arbitrary: s)
  case Nil
  then show ?case by (simp add: id_def)
next
  case (Cons x xs)
  then show ?case by (simp add: comp_def)
qed

section \<open>Clearing and scrolling\<close>

lemma fold_blank_cells:
  assumes "wf_pages (pages s)" and "video_base base" and "b \<le> 2000" and f: "low_frame base s = f"
  shows "fold (\<lambda>i. blank_cell base (int i)) [a..<b] s
    = upd_frame f (fold (\<lambda>i. set_cell i (blank, ATTRIB)) [a..<b]) s"
proof (rule fold_upd_frame [where P = "pages s"])
  fix i and s' :: kstate assume "i \<in> set [a..<b]" and p: "pages s' = pages s"
  then have "i < 2000" using assms(3) by simp
  moreover have "low_frame base s' = f" using p f by (simp add: low_frame_def)
  ultimately show "blank_cell base (int i) s' = upd_frame f (set_cell i (blank, ATTRIB)) s'"
    using blank_cell_upd [of s' base i] assms p by simp
qed simp

lemma fold_set_cells:
  assumes "\<And>i. i \<in> set xs \<Longrightarrow> i < 2000"
  shows "frame_cells (fold (\<lambda>i. set_cell i v) xs g) = fold (\<lambda>i cs. cs[i := v]) xs (frame_cells g)"
  using assms by (induction xs arbitrary: g) (simp_all add: frame_cells_set_cell)

lemma fold_copy_cells:
  assumes "\<And>i. i \<in> set xs \<Longrightarrow> i < 1920"
  shows "frame_cells (fold (\<lambda>i g. set_cell i (get_cell (i + 80) g) g) xs g)
    = fold (\<lambda>i cs. cs[i := cs ! (i + 80)]) xs (frame_cells g)"
  using assms
proof (induction xs arbitrary: g)
  case (Cons i xs)
  have "i < 1920" by (rule Cons.prems) simp
  then have "i < 2000" "i + 80 < 2000" by auto
  then have "frame_cells (set_cell i (get_cell (i + 80) g) g) = (frame_cells g)[i := frame_cells g ! (i + 80)]"
    by (simp add: frame_cells_set_cell nth_frame_cells)
  moreover have "\<And>j. j \<in> set xs \<Longrightarrow> j < 1920" by (rule Cons.prems) simp
  ultimately show ?case using Cons.IH [of "set_cell i (get_cell (i + 80) g) g"] by simp
qed simp

lemma fold_update_same:
  assumes "a \<le> b" and "b \<le> length cs"
  shows "fold (\<lambda>i cs. cs[i := v]) [a..<b] cs = take a cs @ replicate (b - a) v @ drop b cs"
  using assms
proof (induction b)
  case (Suc b)
  show ?case
  proof (cases "a = Suc b")
    case False
    with Suc have "fold (\<lambda>i cs. cs[i := v]) [a..<Suc b] cs
        = (take a cs @ replicate (b - a) v @ drop b cs)[b := v]" by simp
    also have "\<dots> = take a cs @ replicate (Suc b - a) v @ drop (Suc b) cs"
      using Suc.prems False by (intro nth_equalityI) (auto simp: nth_append nth_list_update)
    finally show ?thesis .
  qed simp
qed simp

lemma fold_shift_up:
  assumes "n + k \<le> length cs"
  shows "fold (\<lambda>i cs. cs[i := cs ! (i + k)]) [0..<n] cs = take n (drop k cs) @ drop n cs"
  using assms
proof (induction n)
  case (Suc n)
  then have "fold (\<lambda>i cs. cs[i := cs ! (i + k)]) [0..<Suc n] cs
      = (take n (drop k cs) @ drop n cs)[n := (take n (drop k cs) @ drop n cs) ! (n + k)]" by simp
  also have "\<dots> = take (Suc n) (drop k cs) @ drop (Suc n) cs"
  proof (rule nth_equalityI)
    fix i
    define t where "t = take n (drop k cs)"
    have t: "length t = n" "\<And>j. j < n \<Longrightarrow> t ! j = cs ! (k + j)" using Suc.prems by (auto simp: t_def)
    have t': "take (Suc n) (drop k cs) = t @ [cs ! (k + n)]"
      using Suc.prems by (simp add: t_def take_Suc_conv_app_nth)
    show "(take n (drop k cs) @ drop n cs)[n := (take n (drop k cs) @ drop n cs) ! (n + k)] ! i
        = (take (Suc n) (drop k cs) @ drop (Suc n) cs) ! i"
      if "i < length ((take n (drop k cs) @ drop n cs)[n := (take n (drop k cs) @ drop n cs) ! (n + k)])"
      using that Suc.prems unfolding t' t_def [symmetric]
      by (auto simp: t(1) nth_append nth_list_update not_less add.commute)
  qed (use Suc.prems in simp)
  finally show ?case .
qed simp

definition scroll_frame :: "(12 word \<Rightarrow> byte) \<Rightarrow> 12 word \<Rightarrow> byte" where
  "scroll_frame g = fold (\<lambda>i. set_cell i (blank, ATTRIB)) [1920..<2000]
     (fold (\<lambda>i g. set_cell i (get_cell (i + 80) g) g) [0..<1920] g)"

lemma frame_cells_scroll: "frame_cells (scroll_frame g) = spec_scroll (frame_cells g)"
proof -
  let ?copy = "fold (\<lambda>i g. set_cell i (get_cell (i + 80) g) g) [0..<1920]"
  have "frame_cells (?copy g) = take 1920 (drop 80 (frame_cells g)) @ drop 1920 (frame_cells g)"
    by (subst fold_copy_cells, simp del: upt_rec_numeral, rule fold_shift_up) simp
  then have copy: "frame_cells (?copy g) = drop 80 (frame_cells g) @ drop 1920 (frame_cells g)"
    by simp
  have "frame_cells (scroll_frame g)
      = fold (\<lambda>i cs. cs[i := (blank, ATTRIB)]) [1920..<2000] (frame_cells (?copy g))"
    unfolding scroll_frame_def by (rule fold_set_cells) (simp del: upt_rec_numeral)
  also have "\<dots> = take 1920 (frame_cells (?copy g)) @ replicate (2000 - 1920) (blank, ATTRIB)
      @ drop 2000 (frame_cells (?copy g))"
    by (rule fold_update_same) simp_all
  finally show ?thesis by (simp add: copy spec_scroll_def blank_row_def)
qed

lemma screen_indices: "nat ((NUM_ROWS - 1) * NUM_COLS) = 1920" "nat (NUM_ROWS * NUM_COLS) = 2000"
  by (simp_all add: NUM_ROWS_def NUM_COLS_def)

lemma scroll_upd:
  assumes "wf_pages (pages s)" and "video_base base"
  shows "scroll base s = upd_frame (low_frame base s) scroll_frame s"
proof -
  let ?f = "low_frame base s"
  have f: "low_frame base s' = ?f" if "pages s' = pages s" for s'
    using that by (simp add: low_frame_def)
  have "fold (\<lambda>i. copy_cell base (int i)) [0..<1920] s
      = upd_frame ?f (fold (\<lambda>i g. set_cell i (get_cell (i + 80) g) g) [0..<1920]) s"
  proof (rule fold_upd_frame [where P = "pages s"])
    fix i and s' :: kstate assume "i \<in> set [0..<1920]" and p: "pages s' = pages s"
    then have "i < 1920" by (simp del: upt_rec_numeral)
    then show "copy_cell base (int i) s' = upd_frame ?f (\<lambda>g. set_cell i (get_cell (i + 80) g) g) s'"
      using copy_cell_upd [of s' base i] assms p f [OF p] by simp
  qed (rule refl)
  moreover have "fold (\<lambda>i. blank_cell base (int i)) [1920..<2000] s'
      = upd_frame ?f (fold (\<lambda>i. set_cell i (blank, ATTRIB)) [1920..<2000]) s'"
    if "pages s' = pages s" for s'
    using fold_blank_cells [OF _ assms(2) order_refl f [OF that]] assms(1) that
    by (simp del: upt_rec_numeral)
  ultimately show ?thesis
    by (simp add: scroll_def screen_indices Let_def scroll_frame_def [abs_def] del: upt_Suc upt_rec_numeral)
qed

section \<open>Refinement of the abstract console\<close>

text \<open>A state with the contents of one frame and the cursor of one terminal replaced.\<close>

definition with_console ::
  "term_ptr \<Rightarrow> 20 word \<Rightarrow> kstate \<Rightarrow> (12 word \<Rightarrow> byte) \<Rightarrow> int \<Rightarrow> int \<Rightarrow> kstate"
where
  "with_console t f s g x y = s\<lparr>pmem := (pmem s)(f := g),
     terminals := (terminals s)(t := (terminals s t)\<lparr>screen_x := x, screen_y := y\<rparr>)\<rparr>"

lemma with_console_id:
  "with_console t f s (pmem s f) (screen_x (terminals s t)) (screen_y (terminals s t)) = s"
  by (simp add: with_console_def)

lemma with_console_simps [simp]:
  "pages (with_console t f s g x y) = pages s"
  "current_terminal (with_console t f s g x y) = current_terminal s"
  "active_terminal (with_console t f s g x y) = active_terminal s"
  "low_frame base (with_console t f s g x y) = low_frame base s"
  "upd_frame f h (with_console t f s g x y) = with_console t f s (h g) x y"
  "upd_terminal t k (with_console t f s g x y)
    = s\<lparr>pmem := (pmem s)(f := g),
        terminals := (terminals s)(t := k ((terminals s t)\<lparr>screen_x := x, screen_y := y\<rparr>))\<rparr>"
  "screen_x (terminals (with_console t f s g x y) t) = x"
  "screen_y (terminals (with_console t f s g x y) t) = y"
  "cursor_index t (with_console t f s g x y) = 80 * y + x"
  "console_of t f (with_console t f s g x y) = \<lparr>cells = frame_cells g, col = x, row = y\<rparr>"
  by (simp_all add: with_console_def low_frame_def upd_frame_def upd_terminal_def cursor_index_def
      NUM_COLS_def console_of_def)

lemma fold_with_console:
  "s\<lparr>pmem := (pmem s)(f := g), terminals := (terminals s)(t := (terminals s t)\<lparr>screen_x := x, screen_y := y\<rparr>)\<rparr>
    = with_console t f s g x y"
  by (simp add: with_console_def)

lemma show_cursor_effect: "\<exists>l. show_cursor s = s\<lparr>io_log := l, iflag := True\<rparr>"
  by (auto simp: show_cursor_def set_cursor_position_def Let_def cli_def sti_def outb_def)

lemma set_cursor_effect: "\<exists>l. set_cursor_position x y s = s\<lparr>io_log := l, iflag := True\<rparr>"
  by (auto simp: set_cursor_position_def Let_def cli_def sti_def outb_def)

text \<open>\<open>s'\<close> is \<open>s\<close> with the console of \<open>t\<close> in frame \<open>f\<close> replaced by \<open>k\<close>.\<close>

definition console_becomes :: "term_ptr \<Rightarrow> 20 word \<Rightarrow> kstate \<Rightarrow> console \<Rightarrow> kstate \<Rightarrow> bool" where
  "console_becomes t f s k s' \<longleftrightarrow> (\<exists>g l. frame_cells g = cells k
     \<and> s' = (with_console t f s g (col k) (row k))\<lparr>io_log := l, iflag := True\<rparr>)"

lemma console_becomesI:
  "frame_cells g = cells k \<Longrightarrow> console_becomes t f s k (show_cursor (with_console t f s g (col k) (row k)))"
  using show_cursor_effect [of "with_console t f s g (col k) (row k)"] by (auto simp: console_becomes_def)

lemma console_becomes_console:
  assumes "console_becomes t f s k s'"
  shows "console_of t f s' = k" and "console_effect t f s s'"
proof -
  show "console_of t f s' = k"
    using assms by (auto simp: console_becomes_def console_of_def with_console_def)
  show "console_effect t f s s'"
    using assms unfolding console_becomes_def console_effect_def with_console_def by fastforce
qed

lemma vstore_terminals [simp]:
  "terminals (vstore a b s) = terminals s" "pages (vstore a b s) = pages s"
  by (simp_all add: vstore_def split: option.split prod.split)

lemma cursor_index_vstore [simp]: "cursor_index t (vstore a b s) = cursor_index t s"
  by (simp add: cursor_index_def)

lemma upd_terminal_with_console:
  "upd_terminal t (\<lambda>t. t\<lparr>screen_y := h (screen_y t)\<rparr>) (with_console t f s g x y) = with_console t f s g x (h y)"
  "upd_terminal t (\<lambda>t. t\<lparr>screen_x := h (screen_x t)\<rparr>) (with_console t f s g x y) = with_console t f s g (h x) y"
  "upd_terminal t (\<lambda>t. t\<lparr>screen_x := x', screen_y := h (screen_y t)\<rparr>) (with_console t f s g x y)
    = with_console t f s g x' (h y)"
  by (cases "terminals s t", simp add: with_console_def upd_terminal_def)+

lemmas upd_cursor = upd_terminal_with_console(1) [where h = "\<lambda>y. y + 1"]
  upd_terminal_with_console(1) [where h = "\<lambda>_. n" for n]
  upd_terminal_with_console(2) [where h = "\<lambda>x. x + 1"]
  upd_terminal_with_console(2) [where h = "\<lambda>x. x - 1"]
  upd_terminal_with_console(2) [where h = "\<lambda>_. n" for n]
  upd_terminal_with_console(3) [where h = "\<lambda>_. n" for n]
  upd_terminal_with_console(3) [where h = "\<lambda>y. y + 1"]
  upd_terminal_with_console(3) [where h = "\<lambda>y. y - 1"]

lemma scroll_with_console:
  assumes "wf_pages (pages s)" and "video_base base"
  shows "scroll base (with_console t (low_frame base s) s g x y)
    = with_console t (low_frame base s) s (scroll_frame g) x y"
  using scroll_upd [of "with_console t (low_frame base s) s g x y" base] assms by simp

lemma store_with_console:
  assumes "wf_pages (pages s)" and "video_base base" and "i < 2000"
  shows "vstore (cell base (int i) + 1) a (vstore (cell base (int i)) c (with_console t (low_frame base s) s g x y))
    = with_console t (low_frame base s) s (set_cell i (c, a) g) x y"
  using store_cell [of "with_console t (low_frame base s) s g x y" base i] assms by simp

lemma putc_wrap_spec:
  assumes "wf_pages (pages s)" and "video_base base" and "0 \<le> x" "x < 80" "y < 25 \<or> y = 25 \<and> x = 0"
  shows "putc_wrap t base (with_console t (low_frame base s) s g x y)
    = (if y = 25 then with_console t (low_frame base s) s (scroll_frame g) 0 24
       else with_console t (low_frame base s) s g x y)"
proof -
  have "NUM_ROWS * NUM_COLS \<le> 80 * y + x \<longleftrightarrow> y = 25"
    using assms by (auto simp: NUM_ROWS_def NUM_COLS_def)
  then show ?thesis
    using assms by (simp add: putc_wrap_def scroll_with_console upd_cursor NUM_ROWS_def
        del: with_console_simps(6))
qed

lemma putc_char_spec:
  assumes "wf_pages (pages s)" and "video_base base" and "0 \<le> x" "x < 80" "0 \<le> y" "y < 25"
  shows "putc_char t base c (with_console t (low_frame base s) s g x y)
    = (if c = newline \<or> c = 13 then
         if y = 24 then with_console t (low_frame base s) s (scroll_frame g) 0 24
         else with_console t (low_frame base s) s g 0 (y + 1)
       else if x = 79 then with_console t (low_frame base s) s (set_cell (nat (80 * y + x)) (c, ATTRIB) g) 0 (y + 1)
       else with_console t (low_frame base s) s (set_cell (nat (80 * y + x)) (c, ATTRIB) g) (x + 1) y)"
proof -
  have i: "nat (80 * y + x) < 2000" and eq: "80 * y + x = int (nat (80 * y + x))"
    using assms by auto
  note st = store_with_console [OF assms(1,2) i, folded eq]
  show ?thesis
    using assms st by (cases "x = 79") (simp_all add: putc_char_def scroll_with_console upd_cursor
        NUM_ROWS_def NUM_COLS_def Let_def del: with_console_simps(6))
qed

lemma putc_at_spec:
  assumes "wf_pages (pages s)" and "video_base base" and "cursor_ok (terminals s t)"
    and f: "f = low_frame base s"
  shows "console_becomes t f s (spec_putc c (console_of t f s)) (putc_at t base c s)"
proof -
  let ?x = "screen_x (terminals s t)" and ?y = "screen_y (terminals s t)" and ?g = "pmem s f"
  have b: "0 \<le> ?x" "?x < 80" "0 \<le> ?y" "?y < 25 \<or> ?y = 25 \<and> ?x = 0"
    using assms(3) by (auto simp: cursor_ok_def)
  have id: "s = with_console t f s ?g ?x ?y" by (simp add: with_console_id)
  have *: "console_becomes t f s (spec_putc c \<lparr>cells = frame_cells g, col = x, row = y\<rparr>)
      (show_cursor (putc_char t base c (with_console t f s g x y)))"
    if "0 \<le> x" "x < 80" "0 \<le> y" "y < 25" for g x y
  proof -
    have i: "nat (80 * y + x) < 2000" using that by auto
    show ?thesis
      unfolding f putc_char_spec [OF assms(1,2) that]
      using that i by (auto simp: spec_putc_def Let_def frame_cells_scroll frame_cells_set_cell
        intro!: console_becomesI [where k = "\<lparr>cells = cs, col = x', row = y'\<rparr>" for cs x' y', simplified])
  qed
  have k: "console_of t f s = \<lparr>cells = frame_cells ?g, col = ?x, row = ?y\<rparr>"
    by (simp add: console_of_def)
  show ?thesis
  proof (cases "?y = 25")
    case True
    have "putc_wrap t base s = with_console t f s (scroll_frame ?g) 0 24"
      using putc_wrap_spec [OF assms(1,2) b(1,2,4), of t ?g] True id f by simp
    then show ?thesis
      using * [of 0 24 "scroll_frame ?g"] True k
      by (simp add: putc_at_def spec_putc_def Let_def frame_cells_scroll)
  next
    case False
    have "putc_wrap t base s = with_console t f s ?g ?x ?y"
      using putc_wrap_spec [OF assms(1,2) b(1,2,4), of t ?g] False id f by simp
    then show ?thesis
      using * [of ?x ?y ?g] False k b by (simp add: putc_at_def)
  qed
qed

lemma clear_at_spec:
  assumes "wf_pages (pages s)" and "video_base base" and f: "f = low_frame base s"
  shows "console_becomes t f s \<lparr>cells = replicate 2000 (blank, ATTRIB), col = 0, row = 0\<rparr> (clear_at t base s)"
proof -
  let ?g = "fold (\<lambda>i. set_cell i (blank, ATTRIB)) [0..<2000] (pmem s f)"
  have "frame_cells ?g = fold (\<lambda>i cs. cs[i := (blank, ATTRIB)]) [0..<2000] (frame_cells (pmem s f))"
    by (rule fold_set_cells) (simp del: upt_rec_numeral)
  also have "\<dots> = take 0 (frame_cells (pmem s f)) @ replicate (2000 - 0) (blank, ATTRIB)
      @ drop 2000 (frame_cells (pmem s f))"
    by (rule fold_update_same) simp_all
  finally have g: "frame_cells ?g = replicate 2000 (blank, ATTRIB)" by simp
  have "fold (\<lambda>i. blank_cell base (int i)) [0..<2000] s
      = upd_frame f (fold (\<lambda>i. set_cell i (blank, ATTRIB)) [0..<2000]) s"
    by (rule fold_blank_cells) (use assms in simp_all)
  then have "clear_at t base s = show_cursor (with_console t f s ?g 0 0)"
    by (simp add: clear_at_def screen_indices with_console_def upd_frame_def upd_terminal_def
        del: upt_rec_numeral)
  then show ?thesis
    using console_becomesI [of ?g "\<lparr>cells = replicate 2000 (blank, ATTRIB), col = 0, row = 0\<rparr>" t f s] g
    by (simp del: upt_rec_numeral)
qed

lemma back_putc_at_spec:
  assumes "wf_pages (pages s)" and "video_base base" and "cursor_ok (terminals s t)"
    and f: "f = low_frame base s"
  shows "console_becomes t f s (spec_back (console_of t f s)) (back_putc_at t base s)"
proof -
  let ?x = "screen_x (terminals s t)" and ?y = "screen_y (terminals s t)" and ?g = "pmem s f"
  have b: "0 \<le> ?x" "?x < 80" "0 \<le> ?y" "?y < 25 \<or> ?y = 25 \<and> ?x = 0"
    using assms(3) by (auto simp: cursor_ok_def)
  have id: "s = with_console t f s ?g ?x ?y" by (simp add: with_console_id)
  show ?thesis
  proof (cases "?x = 0 \<and> ?y = 0")
    case True
    obtain l where "set_cursor_position 0 0 s = s\<lparr>io_log := l, iflag := True\<rparr>"
      using set_cursor_effect by blast
    then show ?thesis
      using True id unfolding console_becomes_def
      by (intro exI [of _ ?g] exI [of _ l]) (simp add: back_putc_at_def spec_back_def console_of_def)
  next
    case False
    define x' where "x' = (if ?x = 0 then 79 else ?x - 1)"
    define y' where "y' = (if ?x = 0 then ?y - 1 else ?y)"
    have xy: "0 \<le> 80 * y' + x'" "80 * y' + x' < 2000"
      using b False by (auto simp: x'_def y'_def)
    then have i: "nat (80 * y' + x') < 2000" and eq: "80 * y' + x' = int (nat (80 * y' + x'))" by auto
    have moved: "(if ?x = 0 then upd_terminal t (\<lambda>t. t\<lparr>screen_x := NUM_COLS - 1, screen_y := screen_y t - 1\<rparr>) s
        else upd_terminal t (\<lambda>t. t\<lparr>screen_x := screen_x t - 1\<rparr>) s) = with_console t f s ?g x' y'"
      by (cases "terminals s t")
        (auto simp: x'_def y'_def NUM_COLS_def with_console_def upd_terminal_def)
    have "blank_cell base (80 * y' + x') (with_console t f s ?g x' y')
        = with_console t f s (set_cell (nat (80 * y' + x')) (blank, ATTRIB) ?g) x' y'"
      unfolding blank_cell_def f by (subst (1 2) eq) (rule store_with_console [OF assms(1,2) i])
    then have "back_putc_at t base s
        = show_cursor (with_console t f s (set_cell (nat (80 * y' + x')) (blank, ATTRIB) ?g) x' y')"
      unfolding back_putc_at_def Let_def if_not_P [OF False] moved by simp
    moreover have "spec_back (console_of t f s)
        = \<lparr>cells = (frame_cells ?g)[nat (80 * y' + x') := (blank, ATTRIB)], col = x', row = y'\<rparr>"
      using False by (auto simp: spec_back_def console_of_def Let_def x'_def y'_def)
    ultimately show ?thesis
      using console_becomesI [of "set_cell (nat (80 * y' + x')) (blank, ATTRIB) ?g"
          "spec_back (console_of t f s)" t f s] frame_cells_set_cell [OF i] by simp
  qed
qed

section \<open>What stays the same\<close>

lemma cursor_ok_console:
  "cursor_ok (terminals s t) \<longleftrightarrow> (let k = console_of t f s in 0 \<le> col k \<and> col k < 80 \<and> 0 \<le> row k
     \<and> (row k < 25 \<or> row k = 25 \<and> col k = 0))"
  by (simp add: cursor_ok_def console_of_def)

lemma console_becomes_frame:
  assumes "console_becomes t f s k s'"
  shows "pages s' = pages s" and "active_terminal s' = active_terminal s"
    and "current_terminal s' = current_terminal s" and "active_pid s' = active_pid s"
    and "pcbs s' = pcbs s" and "processes s' = processes s" and "process_count s' = process_count s"
    and "u \<noteq> t \<Longrightarrow> terminals s' u = terminals s u" and "h \<noteq> f \<Longrightarrow> pmem s' h = pmem s h"
    and "terminals s' t = (terminals s t)\<lparr>screen_x := col k, screen_y := row k\<rparr>"
    and "iflag s'"
    and "boot_block_pointer s' = boot_block_pointer s" and "rtc_read_flag s' = rtc_read_flag s"
    and "physical_rate s' = physical_rate s" and "tss_esp0 s' = tss_esp0 s"
    and "inb_dev s' = inb_dev s" and "argument_exist s' = argument_exist s" and "arg_buf s' = arg_buf s"
    and "alt_pressed s' = alt_pressed s" and "ctrl_pressed s' = ctrl_pressed s"
    and "shift_pressed s' = shift_pressed s" and "caps_lock s' = caps_lock s"
  using assms by (auto simp: console_becomes_def with_console_def)

lemma console_becomes_trans:
  assumes "console_becomes t f s k s'" and "console_becomes t f s' k' s''"
  shows "console_becomes t f s k' s''"
  using assms unfolding console_becomes_def with_console_def by force

lemma spec_putc_cursor:
  assumes "0 \<le> col k" "col k < 80" "0 \<le> row k" "row k < 25 \<or> row k = 25 \<and> col k = 0"
  shows "let k' = spec_putc c k in 0 \<le> col k' \<and> col k' < 80 \<and> 0 \<le> row k'
     \<and> (row k' < 25 \<or> row k' = 25 \<and> col k' = 0)"
  using assms by (auto simp: spec_putc_def Let_def)

lemma spec_back_cursor:
  assumes "0 \<le> col k" "col k < 80" "0 \<le> row k" "row k < 25 \<or> row k = 25 \<and> col k = 0"
  shows "let k' = spec_back k in 0 \<le> col k' \<and> col k' < 80 \<and> 0 \<le> row k' \<and> row k' < 25
    \<or> k' = k"
  using assms by (auto simp: spec_back_def Let_def)

lemma putc_at_cursor_ok:
  assumes "wf_pages (pages s)" and "video_base base" and "cursor_ok (terminals s t)"
  shows "cursor_ok (terminals (putc_at t base c s) t)"
proof -
  let ?f = "low_frame base s"
  have "console_of t ?f (putc_at t base c s) = spec_putc c (console_of t ?f s)"
    by (rule console_becomes_console(1) [OF putc_at_spec [OF assms refl]])
  then show ?thesis
    using spec_putc_cursor [of "console_of t ?f s" c] assms(3)
    unfolding cursor_ok_console [where f = ?f] Let_def by simp
qed

text \<open>Writing a string puts its characters one after the other.\<close>

lemma fold_putc_at_spec:
  assumes "wf_pages (pages s)" and "video_base base" and "cursor_ok (terminals s t)"
    and f: "f = low_frame base s" and "iflag s"
  shows "console_becomes t f s (fold spec_putc cs (console_of t f s)) (fold (putc_at t base) cs s)
    \<and> cursor_ok (terminals (fold (putc_at t base) cs s) t)"
  using assms
proof (induction cs arbitrary: s)
  case Nil
  have "console_becomes t f s (console_of t f s) s"
    unfolding console_becomes_def
    by (rule exI [of _ "pmem s f"], rule exI [of _ "io_log s"])
      (use Nil in \<open>simp add: console_of_def with_console_def\<close>)
  then show ?case using Nil by simp
next
  case (Cons c cs)
  let ?s = "putc_at t base c s"
  have b: "console_becomes t f s (spec_putc c (console_of t f s)) ?s"
    by (rule putc_at_spec) (use Cons in auto)
  have p: "pages ?s = pages s" and i: "iflag ?s"
    using console_becomes_frame [OF b] by auto
  have ok: "cursor_ok (terminals ?s t)" by (rule putc_at_cursor_ok) (use Cons in auto)
  have "console_becomes t f ?s (fold spec_putc cs (console_of t f ?s)) (fold (putc_at t base) cs ?s)
      \<and> cursor_ok (terminals (fold (putc_at t base) cs ?s) t)"
    by (rule Cons.IH) (use Cons.prems p i ok in \<open>auto simp: low_frame_def\<close>)
  then show ?case
    using console_becomes_trans [OF b] console_becomes_console(1) [OF b] by simp
qed

end
