(* ===== verification/Terminal_Switch.thy ===== *)
theory Terminal_Switch
  imports Console
begin

text \<open>
  Switching the terminal on the screen (\<open>switch_to_terminal_1\<close> to \<open>switch_to_terminal_3\<close> of \<^verbatim>\<open>keyboard.c\<close>):
  the screen contents are saved to the page of the terminal that leaves and loaded from the page of the
  terminal that arrives, and the video mapping of the running process follows.

  \<open>term_screen t s\<close> is the screen terminal \<open>t\<close> has, wherever its contents are at the moment. The lemmas show
  that the terminals are virtual: switching changes no terminal's screen, and output only changes the
  screen of the terminal it is meant for.
\<close>

section \<open>Definitions\<close>

text \<open>
  \<open>memcpy\<close> of the kernel through its page tables: the routine of \<^verbatim>\<open>lib.c\<close> on the kernel's view of memory,
  with the destination range stored back. (The two ranges are never mapped to the same frame here.)
\<close>

definition kmemcpy :: "addr \<Rightarrow> addr \<Rightarrow> u32 \<Rightarrow> kstate \<Rightarrow> kstate" where
  "kmemcpy dest src n s =
     vstore_bytes dest (load_bytes (memcpy dest src n (view s)) dest (unat n)) s"

definition save_screen :: "kstate \<Rightarrow> kstate" where
  "save_screen s =
     kmemcpy (video_address (terminals s (current_terminal s))) VIDEO_ADDRESS_TO_PHYSICAL 4096 s"

definition load_screen :: "kstate \<Rightarrow> kstate" where
  "load_screen s =
     kmemcpy VIDEO_ADDRESS_TO_PHYSICAL (video_address (terminals s (current_terminal s))) 4096 s"

definition switch_to_terminal_1 :: "kstate \<Rightarrow> kstate" where
  "switch_to_terminal_1 s =
     (if current_terminal s = Terminal_1 then s
      else let s = cli s;
               s = save_screen s;
               s = s\<lparr>current_terminal := Terminal_1\<rparr>;
               s = paging_video_memory s;
               s = load_screen s;
               s = show_cursor s
           in sti s)"

definition switch_to_terminal_2 :: "kstate \<Rightarrow> kstate" where
  "switch_to_terminal_2 s =
     (if current_terminal s = Terminal_2 then s
      else let s = cli s;
               s = save_screen s;
               s = s\<lparr>current_terminal := Terminal_2\<rparr>;
               s = load_screen s;
               s = paging_video_memory s;
               s = show_cursor s
           in sti s)"

definition switch_to_terminal_3 :: "kstate \<Rightarrow> kstate" where
  "switch_to_terminal_3 s =
     (if current_terminal s = Terminal_3 then s
      else let s = cli s;
               s = save_screen s;
               s = s\<lparr>current_terminal := Terminal_3\<rparr>;
               s = paging_video_memory s;
               s = load_screen s;
               s = show_cursor s
           in sti s)"

definition switch_to_terminal :: "term_ptr \<Rightarrow> kstate \<Rightarrow> kstate" where
  "switch_to_terminal t = (case t of Terminal_1 \<Rightarrow> switch_to_terminal_1
     | Terminal_2 \<Rightarrow> switch_to_terminal_2 | Terminal_3 \<Rightarrow> switch_to_terminal_3)"

section \<open>The invariant of the terminals\<close>

text \<open>The frame that holds a terminal's screen while another one is shown.\<close>

definition saved_frame :: "term_ptr \<Rightarrow> 20 word" where
  "saved_frame t = 0xB8 + of_nat (term_rank t)"

definition shown_frame :: "term_ptr \<Rightarrow> kstate \<Rightarrow> 20 word" where
  "shown_frame t s = (if t = current_terminal s then 0xB8 else saved_frame t)"

definition term_screen :: "term_ptr \<Rightarrow> kstate \<Rightarrow> 12 word \<Rightarrow> byte" where
  "term_screen t s = pmem s (shown_frame t s)"

text \<open>
  Identity, save page and cursor of each terminal, and the mapping of the running process' video page
  to where the screen of its terminal is.
\<close>

definition video_ok :: "kstate \<Rightarrow> bool" where
  "video_ok s \<longleftrightarrow> wf_pages (pages s)
     \<and> (\<forall>t. terminal_id (terminals s t) = int (term_rank t)
          \<and> video_address (terminals s t) = 0xB8000 + 0x1000 * of_nat (term_rank t)
          \<and> cursor_ok (terminals s t))
     \<and> low_frame VIDEO s = shown_frame (active_terminal s) s"

section \<open>Copying a page\<close>

lemma vstore_page:
  assumes "wf_pages (pages s)" and "video_page base" and "n < 4096"
  shows "vstore (base + of_nat n) b s = upd_frame (low_frame base s) (\<lambda>g. g(of_nat n := b)) s"
  using xlate_page [OF assms] by (simp add: vstore_def upd_frame_def)

lemma vstore_bytes_page:
  assumes "wf_pages (pages s)" and "video_page base" and "k + length bs \<le> 4096"
  shows "vstore_bytes (base + of_nat k) bs s = upd_frame (low_frame base s)
    (\<lambda>g off. if k \<le> unat off \<and> unat off < k + length bs then bs ! (unat off - k) else g off) s"
  using assms
proof (induction bs arbitrary: k s)
  case (Cons b bs)
  let ?f = "low_frame base s" and ?s = "vstore (base + of_nat k) b s"
  have st: "?s = upd_frame ?f (\<lambda>g. g(of_nat k := b)) s"
    by (rule vstore_page) (use Cons.prems in auto)
  have "vstore_bytes (base + of_nat k) (b # bs) s = vstore_bytes (base + of_nat (Suc k)) bs ?s"
    by (simp add: ac_simps)
  also have "\<dots> = upd_frame ?f (\<lambda>g off. if Suc k \<le> unat off \<and> unat off < Suc k + length bs
      then bs ! (unat off - Suc k) else g off) ?s"
    using Cons.IH [of ?s "Suc k"] Cons.prems st by simp
  also have "\<dots> = upd_frame ?f (\<lambda>g off. if k \<le> unat off \<and> unat off < k + length (b # bs)
      then (b # bs) ! (unat off - k) else g off) s"
  proof -
    have eq: "(off = of_nat k) = (unat off = k)" for off :: "12 word"
      using Cons.prems by (simp add: word_unat_eq_iff unat_of_nat)
    show ?thesis unfolding st upd_frame_upd_frame
      by (rule arg_cong [where f = "\<lambda>h. upd_frame ?f h s"]) (auto simp: fun_eq_iff eq nth_Cons')
  qed
  finally show ?case .
next
  case (Nil k s)
  have "(\<lambda>g off. if k \<le> unat off \<and> unat off < k + length ([] :: byte list) then [] ! (unat off - k) else g off)
      = (\<lambda>g. g :: 12 word \<Rightarrow> byte)"
    by (auto simp: fun_eq_iff)
  then show ?case by simp
qed

lemma load_page:
  assumes "wf_pages (pages s)" and "video_page base"
  shows "load_bytes (view s) base 4096 = map (\<lambda>i. pmem s (low_frame base s) (of_nat i)) [0..<4096]"
proof (rule nth_equalityI)
  fix i assume "i < length (load_bytes (view s) base 4096)"
  then have i: "i < 4096" by simp
  then show "load_bytes (view s) base 4096 ! i = map (\<lambda>i. pmem s (low_frame base s) (of_nat i)) [0..<4096] ! i"
    using xlate_page [OF assms i]
    by (simp add: nth_load_bytes view_def vload_def del: upt_rec_numeral)
qed simp

lemma kmemcpy_page:
  assumes "wf_pages (pages s)" and "video_page dest" and "video_page src" and "dest \<noteq> src"
  shows "kmemcpy dest src 4096 s = upd_frame (low_frame dest s) (\<lambda>_. pmem s (low_frame src s)) s"
proof -
  have "disjoint_ranges dest 4096 src 4096"
    using assms(2-4) by (auto simp: video_page_def disjoint_ranges_def)
  then have "apart dest src 4096" by (rule disjoint_ranges_apart) simp
  then have "memcpy dest src 4096 (view s) = store_bytes (view s) dest (load_bytes (view s) src 4096)"
    using memcpy_top_store [of dest src 4096 "view s"] by (simp add: memcpy_def)
  then have "load_bytes (memcpy dest src 4096 (view s)) dest 4096 = load_bytes (view s) src 4096"
    using load_store_bytes [of "load_bytes (view s) src 4096" "view s" dest] by simp
  then have k: "kmemcpy dest src 4096 s = vstore_bytes (dest + of_nat 0) (load_bytes (view s) src 4096) s"
    by (simp add: kmemcpy_def)
  have "unat off < 4096" for off :: "12 word"
    using unsigned_less [of off] by simp
  then have "(\<lambda>g off. if 0 \<le> unat off \<and> unat off < 0 + length (load_bytes (view s) src 4096)
        then load_bytes (view s) src 4096 ! (unat off - 0) else g off)
      = (\<lambda>_. pmem s (low_frame src s))"
    by (auto simp: fun_eq_iff load_page [OF assms(1,3)] simp del: upt_rec_numeral)
  then show ?thesis
    unfolding k by (subst vstore_bytes_page [OF assms(1,2)]) simp_all
qed

section \<open>Frames of the terminals\<close>

lemma saved_frames:
  "saved_frame Terminal_1 = 0xB9" "saved_frame Terminal_2 = 0xBA" "saved_frame Terminal_3 = 0xBB"
  by (simp_all add: saved_frame_def)

lemma saved_frame_inj [simp]: "saved_frame t = saved_frame u \<longleftrightarrow> t = u"
  by (cases t; cases u) (simp_all add: saved_frames)

lemma saved_frame_visible [simp]: "saved_frame t \<noteq> 0xB8" "0xB8 \<noteq> saved_frame t"
  by (cases t; simp add: saved_frames)+

lemma shown_frame_inj [simp]: "shown_frame t s = shown_frame u s \<longleftrightarrow> t = u"
  by (auto simp: shown_frame_def)

lemma shown_frame_video: "shown_frame t s \<in> video_frames"
  by (cases t) (auto simp: shown_frame_def saved_frames video_frames_def)

lemma low_frames:
  assumes "wf_pages (pages s)"
  shows "low_frame 0xB7000 s = 0xB8" and "low_frame (0xB8000 + 0x1000 * of_nat (term_rank t)) s = saved_frame t"
proof -
  have "page_index 0xB7000 = 0xB7" "page_index 0xB9000 = 0xB9" "page_index 0xBA000 = 0xBA"
    "page_index 0xBB000 = 0xBB"
    by (simp_all add: page_index_def)
  moreover have "pte_address (pg_tab_1 (pages s) 0xB7) = 0xB8" "pte_address (pg_tab_1 (pages s) 0xB9) = 0xB9"
    "pte_address (pg_tab_1 (pages s) 0xBA) = 0xBA" "pte_address (pg_tab_1 (pages s) 0xBB) = 0xBB"
    using assms unfolding wf_pages_def by blast+
  ultimately show "low_frame 0xB7000 s = 0xB8"
    and "low_frame (0xB8000 + 0x1000 * of_nat (term_rank t)) s = saved_frame t"
    by (cases t; simp add: low_frame_def saved_frames)+
qed

lemma save_page: "video_page (0xB8000 + 0x1000 * of_nat (term_rank t))"
  "video_page VIDEO_ADDRESS_TO_PHYSICAL" "0xB8000 + 0x1000 * of_nat (term_rank t) \<noteq> VIDEO_ADDRESS_TO_PHYSICAL"
  by (cases t; simp add: video_page_def VIDEO_ADDRESS_TO_PHYSICAL_def)+

section \<open>Switching\<close>

lemma pvm_frame [simp]:
  "pmem (paging_video_memory s) = pmem s" "terminals (paging_video_memory s) = terminals s"
  "active_terminal (paging_video_memory s) = active_terminal s"
  "current_terminal (paging_video_memory s) = current_terminal s"
  "pcbs (paging_video_memory s) = pcbs s" "active_pid (paging_video_memory s) = active_pid s"
  by (simp_all add: paging_video_memory_def Let_def)

text \<open>After \<open>paging_video_memory\<close> the running process' video page is where its terminal's screen is.\<close>

lemma pvm_frame_target:
  assumes "\<forall>t. terminal_id (terminals s t) = int (term_rank t)"
  shows "(if active_terminal s = current_terminal s then frame_of VIDEO_MEM
      else ucast (drop_bit 12 VIDEO_MEM + of_int (terminal_id (terminals s (active_terminal s))) :: u32))
    = shown_frame (active_terminal s) s"
proof -
  have "terminal_id (terminals s (active_terminal s)) = int (term_rank (active_terminal s))"
    using assms by blast
  then show ?thesis
    by (cases "active_terminal s") (auto simp: shown_frame_def saved_frames VIDEO_MEM_def frame_of_def)
qed

lemma pvm_video:
  assumes "wf_pages (pages s)" and "\<forall>t. terminal_id (terminals s t) = int (term_rank t)"
  shows "wf_pages (pages (paging_video_memory s))"
    and "low_frame VIDEO (paging_video_memory s) = shown_frame (active_terminal s) s"
proof -
  let ?f = "shown_frame (active_terminal s) s"
  have p: "\<exists>b. pages (paging_video_memory s) = set_video_frame ?f b (pages s)"
    using pvm_frame_target [OF assms(2)] by (auto simp: paging_video_memory_def Let_def)
  then show "wf_pages (pages (paging_video_memory s))"
    using wf_set_video_frame [OF assms(1) shown_frame_video] by auto
  have "page_index VIDEO = 0xB8" by (simp add: VIDEO_def page_index_def)
  then show "low_frame VIDEO (paging_video_memory s) = ?f"
    using p by (auto simp: low_frame_def set_video_frame_def)
qed

lemma save_screen_spec:
  assumes "wf_pages (pages s)"
    and "video_address (terminals s (current_terminal s)) = 0xB8000 + 0x1000 * of_nat (term_rank (current_terminal s))"
  shows "save_screen s = upd_frame (saved_frame (current_terminal s)) (\<lambda>_. pmem s 0xB8) s"
  using kmemcpy_page [OF assms(1) save_page(1,2,3)] low_frames [OF assms(1)] assms(2)
  by (simp add: save_screen_def VIDEO_ADDRESS_TO_PHYSICAL_def)

lemma load_screen_spec:
  assumes "wf_pages (pages s)"
    and "video_address (terminals s (current_terminal s)) = 0xB8000 + 0x1000 * of_nat (term_rank (current_terminal s))"
  shows "load_screen s = upd_frame 0xB8 (\<lambda>_. pmem s (saved_frame (current_terminal s))) s"
  using kmemcpy_page [OF assms(1) save_page(2,1) save_page(3) [symmetric]] low_frames [OF assms(1)] assms(2)
  by (simp add: load_screen_def VIDEO_ADDRESS_TO_PHYSICAL_def)

definition swapped :: "term_ptr \<Rightarrow> kstate \<Rightarrow> kstate" where
  "swapped t s = s\<lparr>current_terminal := t,
     pmem := (pmem s)(saved_frame (current_terminal s) := pmem s 0xB8, 0xB8 := pmem s (saved_frame t))\<rparr>"

lemma swapped_simps [simp]:
  "terminals (swapped t s) = terminals s" "active_terminal (swapped t s) = active_terminal s"
  "current_terminal (swapped t s) = t" "pages (swapped t s) = pages s"
  by (simp_all add: swapped_def)

lemma switch_to_terminal_spec:
  assumes ok: "video_ok s" and t: "t \<noteq> current_terminal s"
  shows "\<exists>l. switch_to_terminal t s = (paging_video_memory (swapped t s))\<lparr>io_log := l, iflag := True\<rparr>"
proof -
  let ?c = "current_terminal s"
  have wf: "wf_pages (pages s)" and id: "\<forall>t. terminal_id (terminals s t) = int (term_rank t)"
    and va: "\<And>t. video_address (terminals s t) = 0xB8000 + 0x1000 * of_nat (term_rank t)"
    using ok by (auto simp: video_ok_def)
  define s1 where "s1 = (upd_frame (saved_frame ?c) (\<lambda>_. pmem s 0xB8) (cli s))\<lparr>current_terminal := t\<rparr>"
  have s1: "(save_screen (cli s))\<lparr>current_terminal := t\<rparr> = s1"
    using save_screen_spec [of "cli s"] wf va by (simp add: s1_def cli_def)
  have s1_simps: "pages s1 = pages s" "terminals s1 = terminals s" "current_terminal s1 = t"
    by (simp_all add: s1_def upd_frame_def cli_def)
  have a: "load_screen (paging_video_memory s1) = paging_video_memory (swapped t s)\<lparr>iflag := False\<rparr>"
    using load_screen_spec [of "paging_video_memory s1"] pvm_video(1) [of s1] wf id va t s1_simps
    by (simp add: s1_def upd_frame_def cli_def swapped_def paging_video_memory_def Let_def pcb_of_def)
  have b: "paging_video_memory (load_screen s1) = paging_video_memory (swapped t s)\<lparr>iflag := False\<rparr>"
    using load_screen_spec [of s1] wf va t s1_simps
    by (simp add: s1_def upd_frame_def cli_def swapped_def paging_video_memory_def Let_def pcb_of_def)
  obtain l where "show_cursor (paging_video_memory (swapped t s)\<lparr>iflag := False\<rparr>)
      = paging_video_memory (swapped t s)\<lparr>iflag := False\<rparr>\<lparr>io_log := l, iflag := True\<rparr>"
    using show_cursor_effect by blast
  then have "switch_to_terminal t s = paging_video_memory (swapped t s)\<lparr>io_log := l, iflag := True\<rparr>"
    using t s1 a b
    by (cases t) (simp_all add: switch_to_terminal_def switch_to_terminal_1_def switch_to_terminal_2_def
        switch_to_terminal_3_def Let_def sti_def cli_def)
  then show ?thesis by blast
qed

lemma switch_same: "switch_to_terminal (current_terminal s) s = s"
  by (cases "current_terminal s") (simp_all add: switch_to_terminal_def switch_to_terminal_1_def
      switch_to_terminal_2_def switch_to_terminal_3_def)

lemma switch_screens:
  assumes "video_ok s"
  shows "term_screen u (switch_to_terminal t s) = term_screen u s"
    and "current_terminal (switch_to_terminal t s) = t" and "video_ok (switch_to_terminal t s)"
    and "active_terminal (switch_to_terminal t s) = active_terminal s"
    and "terminals (switch_to_terminal t s) = terminals s"
proof -
  have *: "term_screen u (switch_to_terminal t s) = term_screen u s
    \<and> current_terminal (switch_to_terminal t s) = t \<and> video_ok (switch_to_terminal t s)
    \<and> active_terminal (switch_to_terminal t s) = active_terminal s
    \<and> terminals (switch_to_terminal t s) = terminals s"
  proof (cases "t = current_terminal s")
    case True
    then show ?thesis using switch_same [of s] assms by simp
  next
    case False
    obtain l where sw: "switch_to_terminal t s = paging_video_memory (swapped t s)\<lparr>io_log := l, iflag := True\<rparr>"
      using switch_to_terminal_spec [OF assms False] by blast
    have wf: "wf_pages (pages (swapped t s))" "\<forall>t'. terminal_id (terminals (swapped t s) t') = int (term_rank t')"
      using assms by (auto simp: video_ok_def)
    have "term_screen u (switch_to_terminal t s) = term_screen u s"
      using False by (simp add: sw term_screen_def shown_frame_def swapped_def)
    moreover have "video_ok (switch_to_terminal t s)"
      using assms pvm_video [OF wf] by (simp add: video_ok_def sw low_frame_def shown_frame_def)
    ultimately show ?thesis by (simp add: sw)
  qed
  then show "term_screen u (switch_to_terminal t s) = term_screen u s"
    and "current_terminal (switch_to_terminal t s) = t" and "video_ok (switch_to_terminal t s)"
    and "active_terminal (switch_to_terminal t s) = active_terminal s"
    and "terminals (switch_to_terminal t s) = terminals s"
    by blast+
qed

section \<open>Output\<close>

lemma video_bases:
  assumes "video_ok s"
  shows "low_frame VIDEO s = shown_frame (active_terminal s) s"
    and "low_frame VIDEO_DIRECT s = shown_frame (current_terminal s) s"
    and "wf_pages (pages s)" and "cursor_ok (terminals s t)"
    and "video_base VIDEO" and "video_base VIDEO_DIRECT"
  using assms low_frames(1) [of s]
  by (auto simp: video_ok_def shown_frame_def video_base_def VIDEO_DIRECT_def)

lemma becomes_screens:
  assumes ok: "video_ok s" and b: "console_becomes t f s k s'" and f: "f = shown_frame t s"
    and cur: "cursor_ok (terminals s' t)"
  shows "video_ok s'" and "u \<noteq> t \<Longrightarrow> term_screen u s' = term_screen u s \<and> terminals s' u = terminals s u"
    and "frame_cells (term_screen t s') = cells k"
proof -
  note fr = console_becomes_frame [OF b]
  have sf: "shown_frame u s' = shown_frame u s" for u using fr(3) by (simp add: shown_frame_def)
  have "cursor_ok (terminals s' u)" for u
    using cur fr(8) [of u] video_bases(4) [OF ok] by (cases "u = t") auto
  moreover have "terminal_id (terminals s' u) = terminal_id (terminals s u)
      \<and> video_address (terminals s' u) = video_address (terminals s u)" for u
    using fr(8) [of u] fr(10) by (cases "u = t") auto
  ultimately show "video_ok s'"
    using ok fr(1,2) sf by (simp add: video_ok_def low_frame_def)
  show "term_screen u s' = term_screen u s \<and> terminals s' u = terminals s u" if "u \<noteq> t"
    using fr(8) [OF that] fr(9) [of "shown_frame u s"] that f by (simp add: term_screen_def sf)
  show "frame_cells (term_screen t s') = cells k"
    using console_becomes_console(1) [OF b] f by (auto simp: term_screen_def sf console_of_def)
qed

text \<open>
  An operation that writes to one terminal: it keeps the invariant and leaves the screen and the data of
  every other terminal alone.
\<close>

locale screen_writer =
  fixes op :: "'c \<Rightarrow> kstate \<Rightarrow> kstate" and target :: "kstate \<Rightarrow> term_ptr"
  assumes op_ok: "video_ok s \<Longrightarrow> video_ok (op c s)"
    and op_target: "video_ok s \<Longrightarrow> target (op c s) = target s"
    and op_other: "video_ok s \<Longrightarrow> u \<noteq> target s
      \<Longrightarrow> term_screen u (op c s) = term_screen u s \<and> terminals (op c s) u = terminals s u"
begin

lemma fold_op:
  assumes "video_ok s"
  shows "video_ok (fold op cs s) \<and> target (fold op cs s) = target s
    \<and> (\<forall>u. u \<noteq> target s \<longrightarrow> term_screen u (fold op cs s) = term_screen u s
        \<and> terminals (fold op cs s) u = terminals s u)"
  using assms
proof (induction cs arbitrary: s)
  case (Cons c cs)
  then show ?case using op_ok op_target op_other by simp
qed simp

end

lemma back_putc_at_cursor_ok:
  assumes "wf_pages (pages s)" and "video_base base" and "cursor_ok (terminals s t)"
  shows "cursor_ok (terminals (back_putc_at t base s) t)"
proof -
  let ?f = "low_frame base s"
  have "console_of t ?f (back_putc_at t base s) = spec_back (console_of t ?f s)"
    by (rule console_becomes_console(1) [OF back_putc_at_spec [OF assms refl]])
  then show ?thesis
    using spec_back_cursor [of "console_of t ?f s"] assms(3)
    unfolding cursor_ok_console [where f = ?f] Let_def by auto
qed

lemma clear_at_cursor_ok:
  assumes "wf_pages (pages s)" and "video_base base"
  shows "cursor_ok (terminals (clear_at t base s) t)"
  using console_becomes_console(1) [OF clear_at_spec [OF assms refl, of t]]
  by (auto simp: cursor_ok_def console_of_def)

interpretation putc_writer: screen_writer putc active_terminal
proof
  fix s c u assume ok: "video_ok s"
  note v = video_bases [OF ok]
  let ?t = "active_terminal s"
  have b: "console_becomes ?t (low_frame VIDEO s) s (spec_putc c (console_of ?t (low_frame VIDEO s) s)) (putc c s)"
    unfolding putc_def by (rule putc_at_spec [OF v(3,5,4) refl])
  have c: "cursor_ok (terminals (putc c s) ?t)"
    unfolding putc_def by (rule putc_at_cursor_ok [OF v(3,5,4)])
  show "video_ok (putc c s)" by (rule becomes_screens(1) [OF ok b v(1) c])
  show "active_terminal (putc c s) = ?t" by (rule console_becomes_frame(2) [OF b])
  show "u \<noteq> ?t \<Longrightarrow> term_screen u (putc c s) = term_screen u s \<and> terminals (putc c s) u = terminals s u"
    by (rule becomes_screens(2) [OF ok b v(1) c])
qed

interpretation echo_writer: screen_writer current_terminal_putc current_terminal
proof
  fix s c u assume ok: "video_ok s"
  note v = video_bases [OF ok]
  let ?t = "current_terminal s" and ?f = "low_frame VIDEO_DIRECT s"
  have b: "console_becomes ?t ?f s (spec_putc c (console_of ?t ?f s)) (current_terminal_putc c s)"
    unfolding current_terminal_putc_def by (rule putc_at_spec [OF v(3,6,4) refl])
  have c: "cursor_ok (terminals (current_terminal_putc c s) ?t)"
    unfolding current_terminal_putc_def by (rule putc_at_cursor_ok [OF v(3,6,4)])
  show "video_ok (current_terminal_putc c s)" by (rule becomes_screens(1) [OF ok b v(2) c])
  show "current_terminal (current_terminal_putc c s) = ?t" by (rule console_becomes_frame(3) [OF b])
  show "u \<noteq> ?t \<Longrightarrow> term_screen u (current_terminal_putc c s) = term_screen u s
      \<and> terminals (current_terminal_putc c s) u = terminals s u"
    by (rule becomes_screens(2) [OF ok b v(2) c])
qed

interpretation erase_writer: screen_writer "\<lambda>_ :: unit. current_terminal_back_putc" current_terminal
proof
  fix s u assume ok: "video_ok s"
  note v = video_bases [OF ok]
  let ?t = "current_terminal s" and ?f = "low_frame VIDEO_DIRECT s" and ?s = "current_terminal_back_putc s"
  have b: "console_becomes ?t ?f s (spec_back (console_of ?t ?f s)) ?s"
    unfolding current_terminal_back_putc_def by (rule back_putc_at_spec [OF v(3,6,4) refl])
  have c: "cursor_ok (terminals ?s ?t)"
    unfolding current_terminal_back_putc_def by (rule back_putc_at_cursor_ok [OF v(3,6,4)])
  show "video_ok ?s" by (rule becomes_screens(1) [OF ok b v(2) c])
  show "current_terminal ?s = ?t" by (rule console_becomes_frame(3) [OF b])
  show "u \<noteq> ?t \<Longrightarrow> term_screen u ?s = term_screen u s \<and> terminals ?s u = terminals s u"
    by (rule becomes_screens(2) [OF ok b v(2) c])
qed

interpretation wipe_writer: screen_writer "\<lambda>_ :: unit. current_terminal_clear" current_terminal
proof
  fix s u assume ok: "video_ok s"
  note v = video_bases [OF ok]
  let ?t = "current_terminal s" and ?f = "low_frame VIDEO_DIRECT s" and ?s = "current_terminal_clear s"
  have b: "console_becomes ?t ?f s \<lparr>cells = replicate 2000 (blank, ATTRIB), col = 0, row = 0\<rparr> ?s"
    unfolding current_terminal_clear_def by (rule clear_at_spec [OF v(3,6) refl])
  have c: "cursor_ok (terminals ?s ?t)"
    unfolding current_terminal_clear_def by (rule clear_at_cursor_ok [OF v(3,6)])
  show "video_ok ?s" by (rule becomes_screens(1) [OF ok b v(2) c])
  show "current_terminal ?s = ?t" by (rule console_becomes_frame(3) [OF b])
  show "u \<noteq> ?t \<Longrightarrow> term_screen u ?s = term_screen u s \<and> terminals ?s u = terminals s u"
    by (rule becomes_screens(2) [OF ok b v(2) c])
qed

text \<open>The console of the running process' terminal, with the contents where they are at the moment.\<close>

definition term_console :: "term_ptr \<Rightarrow> kstate \<Rightarrow> console" where
  "term_console t s = console_of t (shown_frame t s) s"

lemma putc_console:
  assumes "video_ok s"
  shows "term_console (active_terminal s) (putc c s) = spec_putc c (term_console (active_terminal s) s)"
    and "current_terminal (putc c s) = current_terminal s" and "active_terminal (putc c s) = active_terminal s"
proof -
  note v = video_bases [OF assms]
  let ?t = "active_terminal s"
  have b: "console_becomes ?t (shown_frame ?t s) s (spec_putc c (console_of ?t (shown_frame ?t s) s)) (putc c s)"
    unfolding putc_def by (rule putc_at_spec [OF v(3,5,4) v(1) [symmetric]])
  note fr = console_becomes_frame [OF b]
  show "current_terminal (putc c s) = current_terminal s" and "active_terminal (putc c s) = ?t"
    by (rule fr(3), rule fr(2))
  then show "term_console ?t (putc c s) = spec_putc c (term_console ?t s)"
    using console_becomes_console(1) [OF b] by (simp add: term_console_def shown_frame_def)
qed

lemma fold_putc_console:
  assumes "video_ok s"
  shows "term_console (active_terminal s) (fold putc cs s) = fold spec_putc cs (term_console (active_terminal s) s)
    \<and> current_terminal (fold putc cs s) = current_terminal s"
  using assms
proof (induction cs arbitrary: s)
  case (Cons c cs)
  then show ?case
    using putc_console [OF Cons.prems, of c] Cons.IH [OF putc_writer.op_ok [OF Cons.prems, of c]] by simp
qed simp

end
