(* ===== verification/Pic.thy ===== *)
theory Pic
  imports Kernel_State
begin

text \<open>
  The interrupt controllers (\<^verbatim>\<open>i8259.c\<close>) and the programming of the interval timer (\<open>pit_init\<close> of
  \<^verbatim>\<open>pit.c\<close>). The operations write to I/O ports and read the mask registers back. What a controller
  answers is not part of the sources: it is the argument \<open>inb_dev\<close> of the state, and the properties that
  need it assume \<open>pic_device\<close>, the documented behaviour of the 8259A: after the initialisation words the
  data port reads and writes the interrupt mask register.
\<close>

section \<open>Definitions\<close>

definition PORT_MASTER :: port where
  "PORT_MASTER = 0x21"

definition PORT_SLAVE :: port where
  "PORT_SLAVE = 0xA1"

definition MASTER_8259_PORT :: port where
  "MASTER_8259_PORT = 0x20"

definition SLAVE_8259_PORT :: port where
  "SLAVE_8259_PORT = 0xA0"

definition EOI :: byte where
  "EOI = 0x60"

lemmas pic_consts = PORT_MASTER_def PORT_SLAVE_def MASTER_8259_PORT_def SLAVE_8259_PORT_def EOI_def

text \<open>The port and the line of an interrupt number below 16.\<close>

definition irq_port :: "u32 \<Rightarrow> port" where
  "irq_port irq_num = (if irq_num < 8 then PORT_MASTER else PORT_SLAVE)"

definition irq_line :: "u32 \<Rightarrow> u32" where
  "irq_line irq_num = (if irq_num < 8 then irq_num else irq_num - 8)"

definition enable_irq :: "u32 \<Rightarrow> kstate \<Rightarrow> kstate" where
  "enable_irq irq_num s =
     (if 15 < irq_num then s
      else let port = irq_port irq_num; irq_num = irq_line irq_num;
               value = inb port s AND NOT (push_bit (unat irq_num) 1)
           in outb value port s)"

definition disable_irq :: "u32 \<Rightarrow> kstate \<Rightarrow> kstate" where
  "disable_irq irq_num s =
     (if 15 < irq_num then s
      else let port = irq_port irq_num; irq_num = irq_line irq_num;
               value = inb port s OR push_bit (unat irq_num) 1
           in outb value port s)"

definition i8259_init :: "kstate \<Rightarrow> kstate" where
  "i8259_init s =
     (let s = outb 0x11 MASTER_8259_PORT s;
          s = outb 0x11 SLAVE_8259_PORT s;
          s = outb 0x20 PORT_MASTER s;
          s = outb 0x28 PORT_SLAVE s;
          s = outb 0x04 PORT_MASTER s;
          s = outb 0x02 PORT_SLAVE s;
          s = outb 0x01 PORT_MASTER s;
          s = outb 0x01 PORT_SLAVE s;
          s = outb 0xff PORT_MASTER s;
          s = outb 0xff PORT_SLAVE s
      in enable_irq 2 s)"

text \<open>\<open>send_eoi\<close> calls itself once, for the line of the slave on the master.\<close>

definition send_eoi_master :: "u32 \<Rightarrow> kstate \<Rightarrow> kstate" where
  "send_eoi_master irq_num s = outb (EOI OR ucast irq_num) MASTER_8259_PORT s"

definition send_eoi :: "u32 \<Rightarrow> kstate \<Rightarrow> kstate" where
  "send_eoi irq_num s =
     (if 15 < irq_num then s
      else if 8 \<le> irq_num then
        send_eoi_master 2 (outb (EOI OR ucast (irq_num - 8)) SLAVE_8259_PORT s)
      else send_eoi_master irq_num s)"

definition PIT_FREQ :: u32 where
  "PIT_FREQ = 1193182 div 100"

definition pit_init :: "kstate \<Rightarrow> kstate" where
  "pit_init s =
     (let s = outb 0x36 0x43 s;
          s = outb (ucast (PIT_FREQ AND 0xFF)) 0x40 s;
          s = outb (ucast (drop_bit 8 PIT_FREQ)) 0x40 s
      in enable_irq 0 s)"

section \<open>The documented controller\<close>

text \<open>
  The state of one controller after a log of port writes: how many initialisation words it still
  expects on its data port, and its mask register. A command with bit 4 set starts the
  initialisation, which clears the mask register and takes three more words.
\<close>

definition pic_step :: "port \<Rightarrow> port \<Rightarrow> port \<times> byte \<Rightarrow> nat \<times> byte \<Rightarrow> nat \<times> byte" where
  "pic_step cmd dat w st =
     (if fst w = cmd \<and> bit (snd w) 4 then (3, 0)
      else if fst w = dat then (if 0 < fst st then (fst st - 1, snd st) else (0, snd w))
      else st)"

definition pic_state :: "port \<Rightarrow> port \<Rightarrow> (port \<times> byte) list \<Rightarrow> nat \<times> byte" where
  "pic_state cmd dat l = fold (pic_step cmd dat) l (0, 0)"

definition pic_device :: "((port \<times> byte) list \<Rightarrow> port \<Rightarrow> byte) \<Rightarrow> bool" where
  "pic_device dev \<longleftrightarrow> (\<forall>l. dev l PORT_MASTER = snd (pic_state MASTER_8259_PORT PORT_MASTER l)
     \<and> dev l PORT_SLAVE = snd (pic_state SLAVE_8259_PORT PORT_SLAVE l))"

text \<open>The mask bit the controllers hold for an interrupt number, and that both are initialised.\<close>

definition irq_state :: "u32 \<Rightarrow> kstate \<Rightarrow> nat \<times> byte" where
  "irq_state n s = (if n < 8 then pic_state MASTER_8259_PORT PORT_MASTER (io_log s)
     else pic_state SLAVE_8259_PORT PORT_SLAVE (io_log s))"

definition irq_masked :: "u32 \<Rightarrow> kstate \<Rightarrow> bool" where
  "irq_masked n s \<longleftrightarrow> bit (snd (irq_state n s)) (unat (irq_line n))"

definition pic_ready :: "kstate \<Rightarrow> bool" where
  "pic_ready s \<longleftrightarrow> fst (pic_state MASTER_8259_PORT PORT_MASTER (io_log s)) = 0
     \<and> fst (pic_state SLAVE_8259_PORT PORT_SLAVE (io_log s)) = 0"

section \<open>Lemmas\<close>

lemma outb_frame [simp]:
  "io_log (outb v p s) = io_log s @ [(p, v)]" "inb_dev (outb v p s) = inb_dev s"
  "terminals (outb v p s) = terminals s" "pages (outb v p s) = pages s" "pmem (outb v p s) = pmem s"
  "iflag (outb v p s) = iflag s"
  by (simp_all add: outb_def)

lemma pic_state_snoc: "pic_state c d (l @ [w]) = pic_step c d w (pic_state c d l)"
  by (simp add: pic_state_def)

lemma inb_device:
  assumes "pic_device (inb_dev s)"
  shows "inb (irq_port n) s = snd (irq_state n s)"
  using assms by (simp add: inb_def pic_device_def irq_port_def irq_state_def)

text \<open>Writing the data port of the controller of \<open>n\<close> sets its mask register and no other.\<close>

lemma irq_state_outb:
  assumes "pic_ready s"
  shows "irq_state m (outb v (irq_port n) s)
    = (if (m < 8) = (n < 8) then (0, v) else irq_state m s)" and "pic_ready (outb v (irq_port n) s)"
  using assms
  by (auto simp: irq_state_def irq_port_def pic_state_snoc pic_step_def pic_consts pic_ready_def)

lemma line_bit:
  assumes "n \<le> 15" and "m \<le> 15" and "(m < 8) = (n < 8)"
  shows "bit (push_bit (unat (irq_line n)) 1 :: byte) (unat (irq_line m)) \<longleftrightarrow> m = n"
    and "unat (irq_line m) < 8"
proof -
  have l: "unat (irq_line k) < 8" if "k \<le> 15" for k
  proof (cases "k < 8")
    case False
    then have "unat (k - 8) = unat k - 8" by (simp add: unat_sub not_less)
    moreover have "unat k \<le> 15" using that by (simp add: word_le_nat_alt)
    ultimately show ?thesis using False by (simp add: irq_line_def)
  qed (simp add: irq_line_def word_less_nat_alt)
  show "unat (irq_line m) < 8" by (rule l [OF assms(2)])
  have "irq_line m = irq_line n \<longleftrightarrow> m = n" using assms(3) by (auto simp: irq_line_def)
  then have "unat (irq_line m) = unat (irq_line n) \<longleftrightarrow> m = n" by (simp add: word_unat_eq_iff)
  then show "bit (push_bit (unat (irq_line n)) 1 :: byte) (unat (irq_line m)) \<longleftrightarrow> m = n"
    using l [OF assms(1)] l [OF assms(2)] by (auto simp: bit_simps)
qed

lemma enable_irq_masked:
  assumes "pic_device (inb_dev s)" and "pic_ready s" and "n \<le> 15" and "m \<le> 15"
  shows "irq_masked m (enable_irq n s) \<longleftrightarrow> irq_masked m s \<and> m \<noteq> n"
    and "pic_ready (enable_irq n s)" and "inb_dev (enable_irq n s) = inb_dev s"
proof -
  let ?v = "snd (irq_state n s) AND NOT (push_bit (unat (irq_line n)) 1)"
  have e: "enable_irq n s = outb ?v (irq_port n) s"
    using assms(3) inb_device [OF assms(1)] by (simp add: enable_irq_def Let_def)
  show "pic_ready (enable_irq n s)" unfolding e by (rule irq_state_outb(2) [OF assms(2)])
  show "inb_dev (enable_irq n s) = inb_dev s" unfolding e by simp
  show "irq_masked m (enable_irq n s) \<longleftrightarrow> irq_masked m s \<and> m \<noteq> n"
  proof (cases "(m < 8) = (n < 8)")
    case True
    then have "irq_state m s = irq_state n s" by (simp add: irq_state_def)
    then show ?thesis
      using True line_bit [OF assms(3,4) True]
      by (simp add: irq_masked_def e irq_state_outb [OF assms(2)] bit_and_iff bit_not_iff)
  next
    case False
    then show ?thesis by (auto simp: irq_masked_def e irq_state_outb [OF assms(2)])
  qed
qed

lemma disable_irq_masked:
  assumes "pic_device (inb_dev s)" and "pic_ready s" and "n \<le> 15" and "m \<le> 15"
  shows "irq_masked m (disable_irq n s) \<longleftrightarrow> irq_masked m s \<or> m = n"
    and "pic_ready (disable_irq n s)" and "inb_dev (disable_irq n s) = inb_dev s"
proof -
  let ?v = "snd (irq_state n s) OR push_bit (unat (irq_line n)) 1"
  have e: "disable_irq n s = outb ?v (irq_port n) s"
    using assms(3) inb_device [OF assms(1)] by (simp add: disable_irq_def Let_def)
  show "pic_ready (disable_irq n s)" unfolding e by (rule irq_state_outb(2) [OF assms(2)])
  show "inb_dev (disable_irq n s) = inb_dev s" unfolding e by simp
  show "irq_masked m (disable_irq n s) \<longleftrightarrow> irq_masked m s \<or> m = n"
  proof (cases "(m < 8) = (n < 8)")
    case True
    then have "irq_state m s = irq_state n s" by (simp add: irq_state_def)
    then show ?thesis
      using True line_bit [OF assms(3,4) True]
      by (simp add: irq_masked_def e irq_state_outb [OF assms(2)] bit_or_iff)
  next
    case False
    then show ?thesis by (auto simp: irq_masked_def e irq_state_outb [OF assms(2)])
  qed
qed

lemma i8259_init_masked:
  assumes "pic_device (inb_dev s)" and "m \<le> 15"
  shows "irq_masked m (i8259_init s) \<longleftrightarrow> m \<noteq> 2"
    and "pic_ready (i8259_init s)" and "inb_dev (i8259_init s) = inb_dev s"
proof -
  define s1 where "s1 = outb 0xff PORT_SLAVE (outb 0xff PORT_MASTER (outb 0x01 PORT_SLAVE
    (outb 0x01 PORT_MASTER (outb 0x02 PORT_SLAVE (outb 0x04 PORT_MASTER (outb 0x28 PORT_SLAVE
    (outb 0x20 PORT_MASTER (outb 0x11 SLAVE_8259_PORT (outb 0x11 MASTER_8259_PORT s)))))))))"
  have init: "i8259_init s = enable_irq 2 s1" by (simp add: i8259_init_def s1_def Let_def)
  have log: "io_log s1 = io_log s @ [(MASTER_8259_PORT, 0x11), (SLAVE_8259_PORT, 0x11), (PORT_MASTER, 0x20),
      (PORT_SLAVE, 0x28), (PORT_MASTER, 0x04), (PORT_SLAVE, 0x02), (PORT_MASTER, 0x01),
      (PORT_SLAVE, 0x01), (PORT_MASTER, 0xff), (PORT_SLAVE, 0xff)]" and dev: "inb_dev s1 = inb_dev s"
    by (simp_all add: s1_def)
  have st: "pic_state MASTER_8259_PORT PORT_MASTER (io_log s1) = (0, 0xff)"
    "pic_state SLAVE_8259_PORT PORT_SLAVE (io_log s1) = (0, 0xff)"
    unfolding log pic_state_def by (simp_all add: pic_step_def pic_consts)
  then have ready: "pic_ready s1" by (simp add: pic_ready_def)
  have "bit (0xff :: byte) k" if "k < 8" for k
  proof -
    have "list_all (bit (0xff :: byte)) [0..<8]" by code_simp
    then show ?thesis using that by (simp add: list_all_iff)
  qed
  then have "irq_masked m s1"
    using st line_bit(2) [OF assms(2) assms(2) refl] by (simp add: irq_masked_def irq_state_def)
  then show "irq_masked m (i8259_init s) \<longleftrightarrow> m \<noteq> 2" and "pic_ready (i8259_init s)"
    and "inb_dev (i8259_init s) = inb_dev s"
    using enable_irq_masked [of s1 2 m] assms dev ready by (simp_all add: init)
qed

text \<open>Masking and unmasking requests, in the order they are made.\<close>

definition irq_request :: "bool \<times> u32 \<Rightarrow> kstate \<Rightarrow> kstate" where
  "irq_request r s = (if fst r then enable_irq (snd r) s else disable_irq (snd r) s)"

lemma irq_requests_masked:
  assumes "pic_device (inb_dev s)" and "pic_ready s" and "\<forall>r\<in>set rs. snd r \<le> 15" and "m \<le> 15"
  shows "irq_masked m (fold irq_request rs s)
    = fold (\<lambda>r b. if snd r = m then \<not> fst r else b) rs (irq_masked m s)"
  using assms
proof (induction rs arbitrary: s)
  case (Cons r rs)
  have step: "irq_masked m (irq_request r s) = (if snd r = m then \<not> fst r else irq_masked m s)"
    "pic_ready (irq_request r s)" "inb_dev (irq_request r s) = inb_dev s"
    using enable_irq_masked [OF Cons.prems(1,2), of "snd r" m]
      disable_irq_masked [OF Cons.prems(1,2), of "snd r" m] Cons.prems
    by (auto simp: irq_request_def)
  then have "irq_masked m (fold irq_request rs (irq_request r s))
      = fold (\<lambda>r b. if snd r = m then \<not> fst r else b) rs (irq_masked m (irq_request r s))"
    using Cons by (intro Cons.IH) simp_all
  then show ?case using step(1) by simp
qed simp

section \<open>Properties\<close>

text \<open>C34: After \<open>i8259_init\<close>, whatever sequence of \<open>enable_irq\<close> and \<open>disable_irq\<close> calls follows, each of the sixteen interrupt lines is masked exactly when the last call for it disabled it, or when there was none and it is not the line of the slave controller: a call never disturbs another line, and the controllers' initialisation is complete.\<close>

theorem irq_masks_follow_requests:
  assumes "pic_device (inb_dev s)" and "\<forall>r\<in>set rs. snd r \<le> 15" and "m \<le> 15"
  shows "irq_masked m (fold irq_request rs (i8259_init s))
    = fold (\<lambda>r b. if snd r = m then \<not> fst r else b) rs (m \<noteq> 2)"
  using irq_requests_masked [of "i8259_init s" rs m] i8259_init_masked [OF assms(1,3)] assms by simp

definition pic_sample_device :: "(port \<times> byte) list \<Rightarrow> port \<Rightarrow> byte" where
  "pic_sample_device l p =
     (if p = PORT_MASTER then snd (pic_state MASTER_8259_PORT PORT_MASTER l)
      else if p = PORT_SLAVE then snd (pic_state SLAVE_8259_PORT PORT_SLAVE l) else 0)"

lemma pic_sample_device: "pic_device pic_sample_device"
  by (simp add: pic_device_def pic_sample_device_def pic_consts)

theorem irq_masks_follow_requests_witness:
  "\<not> irq_masked 8 (fold irq_request [(True, 8), (True, 1)]
      (i8259_init (sample_state\<lparr>inb_dev := pic_sample_device\<rparr>)))"
  using irq_masks_follow_requests [of "sample_state\<lparr>inb_dev := pic_sample_device\<rparr>" "[(True, 8), (True, 1)]" 8]
  by (simp add: pic_sample_device)

text \<open>\<open>send_eoi\<close> acknowledges an interrupt of the master with one specific end-of-interrupt command for its line, and an interrupt of the slave with one command to the slave followed by one for line 2 to the master; other numbers are ignored. Nothing else changes.\<close>

lemma send_eoi_commands:
  "send_eoi n s = s\<lparr>io_log := io_log s @
     (if 15 < n then []
      else if n < 8 then [(MASTER_8259_PORT, 0x60 OR ucast n)]
      else [(SLAVE_8259_PORT, 0x60 OR ucast (n - 8)), (MASTER_8259_PORT, 0x62)])\<rparr>"
  by (simp add: send_eoi_def send_eoi_master_def outb_def EOI_def not_le)

end
