(* ===== verification/Keyboard.thy ===== *)
theory Keyboard
  imports Terminal_Switch Pic
begin

text \<open>
  The keyboard driver (\<^verbatim>\<open>keyboard.c\<close>): initialisation of the terminals and the interrupt handler with its
  modifier state, line buffer and echo. The scan code is read from port 0x60; \<open>keyboard_input\<close> is the
  handler for a given scan code.
\<close>

section \<open>Definitions\<close>

definition KEYBOARD_BUFFER_SIZE :: int where
  "KEYBOARD_BUFFER_SIZE = 128"

text \<open>The two rows of 58 characters: without and with shift (or caps lock).\<close>

definition chars :: "string \<Rightarrow> byte list" where
  "chars cs = map (\<lambda>c. of_nat (of_char c)) cs"

definition scancode_plain :: "byte list" where
  "scancode_plain = [0, 0] @ chars ''1234567890-='' @ [0, 0] @ chars ''qwertyuiop[]'' @ [10, 0]
     @ chars ''asdfghjkl;'' @ [39, 96, 0, 92] @ chars ''zxcvbnm,./'' @ [0, 0, 0, 32]"

definition scancode_shift :: "byte list" where
  "scancode_shift = [0, 0] @ chars ''!@#$%^&*()_+'' @ [0, 0] @ chars ''QWERTYUIOP{}'' @ [10, 0]
     @ chars ''ASDFGHJKL:'' @ [34, 126, 0, 124] @ chars ''ZXCVBNM<>?'' @ [0, 0, 0, 32]"

definition scancode :: "u32 \<Rightarrow> byte \<Rightarrow> byte" where
  "scancode mode input = (if mode = 0 then scancode_plain else scancode_shift) ! unat input"

definition init_terminal :: "term_ptr \<Rightarrow> kstate \<Rightarrow> kstate" where
  "init_terminal t s = upd_terminal t (\<lambda>T. T\<lparr>terminal_id := int (term_rank t), screen_x := 0, screen_y := 0,
     keyboard_buffer_size := 0, keyboard_buffer_enable := 0, overflow := 0,
     video_address := VIDEO_MEM + 4096 * of_nat (term_rank t), current_process_id := 0,
     virtual_rate := 2\<rparr>) s"

definition keyboard_init :: "kstate \<Rightarrow> kstate" where
  "keyboard_init s =
     (let s = init_terminal Terminal_1 s;
          s = init_terminal Terminal_2 s;
          s = init_terminal Terminal_3 s
      in enable_irq 1 s)"

text \<open>
  \<open>key_buf[i] = key\<close>. The array has 128 elements and the code checks no bound: the byte after it is the
  least significant byte of \<open>keyboard_buffer_size\<close>, the next field of the structure. Larger indices never
  occur (the size stays at most 128, as shown below).
\<close>

definition store_key :: "int \<Rightarrow> byte \<Rightarrow> terminal_t \<Rightarrow> terminal_t" where
  "store_key i key t =
     (if 0 \<le> i \<and> i < KEYBOARD_BUFFER_SIZE then t\<lparr>key_buf := (key_buf t)[nat i := key]\<rparr>
      else if i = KEYBOARD_BUFFER_SIZE
      then t\<lparr>keyboard_buffer_size := keyboard_buffer_size t - keyboard_buffer_size t mod 256 + uint key\<rparr>
      else t)"

text \<open>The part of the handler that runs for a character key, after the echo.\<close>

definition buffer_key :: "byte \<Rightarrow> terminal_t \<Rightarrow> terminal_t" where
  "buffer_key key t =
     (if KEYBOARD_BUFFER_SIZE \<le> keyboard_buffer_size t \<and> keyboard_buffer_enable t \<noteq> 0 \<and> key = newline then
        (store_key (KEYBOARD_BUFFER_SIZE - 1) newline t)\<lparr>keyboard_buffer_enable := 0, overflow := overflow t + 1\<rparr>
      else if key = newline \<and> keyboard_buffer_enable t \<noteq> 0 then
        let t = store_key (keyboard_buffer_size t) newline t
        in t\<lparr>keyboard_buffer_size := keyboard_buffer_size t + 1, keyboard_buffer_enable := 0\<rparr>
      else if keyboard_buffer_enable t \<noteq> 0 then
        let t = store_key (keyboard_buffer_size t) key t
        in t\<lparr>keyboard_buffer_size := keyboard_buffer_size t + 1\<rparr>
      else t)"

definition character_key :: "byte \<Rightarrow> kstate \<Rightarrow> kstate" where
  "character_key key s =
     (let s = current_terminal_putc key s;
          t = current_terminal s
      in if (key = 108 \<or> key = 76) \<and> ctrl_pressed s \<noteq> 0 then
           upd_terminal t (\<lambda>t. t\<lparr>keyboard_buffer_size := 0\<rparr>) (current_terminal_clear s)
         else upd_terminal t (buffer_key key) s)"

definition backspace_key :: "kstate \<Rightarrow> kstate" where
  "backspace_key s =
     (let t = current_terminal s
      in if 0 < overflow (terminals s t) then upd_terminal t (\<lambda>t. t\<lparr>overflow := overflow t - 1\<rparr>) s
         else if 0 < keyboard_buffer_size (terminals s t) then
           current_terminal_back_putc
             (upd_terminal t (\<lambda>t. t\<lparr>keyboard_buffer_size := keyboard_buffer_size t - 1\<rparr>) s)
         else s)"

definition keyboard_input :: "byte \<Rightarrow> kstate \<Rightarrow> kstate" where
  "keyboard_input input s =
     (if input = 0x38 then s\<lparr>alt_pressed := 1\<rparr>
      else if input = 0xB8 then s\<lparr>alt_pressed := 0\<rparr>
      else if input = 0x1D then s\<lparr>ctrl_pressed := 1\<rparr>
      else if input = 0x9D then s\<lparr>ctrl_pressed := 0\<rparr>
      else if input = 0x2A then s\<lparr>shift_pressed := 1\<rparr>
      else if input = 0xAA then s\<lparr>shift_pressed := 0\<rparr>
      else if input = 0x36 then s\<lparr>shift_pressed := 1\<rparr>
      else if input = 0xB6 then s\<lparr>shift_pressed := 0\<rparr>
      else if input = 0x3A then s\<lparr>caps_lock := caps_lock s OR 1\<rparr>
      else if input = 0x0E then backspace_key s
      else if input < 58 then character_key (scancode (shift_pressed s OR caps_lock s) input) s
      else if input = 0x3B \<and> alt_pressed s \<noteq> 0 then switch_to_terminal_1 s
      else if input = 0x3C \<and> alt_pressed s \<noteq> 0 then switch_to_terminal_2 s
      else if input = 0x3D \<and> alt_pressed s \<noteq> 0 then switch_to_terminal_3 s
      else s)"

definition keyboard_handler :: "kstate \<Rightarrow> kstate" where
  "keyboard_handler s = send_eoi 1 (keyboard_input (inb 0x60 s) s)"

section \<open>The invariant of the line buffer\<close>

definition line_ok :: "terminal_t \<Rightarrow> bool" where
  "line_ok t \<longleftrightarrow> length (key_buf t) = 128 \<and> 0 \<le> keyboard_buffer_size t \<and> keyboard_buffer_size t \<le> 128
     \<and> 0 \<le> overflow t"

definition keyboard_ok :: "kstate \<Rightarrow> bool" where
  "keyboard_ok s \<longleftrightarrow> video_ok s \<and> (\<forall>t. line_ok (terminals s t))
     \<and> (shift_pressed s = 0 \<or> shift_pressed s = 1) \<and> (caps_lock s = 0 \<or> caps_lock s = 1)"

text \<open>Every key is 7-bit: the overflowing store can only lower the size.\<close>

lemma scancode_ascii:
  assumes "input < 58"
  shows "uint (scancode mode input) < 127"
proof -
  have "list_all (\<lambda>b. uint b < 127) scancode_plain \<and> list_all (\<lambda>b. uint b < 127) scancode_shift
      \<and> length scancode_plain = 58 \<and> length scancode_shift = 58"
    by code_simp
  moreover have "unat input < 58" using assms by (simp add: word_less_nat_alt)
  ultimately show ?thesis by (simp add: scancode_def list_all_length)
qed

lemma buffer_key_line_ok:
  assumes "line_ok t" and "uint key < 127"
  shows "line_ok (buffer_key key t)"
proof -
  have "keyboard_buffer_size t mod 256 = keyboard_buffer_size t"
    using assms(1) by (simp add: line_ok_def)
  then show ?thesis
    using assms by (auto simp: line_ok_def buffer_key_def store_key_def KEYBOARD_BUFFER_SIZE_def Let_def)
qed

section \<open>Preservation\<close>

lemma term_screen_upd_terminal [simp]: "term_screen u (upd_terminal t h s) = term_screen u s"
  by (simp add: term_screen_def shown_frame_def)

lemma video_ok_upd_terminal:
  assumes "video_ok s" and "terminal_id (h (terminals s t)) = terminal_id (terminals s t)"
    and "video_address (h (terminals s t)) = video_address (terminals s t)"
    and "screen_x (h (terminals s t)) = screen_x (terminals s t)"
    and "screen_y (h (terminals s t)) = screen_y (terminals s t)"
  shows "video_ok (upd_terminal t h s)"
  using assms by (simp add: video_ok_def cursor_ok_def shown_frame_def)

lemma buffer_key_frame [simp]:
  "terminal_id (buffer_key key t) = terminal_id t" "video_address (buffer_key key t) = video_address t"
  "screen_x (buffer_key key t) = screen_x t" "screen_y (buffer_key key t) = screen_y t"
  by (simp_all add: buffer_key_def store_key_def Let_def)

text \<open>The data of a terminal apart from its cursor, which is all the console operations change.\<close>

definition same_line :: "terminal_t \<Rightarrow> terminal_t \<Rightarrow> bool" where
  "same_line t t' \<longleftrightarrow> (\<exists>x y. t' = t\<lparr>screen_x := x, screen_y := y\<rparr>)"

lemma same_line_fields:
  assumes "same_line t t'"
  shows "key_buf t' = key_buf t" and "keyboard_buffer_size t' = keyboard_buffer_size t"
    and "keyboard_buffer_enable t' = keyboard_buffer_enable t" and "overflow t' = overflow t"
    and "line_ok t' = line_ok t"
  using assms by (auto simp: same_line_def line_ok_def)

lemma current_becomes:
  assumes "video_ok s"
  shows "\<exists>k. console_becomes (current_terminal s) (low_frame VIDEO_DIRECT s) s k (current_terminal_putc c s)"
    and "\<exists>k. console_becomes (current_terminal s) (low_frame VIDEO_DIRECT s) s k (current_terminal_back_putc s)"
    and "\<exists>k. console_becomes (current_terminal s) (low_frame VIDEO_DIRECT s) s k (current_terminal_clear s)"
proof -
  note v = video_bases [OF assms]
  show "\<exists>k. console_becomes (current_terminal s) (low_frame VIDEO_DIRECT s) s k (current_terminal_putc c s)"
    unfolding current_terminal_putc_def using putc_at_spec [OF v(3,6,4) refl] by blast
  show "\<exists>k. console_becomes (current_terminal s) (low_frame VIDEO_DIRECT s) s k (current_terminal_back_putc s)"
    unfolding current_terminal_back_putc_def using back_putc_at_spec [OF v(3,6,4) refl] by blast
  show "\<exists>k. console_becomes (current_terminal s) (low_frame VIDEO_DIRECT s) s k (current_terminal_clear s)"
    unfolding current_terminal_clear_def using clear_at_spec [OF v(3,6) refl] by blast
qed

lemma current_op_frame:
  assumes "console_becomes (current_terminal s) f s k s'"
  shows "current_terminal s' = current_terminal s" and "same_line (terminals s u) (terminals s' u)"
    and "shift_pressed s' = shift_pressed s" and "caps_lock s' = caps_lock s"
    and "ctrl_pressed s' = ctrl_pressed s" and "alt_pressed s' = alt_pressed s"
    and "active_terminal s' = active_terminal s"
proof -
  note fr = console_becomes_frame [OF assms]
  show "same_line (terminals s u) (terminals s' u)"
  proof (cases "u = current_terminal s")
    case True
    then show ?thesis using fr(10) by (auto simp: same_line_def)
  next
    case False
    show ?thesis unfolding same_line_def fr(8) [OF False]
      by (rule exI [of _ "screen_x (terminals s u)"], rule exI [of _ "screen_y (terminals s u)"]) simp
  qed
qed (use console_becomes_frame [OF assms] in auto)

text \<open>What a key press on the terminal on the screen keeps: the invariant, and every other terminal.\<close>

definition key_effect :: "kstate \<Rightarrow> kstate \<Rightarrow> bool" where
  "key_effect s s' \<longleftrightarrow> keyboard_ok s' \<and> active_terminal s' = active_terminal s
     \<and> (\<forall>u. u \<noteq> current_terminal s \<longrightarrow> term_screen u s' = term_screen u s \<and> terminals s' u = terminals s u)"

lemma line_effect:
  assumes ok: "keyboard_ok s" and b: "console_becomes (current_terminal s) f s k s'"
    and v: "video_ok s'"
    and other: "\<And>u. u \<noteq> current_terminal s \<Longrightarrow> term_screen u s' = term_screen u s \<and> terminals s' u = terminals s u"
    and h: "\<And>T. line_ok T \<Longrightarrow> line_ok (h T)"
      "\<And>T. terminal_id (h T) = terminal_id T \<and> video_address (h T) = video_address T
         \<and> screen_x (h T) = screen_x T \<and> screen_y (h T) = screen_y T"
  shows "key_effect s (upd_terminal (current_terminal s) h s')"
proof -
  note fr = current_op_frame [OF b]
  have "line_ok (terminals s' u)" for u
    using same_line_fields(5) [OF fr(2)] ok by (simp add: keyboard_ok_def)
  moreover have "video_ok (upd_terminal (current_terminal s) h s')"
    by (rule video_ok_upd_terminal [OF v]) (simp_all add: h(2))
  ultimately show ?thesis
    using fr other h(1) ok by (auto simp: key_effect_def keyboard_ok_def)
qed

lemma character_key_effect:
  assumes ok: "keyboard_ok s" and key: "uint key < 127"
  shows "key_effect s (character_key key s)"
proof -
  have v: "video_ok s" using ok by (simp add: keyboard_ok_def)
  let ?c = "current_terminal s" and ?s = "current_terminal_putc key s"
  obtain k where b: "console_becomes ?c (low_frame VIDEO_DIRECT s) s k ?s"
    using current_becomes(1) [OF v] by blast
  note v1 = echo_writer.op_ok [OF v, of key] and o1 = echo_writer.op_other [OF v, of _ key]
  note fr = current_op_frame [OF b]
  have plain: "key_effect s (upd_terminal ?c (buffer_key key) ?s)"
    by (rule line_effect [OF ok b v1 o1]) (use buffer_key_line_ok key in auto)
  have clear: "key_effect s (upd_terminal ?c (\<lambda>t. t\<lparr>keyboard_buffer_size := 0\<rparr>) (current_terminal_clear ?s))"
  proof -
    obtain k' where b': "console_becomes ?c (low_frame VIDEO_DIRECT ?s) ?s k' (current_terminal_clear ?s)"
      using current_becomes(3) [OF v1] fr(1) by auto
    have lf: "low_frame VIDEO_DIRECT ?s = low_frame VIDEO_DIRECT s"
      using console_becomes_frame(1) [OF b] by (simp add: low_frame_def)
    have b2: "console_becomes ?c (low_frame VIDEO_DIRECT s) s k' (current_terminal_clear ?s)"
      by (rule console_becomes_trans [OF b b' [unfolded lf]])
    show ?thesis
    proof (rule line_effect [OF ok b2])
      show "video_ok (current_terminal_clear ?s)" by (rule wipe_writer.op_ok [OF v1])
      show "term_screen u (current_terminal_clear ?s) = term_screen u s
          \<and> terminals (current_terminal_clear ?s) u = terminals s u" if "u \<noteq> ?c" for u
        using wipe_writer.op_other [OF v1, of u] o1 [of u] that fr(1) by simp
    qed (auto simp: line_ok_def)
  qed
  show ?thesis using plain clear fr(1) by (simp add: character_key_def Let_def)
qed

lemma backspace_key_effect:
  assumes ok: "keyboard_ok s"
  shows "key_effect s (backspace_key s)"
proof -
  let ?c = "current_terminal s"
  have v: "video_ok s" using ok by (simp add: keyboard_ok_def)
  have upd: "keyboard_ok (upd_terminal ?c h s)"
    if "\<And>T. terminal_id (h T) = terminal_id T \<and> video_address (h T) = video_address T
         \<and> screen_x (h T) = screen_x T \<and> screen_y (h T) = screen_y T"
      "line_ok (h (terminals s ?c))" for h
    using video_ok_upd_terminal [OF v, of h ?c] that ok by (auto simp: keyboard_ok_def)
  consider "0 < overflow (terminals s ?c)"
    | "\<not> 0 < overflow (terminals s ?c)" "0 < keyboard_buffer_size (terminals s ?c)"
    | "\<not> 0 < overflow (terminals s ?c)" "\<not> 0 < keyboard_buffer_size (terminals s ?c)" by blast
  then show ?thesis
  proof cases
    case 1
    have "keyboard_ok (upd_terminal ?c (\<lambda>t. t\<lparr>overflow := overflow t - 1\<rparr>) s)"
      using ok 1 by (intro upd) (auto simp: keyboard_ok_def line_ok_def)
    then show ?thesis using 1 by (simp add: key_effect_def backspace_key_def Let_def)
  next
    case 2
    let ?s = "upd_terminal ?c (\<lambda>t. t\<lparr>keyboard_buffer_size := keyboard_buffer_size t - 1\<rparr>) s"
    have "line_ok (terminals s ?c)" using ok by (simp add: keyboard_ok_def)
    then have ok': "keyboard_ok ?s"
      using 2 by (intro upd) (auto simp: line_ok_def)
    then have v': "video_ok ?s" by (simp add: keyboard_ok_def)
    obtain k where b: "console_becomes ?c (low_frame VIDEO_DIRECT ?s) ?s k (current_terminal_back_putc ?s)"
      using current_becomes(2) [OF v'] by auto
    have "key_effect ?s (upd_terminal (current_terminal ?s) (\<lambda>T. T) (current_terminal_back_putc ?s))"
    proof (rule line_effect [OF ok'])
      show "console_becomes (current_terminal ?s) (low_frame VIDEO_DIRECT ?s) ?s k (current_terminal_back_putc ?s)"
        using b by simp
      show "video_ok (current_terminal_back_putc ?s)" by (rule erase_writer.op_ok [OF v'])
      show "term_screen u (current_terminal_back_putc ?s) = term_screen u ?s
          \<and> terminals (current_terminal_back_putc ?s) u = terminals ?s u" if "u \<noteq> current_terminal ?s" for u
        by (rule erase_writer.op_other [OF v' that])
    qed auto
    moreover have "upd_terminal ?c (\<lambda>T. T) s' = s'" for s' by (simp add: upd_terminal_def)
    ultimately show ?thesis using 2 by (simp add: key_effect_def backspace_key_def Let_def)
  next
    case 3
    then show ?thesis using ok by (simp add: key_effect_def backspace_key_def Let_def)
  qed
qed

lemma switch_effect:
  assumes "keyboard_ok s"
  shows "key_effect s (switch_to_terminal t s)"
proof -
  have v: "video_ok s" using assms by (simp add: keyboard_ok_def)
  note sw = switch_screens [OF v, where t = t]
  have "shift_pressed (switch_to_terminal t s) = shift_pressed s \<and> caps_lock (switch_to_terminal t s) = caps_lock s"
  proof (cases "t = current_terminal s")
    case True
    then show ?thesis using switch_same by simp
  next
    case False
    from switch_to_terminal_spec [OF v False] show ?thesis
      by (auto simp: paging_video_memory_def Let_def swapped_def)
  qed
  then show ?thesis using assms sw by (simp add: key_effect_def keyboard_ok_def)
qed

lemma modifier_effect:
  assumes "keyboard_ok s"
  shows "key_effect s (s\<lparr>alt_pressed := a\<rparr>)" "key_effect s (s\<lparr>ctrl_pressed := a\<rparr>)"
    "a = 0 \<or> a = 1 \<Longrightarrow> key_effect s (s\<lparr>shift_pressed := a\<rparr>)"
    "key_effect s (s\<lparr>caps_lock := caps_lock s OR 1\<rparr>)" "key_effect s s"
  using assms by (auto simp: key_effect_def keyboard_ok_def video_ok_def term_screen_def shown_frame_def
      low_frame_def)

lemma keyboard_input_effect:
  assumes "keyboard_ok s"
  shows "key_effect s (keyboard_input input s)"
proof -
  note sw = switch_effect [OF assms, of Terminal_1] switch_effect [OF assms, of Terminal_2]
    switch_effect [OF assms, of Terminal_3]
  have "input < 58 \<Longrightarrow> key_effect s (character_key (scancode (shift_pressed s OR caps_lock s) input) s)"
    by (rule character_key_effect [OF assms scancode_ascii])
  then show ?thesis
    using modifier_effect [OF assms] backspace_key_effect [OF assms] sw
    by (simp add: keyboard_input_def switch_to_terminal_def)
qed

lemma send_eoi_effect: "key_effect s s' \<Longrightarrow> key_effect s (send_eoi n s')"
  by (simp add: key_effect_def keyboard_ok_def video_ok_def term_screen_def shown_frame_def low_frame_def
      send_eoi_def send_eoi_master_def outb_def)

section \<open>Typing a line\<close>

text \<open>The scan codes that enter a character, other than those with a meaning of their own.\<close>

definition char_code :: "byte \<Rightarrow> bool" where
  "char_code i \<longleftrightarrow> i < 58 \<and> i \<notin> {0x38, 0x1D, 0x2A, 0x36, 0x0E}"

definition key_press :: "byte \<Rightarrow> kstate \<Rightarrow> kstate" where
  "key_press input s = send_eoi 1 (keyboard_input input s)"

text \<open>The characters entered so far.\<close>

definition line_of :: "terminal_t \<Rightarrow> byte list" where
  "line_of t = take (nat (keyboard_buffer_size t)) (key_buf t)"

lemma keyboard_input_char:
  assumes "char_code i"
  shows "keyboard_input i s = character_key (scancode (shift_pressed s OR caps_lock s) i) s"
proof -
  have "i < 58" using assms by (simp add: char_code_def)
  then have "unat i < 58" by (simp add: word_less_nat_alt)
  then have "i \<noteq> 0xB8" "i \<noteq> 0x9D" "i \<noteq> 0xAA" "i \<noteq> 0xB6" "i \<noteq> 0x3A" by auto
  then show ?thesis using assms by (simp add: keyboard_input_def char_code_def)
qed

lemma key_press_frame:
  assumes "keyboard_ok s" and "char_code i" and "ctrl_pressed s = 0"
  shows "keyboard_ok (key_press i s)" and "current_terminal (key_press i s) = current_terminal s"
    and "active_terminal (key_press i s) = active_terminal s"
    and "ctrl_pressed (key_press i s) = 0" and "shift_pressed (key_press i s) = shift_pressed s"
    and "caps_lock (key_press i s) = caps_lock s" and "pages (key_press i s) = pages s"
    and "\<exists>T. same_line (terminals s (current_terminal s)) T
      \<and> terminals (key_press i s) (current_terminal s)
        = buffer_key (scancode (shift_pressed s OR caps_lock s) i) T"
proof -
  have v: "video_ok s" using assms(1) by (simp add: keyboard_ok_def)
  let ?key = "scancode (shift_pressed s OR caps_lock s) i" and ?c = "current_terminal s"
  obtain k where b: "console_becomes ?c (low_frame VIDEO_DIRECT s) s k (current_terminal_putc ?key s)"
    using current_becomes(1) [OF v] by blast
  note fr = current_op_frame [OF b]
  have kp: "key_press i s = send_eoi 1 (upd_terminal ?c (buffer_key ?key) (current_terminal_putc ?key s))"
    using fr assms by (simp add: key_press_def keyboard_input_char character_key_def Let_def)
  show "keyboard_ok (key_press i s)"
    using send_eoi_effect [OF keyboard_input_effect [OF assms(1)]] by (simp add: key_press_def key_effect_def)
  show "\<exists>T. same_line (terminals s ?c) T \<and> terminals (key_press i s) ?c = buffer_key ?key T"
    using fr(2) [of ?c] by (intro exI [of _ "terminals (current_terminal_putc ?key s) ?c"])
      (simp add: kp send_eoi_def send_eoi_master_def outb_def)
  show "current_terminal (key_press i s) = ?c" and "active_terminal (key_press i s) = active_terminal s"
    and "ctrl_pressed (key_press i s) = 0" and "shift_pressed (key_press i s) = shift_pressed s"
    and "caps_lock (key_press i s) = caps_lock s" and "pages (key_press i s) = pages s"
    using fr assms(3) console_becomes_frame(1) [OF b]
    by (simp_all add: kp send_eoi_def send_eoi_master_def outb_def)
qed

text \<open>One character: it is appended to the line, or it ends it.\<close>

lemma buffer_key_char:
  assumes "line_ok t" and "keyboard_buffer_enable t \<noteq> 0" and "keyboard_buffer_size t < 128"
  shows "line_of (buffer_key key t) = line_of t @ [key]"
    and "keyboard_buffer_size (buffer_key key t) = keyboard_buffer_size t + 1"
    and "keyboard_buffer_enable (buffer_key key t) = (if key = newline then 0 else keyboard_buffer_enable t)"
proof -
  let ?n = "keyboard_buffer_size t"
  have n: "0 \<le> ?n" "nat ?n < length (key_buf t)" using assms by (auto simp: line_ok_def)
  show size: "keyboard_buffer_size (buffer_key key t) = ?n + 1"
    and "keyboard_buffer_enable (buffer_key key t) = (if key = newline then 0 else keyboard_buffer_enable t)"
    using assms n by (simp_all add: buffer_key_def store_key_def KEYBOARD_BUFFER_SIZE_def Let_def)
  have "key_buf (buffer_key key t) = (key_buf t)[nat ?n := key]"
    using assms n by (simp add: buffer_key_def store_key_def KEYBOARD_BUFFER_SIZE_def Let_def)
  moreover have "nat (?n + 1) = Suc (nat ?n)" using n(1) by simp
  ultimately show "line_of (buffer_key key t) = line_of t @ [key]"
    unfolding line_of_def size using n(2) by (simp add: take_Suc_conv_app_nth)
qed

lemma same_line_of: "same_line t t' \<Longrightarrow> line_of t' = line_of t"
  by (simp add: line_of_def same_line_fields)

lemma key_press_char:
  fixes s i defines "key \<equiv> scancode (shift_pressed s OR caps_lock s) i" and "c \<equiv> current_terminal s"
  assumes "keyboard_ok s" and "char_code i" and "ctrl_pressed s = 0"
    and "keyboard_buffer_enable (terminals s c) \<noteq> 0" and "keyboard_buffer_size (terminals s c) < 128"
  shows "line_of (terminals (key_press i s) c) = line_of (terminals s c) @ [key]"
    and "keyboard_buffer_size (terminals (key_press i s) c) = keyboard_buffer_size (terminals s c) + 1"
    and "keyboard_buffer_enable (terminals (key_press i s) c)
      = (if key = newline then 0 else keyboard_buffer_enable (terminals s c))"
proof -
  obtain T where T: "same_line (terminals s c) T" "terminals (key_press i s) c = buffer_key key T"
    using key_press_frame(8) [OF assms(3-5)] by (auto simp: key_def c_def)
  have "line_ok T" "keyboard_buffer_enable T \<noteq> 0" "keyboard_buffer_size T < 128"
    using assms same_line_fields [OF T(1)] by (auto simp: keyboard_ok_def)
  from buffer_key_char [OF this, of key]
  show "line_of (terminals (key_press i s) c) = line_of (terminals s c) @ [key]"
    and "keyboard_buffer_size (terminals (key_press i s) c) = keyboard_buffer_size (terminals s c) + 1"
    and "keyboard_buffer_enable (terminals (key_press i s) c)
      = (if key = newline then 0 else keyboard_buffer_enable (terminals s c))"
    using T same_line_of [OF T(1)] same_line_fields [OF T(1)] by simp_all
qed

section \<open>A booted state\<close>

text \<open>A concrete state with paging and terminals initialised and the program page of process 1 mapped.\<close>

definition ready_state :: kstate where
  "ready_state = (keyboard_init sample_state)
     \<lparr>pages := set_user_page (0x00400 + 0x00400 + 1 * 0x00400) (page_initialize (static_tables 0x401000 0x402000))\<rparr>"

lemma keyboard_init_terminals:
  "terminals (keyboard_init s) t = (terminals s t)\<lparr>terminal_id := int (term_rank t), screen_x := 0, screen_y := 0,
     keyboard_buffer_size := 0, keyboard_buffer_enable := 0, overflow := 0,
     video_address := VIDEO_MEM + 4096 * of_nat (term_rank t), current_process_id := 0, virtual_rate := 2\<rparr>"
  by (cases t) (simp_all add: keyboard_init_def init_terminal_def Let_def enable_irq_def)

lemma keyboard_init_frame [simp]:
  "active_terminal (keyboard_init s) = active_terminal s" "current_terminal (keyboard_init s) = current_terminal s"
  "shift_pressed (keyboard_init s) = shift_pressed s" "caps_lock (keyboard_init s) = caps_lock s"
  "ctrl_pressed (keyboard_init s) = ctrl_pressed s" "pages (keyboard_init s) = pages s"
  "pmem (keyboard_init s) = pmem s"
  by (simp_all add: keyboard_init_def init_terminal_def Let_def enable_irq_def outb_def)

lemma ready_state_simps [simp]:
  "active_terminal ready_state = Terminal_1" "current_terminal ready_state = Terminal_1"
  "ctrl_pressed ready_state = 0" "shift_pressed ready_state = 0" "caps_lock ready_state = 0"
  "keyboard_buffer_size (terminals ready_state t) = 0" "screen_x (terminals ready_state t) = 0"
  "screen_y (terminals ready_state t) = 0"
  by (simp_all add: ready_state_def sample_state_def static_state_def keyboard_init_terminals)

lemma ready_state_ok: "keyboard_ok ready_state"
proof -
  have "wf_pages (pages ready_state)"
    unfolding ready_state_def by (simp add: wf_set_user_page [OF sample_tables_wf, of 1, simplified])
  moreover have "low_frame VIDEO ready_state = shown_frame (active_terminal ready_state) ready_state"
    by (simp add: low_frame_def shown_frame_def ready_state_def set_user_page_def page_initialize_def
        VIDEO_def page_index_def video_pte_def sample_state_def static_state_def video_consts frame_of_def)
  ultimately show ?thesis
    by (auto simp: keyboard_ok_def video_ok_def ready_state_def keyboard_init_terminals cursor_ok_def
        line_ok_def VIDEO_MEM_def sample_state_def static_state_def zero_terminal_def)
qed

lemma ready_video_ok: "video_ok ready_state"
  using ready_state_ok by (simp add: keyboard_ok_def)

section \<open>Properties\<close>

text \<open>C12: Switching terminals is transparent: it brings the chosen terminal to the screen and changes no terminal's screen contents, in whatever frame they are kept before and after, nor any terminal's data, and the video mapping of the running process again leads to its own terminal.\<close>

theorem switch_keeps_screens:
  assumes "video_ok s"
  shows "current_terminal (switch_to_terminal t s) = t \<and> video_ok (switch_to_terminal t s)
    \<and> (\<forall>u. term_screen u (switch_to_terminal t s) = term_screen u s
        \<and> terminals (switch_to_terminal t s) u = terminals s u)"
  using switch_screens [OF assms, where t = t] by simp

theorem switch_keeps_screens_witness:
  "term_screen Terminal_1 (switch_to_terminal Terminal_2 (putc 65 ready_state)) = term_screen Terminal_1 (putc 65 ready_state)"
  using switch_keeps_screens [OF putc_writer.op_ok [OF ready_video_ok], of Terminal_2 65] by simp

text \<open>C13: Output goes to the terminal of the running process, whether it is on the screen or not: writing a string with \<open>putc\<close> performs on that terminal's console exactly the abstract operation for each character (cell, cursor, new row, scroll), and no other terminal's screen or data changes.\<close>

theorem output_confined:
  assumes "video_ok s"
  shows "term_console (active_terminal s) (fold putc cs s) = fold spec_putc cs (term_console (active_terminal s) s)
    \<and> video_ok (fold putc cs s)
    \<and> (\<forall>u. u \<noteq> active_terminal s \<longrightarrow> term_screen u (fold putc cs s) = term_screen u s
        \<and> terminals (fold putc cs s) u = terminals s u)"
  using fold_putc_console [OF assms] putc_writer.fold_op [OF assms] by blast

theorem output_confined_witness:
  "term_screen Terminal_2 (fold putc [72, 105, 10] ready_state) = term_screen Terminal_2 ready_state
   \<and> col (term_console Terminal_1 (fold putc [72, 105] ready_state)) = 2"
  using output_confined [OF ready_video_ok, of "[72, 105, 10]"] output_confined [OF ready_video_ok, of "[72, 105]"]
  by (simp add: spec_putc_def Let_def term_console_def console_of_def)

text \<open>C16: The keyboard handler keeps the kernel's terminal invariant for every scan code, in every state: at most 128 characters are counted in a line buffer, the cursor stays on the screen, and only the terminal on the screen changes, in its contents or its data.\<close>

theorem keyboard_handler_safe:
  assumes "keyboard_ok s"
  shows "keyboard_ok (keyboard_handler s) \<and> active_terminal (keyboard_handler s) = active_terminal s
    \<and> (\<forall>u. u \<noteq> current_terminal s \<longrightarrow> term_screen u (keyboard_handler s) = term_screen u s
        \<and> terminals (keyboard_handler s) u = terminals s u)"
  using send_eoi_effect [OF keyboard_input_effect [OF assms]]
  by (simp add: keyboard_handler_def key_effect_def)

theorem keyboard_handler_safe_witness:
  "keyboard_ok (keyboard_handler ready_state)
   \<and> terminals (keyboard_handler ready_state) Terminal_3 = terminals ready_state Terminal_3"
  using keyboard_handler_safe [OF ready_state_ok] by simp

end
