(* ===== verification/Terminal.thy ===== *)
theory Terminal
  imports Keyboard
begin

text \<open>
  The terminal as a file (\<^verbatim>\<open>terminal.c\<close>). \<open>terminal_read\<close> enables the line buffer, spins until the keyboard
  handler has taken a newline, and copies the line to the caller; the interrupts that arrive while it
  spins are an argument, and the result is \<open>None\<close> while it waits. \<open>terminal_write\<close> puts every byte of the
  caller's buffer on the console.
\<close>

section \<open>Definitions\<close>

definition terminal_reset :: "kstate \<Rightarrow> kstate" where
  "terminal_reset s = upd_terminal (active_terminal s)
     (\<lambda>t. t\<lparr>keyboard_buffer_size := 0, keyboard_buffer_enable := 0\<rparr>) s"

definition terminal_open :: "kstate \<Rightarrow> int \<times> kstate" where
  "terminal_open s = (0, terminal_reset s)"

definition terminal_close :: "kstate \<Rightarrow> int \<times> kstate" where
  "terminal_close s = (0, terminal_reset s)"

definition line_done :: "kstate \<Rightarrow> kstate" where
  "line_done s = upd_terminal (active_terminal s) (\<lambda>t. t\<lparr>keyboard_buffer_size := 0\<rparr>) s"

text \<open>
  The copying loop and what follows it. \<open>buf[n - 1]\<close> is the byte before the buffer when \<open>n\<close> is 0. The size
  of a finished line is at least 1 when the wait ends at once, as here; that it can be 0 when other processes
  run in between is shown in \<^verbatim>\<open>Waiting_Reads\<close>.
\<close>

function terminal_read_loop :: "nat \<Rightarrow> nat \<Rightarrow> addr \<Rightarrow> kstate \<Rightarrow> int \<times> kstate" where
  "terminal_read_loop index n buf s =
     (if index < n then
        let s = vstore (buf + of_nat index) (key_buf (terminals s (active_terminal s)) ! index) s
        in if vload s (buf + of_nat index) = newline then (int index + 1, line_done s)
           else terminal_read_loop (Suc index) n buf s
      else (int n, line_done (vstore (buf + (of_nat n - 1)) newline s)))"
  by pat_completeness auto
termination
  by (relation "measure (\<lambda>(index, n, buf, s). n - index)") auto

declare terminal_read_loop.simps [simp del]

definition terminal_read :: "(kstate \<Rightarrow> kstate) list \<Rightarrow> addr \<Rightarrow> u32 \<Rightarrow> kstate \<Rightarrow> (int \<times> kstate) option" where
  "terminal_read interrupts buf n s =
     (if buf = NULL then Some (-1, s)
      else if n = 0 then Some (0, s)
      else case spin_until (\<lambda>s. keyboard_buffer_enable (terminals s (active_terminal s)) \<noteq> 1) interrupts
                  (upd_terminal (active_terminal s) (\<lambda>t. t\<lparr>keyboard_buffer_enable := 1\<rparr>) s) of
             None \<Rightarrow> None
           | Some s \<Rightarrow>
               let size = of_int (keyboard_buffer_size (terminals s (active_terminal s)));
                   n = (if size < n then size else n)
               in Some (terminal_read_loop 0 (unat n) buf s))"

text \<open>The bytes are read from memory one at a time, as the loop goes.\<close>

definition terminal_write :: "addr \<Rightarrow> u32 \<Rightarrow> kstate \<Rightarrow> int \<times> kstate" where
  "terminal_write buf n s =
     (if buf = NULL then (-1, s)
      else if n = 0 then (0, s)
      else (sint n, fold (\<lambda>index s. putc (vload s (buf + of_nat index)) s) [0..<unat n] s))"

section \<open>Typing and reading\<close>

lemma active_vstore [simp]:
  "active_terminal (vstore a b s) = active_terminal s" "current_terminal (vstore a b s) = current_terminal s"
  by (simp_all add: vstore_def split: option.split prod.split)

text \<open>Waiting for a line: the characters pile up until the newline key ends the wait.\<close>

lemma spin_typing:
  assumes "keyboard_ok s" and "ctrl_pressed s = 0" and "active_terminal s = current_terminal s"
    and "keyboard_buffer_enable (terminals s (current_terminal s)) = 1"
    and "\<forall>i\<in>set is. char_code i \<and> scancode (shift_pressed s OR caps_lock s) i \<noteq> newline"
    and "char_code e" and "scancode (shift_pressed s OR caps_lock s) e = newline"
    and "keyboard_buffer_size (terminals s (current_terminal s)) + int (length is) < 128"
  shows "\<exists>s'. spin_until (\<lambda>s. keyboard_buffer_enable (terminals s (active_terminal s)) \<noteq> 1)
      (map key_press (is @ [e])) s = Some s'
    \<and> line_of (terminals s' (active_terminal s'))
      = line_of (terminals s (current_terminal s)) @ map (scancode (shift_pressed s OR caps_lock s)) is @ [newline]
    \<and> keyboard_buffer_size (terminals s' (active_terminal s'))
      = keyboard_buffer_size (terminals s (current_terminal s)) + int (length is) + 1
    \<and> keyboard_ok s' \<and> pages s' = pages s \<and> s' = fold key_press (is @ [e]) s"
  using assms
proof (induction "is" arbitrary: s)
  case Nil
  note fr = key_press_frame [OF Nil(1,6,2)]
  show ?case using key_press_char [OF Nil(1,6,2)] fr Nil by simp
next
  case (Cons i "is")
  let ?s = "key_press i s" and ?c = "current_terminal s"
  have i: "char_code i" "scancode (shift_pressed s OR caps_lock s) i \<noteq> newline" using Cons.prems(5) by auto
  note fr = key_press_frame [OF Cons.prems(1) i(1) Cons.prems(2)]
  have en: "keyboard_buffer_enable (terminals s ?c) \<noteq> 0" "keyboard_buffer_size (terminals s ?c) < 128"
    using Cons.prems(4,8) by auto
  note ch = key_press_char [OF Cons.prems(1) i(1) Cons.prems(2) en]
  have sz: "keyboard_buffer_size (terminals ?s ?c) + int (length is) < 128" using ch(2) Cons.prems(8) by simp
  have "\<exists>s'. spin_until (\<lambda>s. keyboard_buffer_enable (terminals s (active_terminal s)) \<noteq> 1)
      (map key_press (is @ [e])) ?s = Some s'
    \<and> line_of (terminals s' (active_terminal s'))
      = line_of (terminals ?s (current_terminal ?s)) @ map (scancode (shift_pressed ?s OR caps_lock ?s)) is @ [newline]
    \<and> keyboard_buffer_size (terminals s' (active_terminal s'))
      = keyboard_buffer_size (terminals ?s (current_terminal ?s)) + int (length is) + 1
    \<and> keyboard_ok s' \<and> pages s' = pages ?s \<and> s' = fold key_press (is @ [e]) ?s"
    by (rule Cons.IH) (use fr ch i sz Cons.prems in auto)
  then show ?case using fr ch i Cons.prems(3,4) by simp
qed

text \<open>A byte stored through a mapped address is read back.\<close>

definition mapped :: "kstate \<Rightarrow> addr \<Rightarrow> bool" where
  "mapped s va \<longleftrightarrow> xlate False (pages s) va \<noteq> None"

lemma vload_vstore: "mapped s va \<Longrightarrow> vload (vstore va b s) va = b"
  by (auto simp: mapped_def vload_def vstore_def)

lemma terminal_read_loop_line:
  assumes "\<forall>j<n. mapped s (buf + of_nat j)" and "i + length xs = m" and "m < n" "m < length K"
    and "K = key_buf (terminals s (active_terminal s))"
    and "\<forall>j<m. K ! j \<noteq> newline" and "K ! m = newline" and "xs = drop i (take m K)"
  shows "terminal_read_loop i n buf s
    = (int m + 1, line_done (vstore_bytes (buf + of_nat i) (xs @ [newline]) s))"
  using assms
proof (induction xs arbitrary: i s)
  case Nil
  then have "i = m" by simp
  then have "vload (vstore (buf + of_nat i) newline s) (buf + of_nat i) = newline" using Nil
    by (intro vload_vstore) auto
  then show ?case using Nil \<open>i = m\<close> by (subst terminal_read_loop.simps) (simp add: Let_def)
next
  case (Cons x xs)
  let ?s = "vstore (buf + of_nat i) (K ! i) s"
  have i: "i < m" "i < n" using Cons.prems(2,3) by simp_all
  have "drop i (take m K) = take m K ! i # drop (Suc i) (take m K)"
    by (rule Cons_nth_drop_Suc [symmetric]) (use i Cons.prems(4) in simp)
  then have x: "x = K ! i" "xs = drop (Suc i) (take m K)"
    using Cons.prems(8) i by simp_all
  have "vload ?s (buf + of_nat i) = K ! i" by (rule vload_vstore) (use Cons.prems i in auto)
  then have "terminal_read_loop i n buf s = terminal_read_loop (Suc i) n buf ?s"
    using i Cons.prems by (subst terminal_read_loop.simps) (simp add: Let_def)
  also have "\<dots> = (int m + 1, line_done (vstore_bytes (buf + of_nat (Suc i)) (xs @ [newline]) ?s))"
    by (rule Cons.IH) (use Cons.prems x in \<open>auto simp: mapped_def\<close>)
  finally show ?case using x by (simp add: ac_simps)
qed

section \<open>A line from start to end\<close>

definition start_line :: "kstate \<Rightarrow> kstate" where
  "start_line s = upd_terminal (active_terminal s) (\<lambda>t. t\<lparr>keyboard_buffer_enable := 1\<rparr>) s"

lemma scancode_newline:
  assumes "char_code i"
  shows "scancode mode i = newline \<longleftrightarrow> i = 0x1C"
proof -
  have "list_all (\<lambda>n. (scancode_plain ! n = 10 \<longleftrightarrow> n = 28) \<and> (scancode_shift ! n = 10 \<longleftrightarrow> n = 28)) [0..<58]"
    by code_simp
  moreover have "unat i < 58" using assms by (simp add: char_code_def word_less_nat_alt)
  ultimately have "(scancode_plain ! unat i = 10 \<longleftrightarrow> unat i = 28) \<and> (scancode_shift ! unat i = 10 \<longleftrightarrow> unat i = 28)"
    by (simp add: list_all_iff)
  then show ?thesis by (simp add: scancode_def word_unat_eq_iff)
qed

text \<open>The state when the wait ends, in terms of the keys.\<close>

lemma spin_typed:
  assumes "keyboard_ok s" and "ctrl_pressed s = 0" and "active_terminal s = current_terminal s"
    and "keyboard_buffer_size (terminals s (active_terminal s)) = 0"
    and "\<forall>i\<in>set is. char_code i \<and> i \<noteq> 0x1C" and "length is \<le> 127"
  obtains s' where "s' = fold key_press (is @ [0x1C]) (start_line s)"
    and "spin_until (\<lambda>s. keyboard_buffer_enable (terminals s (active_terminal s)) \<noteq> 1)
      (map key_press (is @ [0x1C])) (start_line s) = Some s'"
    and "line_of (terminals s' (active_terminal s')) = map (scancode (shift_pressed s OR caps_lock s)) is @ [newline]"
    and "keyboard_buffer_size (terminals s' (active_terminal s')) = int (length is) + 1"
    and "keyboard_ok s'" and "pages s' = pages s"
proof -
  let ?s = "start_line s"
  have ok: "keyboard_ok ?s"
    using assms(1) video_ok_upd_terminal [of s "\<lambda>t. t\<lparr>keyboard_buffer_enable := 1\<rparr>" "active_terminal s"]
    by (auto simp: start_line_def keyboard_ok_def line_ok_def)
  have s: "ctrl_pressed ?s = 0" "active_terminal ?s = current_terminal ?s" "shift_pressed ?s = shift_pressed s"
    "caps_lock ?s = caps_lock s" "keyboard_buffer_enable (terminals ?s (current_terminal ?s)) = 1"
    "keyboard_buffer_size (terminals ?s (current_terminal ?s)) = 0" "pages ?s = pages s"
    using assms by (simp_all add: start_line_def)
  have e: "char_code 0x1C" by (simp add: char_code_def)
  have k: "\<forall>i\<in>set is. char_code i \<and> scancode (shift_pressed ?s OR caps_lock ?s) i \<noteq> newline"
    using assms(5) scancode_newline by blast
  have nl: "scancode (shift_pressed ?s OR caps_lock ?s) 0x1C = newline"
    using scancode_newline [OF e] by blast
  have len: "keyboard_buffer_size (terminals ?s (current_terminal ?s)) + int (length is) < 128"
    using s(6) assms(6) by simp
  from spin_typing [OF ok s(1,2,5) k e nl len] s show ?thesis
    by (auto intro: that simp: line_of_def)
qed

lemma line_prefix:
  assumes "line_of t = xs @ [newline]" and "keyboard_buffer_size t = int (length xs) + 1"
    and "length xs < length (key_buf t)"
  shows "take (length xs) (key_buf t) = xs" and "key_buf t ! length xs = newline"
    and "\<And>j. j < length xs \<Longrightarrow> key_buf t ! j = xs ! j"
proof -
  have "take (Suc (length xs)) (key_buf t) = xs @ [newline]"
    using assms(1,2) by (simp add: line_of_def nat_add_distrib)
  then show t: "take (length xs) (key_buf t) = xs" and "key_buf t ! length xs = newline"
    using assms(3) by (auto simp: take_Suc_conv_app_nth)
  show "key_buf t ! j = xs ! j" if "j < length xs" for j
    using t nth_take [OF that, of "key_buf t"] by simp
qed

text \<open>What is typed is what is read. While a process waits in \<open>terminal_read\<close> with an empty line buffer, the user types up to 127 character keys and Enter; then the call returns the number of characters with the newline, and exactly these characters, in order and with the case the modifiers select, are stored at the start of the caller's buffer, provided it is large enough.\<close>

lemma typed_line_is_read:
  assumes "keyboard_ok s" and "ctrl_pressed s = 0" and "active_terminal s = current_terminal s"
    and "keyboard_buffer_size (terminals s (active_terminal s)) = 0"
    and "\<forall>i\<in>set is. char_code i \<and> i \<noteq> 0x1C" and "length is \<le> 127"
    and "buf \<noteq> NULL" and "length is < unat n" and "\<forall>j<unat n. mapped s (buf + of_nat j)"
  shows "terminal_read (map key_press (is @ [0x1C])) buf n s
    = Some (int (length is) + 1,
        line_done (vstore_bytes buf (map (scancode (shift_pressed s OR caps_lock s)) is @ [newline])
          (fold key_press (is @ [0x1C]) (start_line s))))"
proof -
  let ?xs = "map (scancode (shift_pressed s OR caps_lock s)) is" and ?m = "length is"
  obtain s' where s': "s' = fold key_press (is @ [0x1C]) (start_line s)"
    and spin: "spin_until (\<lambda>s. keyboard_buffer_enable (terminals s (active_terminal s)) \<noteq> 1)
      (map key_press (is @ [0x1C])) (start_line s) = Some s'"
    and line: "line_of (terminals s' (active_terminal s')) = ?xs @ [newline]"
      "keyboard_buffer_size (terminals s' (active_terminal s')) = int ?m + 1"
    and ok: "keyboard_ok s'" and pg: "pages s' = pages s"
    by (rule spin_typed [OF assms(1-6)])
  let ?T = "terminals s' (active_terminal s')"
  have len: "length ?xs < length (key_buf ?T)"
    using ok assms(6) by (simp add: keyboard_ok_def line_ok_def)
  note K = line_prefix [OF line(1) _ len, simplified length_map, OF line(2)]
  have nonl: "\<forall>j<?m. key_buf ?T ! j \<noteq> newline"
    using K(3) assms(5) scancode_newline by simp
  define size where "size = (of_int (int ?m + 1) :: u32)"
  have "unat size = Suc ?m"
    using assms(6) of_nat_unat_small [of "Suc ?m"] by (simp add: size_def ac_simps)
  then have n: "unat (if size < n then size else n) = Suc ?m"
    using assms(8) by (auto simp: word_less_nat_alt)
  have "n \<noteq> 0" using assms(8) by auto
  then have "terminal_read (map key_press (is @ [0x1C])) buf n s
      = Some (terminal_read_loop 0 (unat (if size < n then size else n)) buf s')"
    unfolding terminal_read_def start_line_def [symmetric] spin Let_def option.case line(2) size_def
    using assms(7) by simp
  also have "terminal_read_loop 0 (unat (if size < n then size else n)) buf s'
      = (int ?m + 1, line_done (vstore_bytes (buf + of_nat 0) (take ?m (key_buf ?T) @ [newline]) s'))"
    unfolding n
    by (rule terminal_read_loop_line [where K = "key_buf ?T"])
      (use assms(8,9) pg K(2) nonl len in \<open>auto simp: mapped_def\<close>)
  finally show ?thesis using K(1) s' by simp
qed

end
