(* ===== verification/Kernel_Interfaces.thy ===== *)
theory Kernel_Interfaces
  imports Kernel_Prelude
begin

text \<open>
  The interfaces between the components, as locales. Each fixes the operations a client calls and
  assumes the laws the provider promises; the client's lemmas are proved here or in the client's
  theory, once, and every locale is interpreted on the definitions of the provider.

  \<open>byte_source\<close> is an open file read sequentially in chunks; \<open>slot_pool\<close> is a fixed set of numbered slots
  that are handed out and taken back; \<open>step_invariant\<close> is a step relation with an invariant, and
  \<open>step_relation\<close> extends it by a relation between the states before and after, \<open>simulation\<close> by an abstract
  step relation that matches every step.
\<close>

section \<open>Sequential reading\<close>

locale byte_source =
  fixes rd :: "'s \<Rightarrow> int \<times> byte list \<times> 's"
    and rest :: "'s \<Rightarrow> byte list"
    and ok :: "'s \<Rightarrow> bool"
    and chunk :: nat
  assumes chunk_pos: "0 < chunk"
    and rd_law: "ok s \<Longrightarrow> rd s = (r, bs, s')
      \<Longrightarrow> r = int (length bs) \<and> bs = take chunk (rest s) \<and> rest s' = drop chunk (rest s) \<and> ok s'"
begin

lemma rd_ok:
  assumes "ok s"
  obtains s' where "rd s = (int (length (take chunk (rest s))), take chunk (rest s), s')"
    and "rest s' = drop chunk (rest s)" and "ok s'"
proof -
  obtain r bs s' where rd: "rd s = (r, bs, s')" by (cases "rd s")
  then show ?thesis using rd_law [OF assms rd] that by auto
qed

lemma rd_end_iff:
  assumes "ok s"
  shows "fst (rd s) = 0 \<longleftrightarrow> rest s = []"
  using rd_ok [OF assms] chunk_pos by (metis fst_conv length_0_conv neq0_conv of_nat_eq_0_iff take_eq_Nil)

end

section \<open>A pool of slots\<close>

locale slot_pool =
  fixes acquire :: "'p \<Rightarrow> int \<times> 'p"
    and release :: "int \<Rightarrow> 'p \<Rightarrow> int \<times> 'p"
    and used :: "'p \<Rightarrow> int set"
    and slots :: "int set"
    and ok :: "'p \<Rightarrow> bool"
  assumes finite_slots: "finite slots"
    and used_slots: "ok p \<Longrightarrow> used p \<subseteq> slots"
    and acquire_free: "ok p \<Longrightarrow> used p \<noteq> slots \<Longrightarrow> acquire p = (i, p')
      \<Longrightarrow> i \<in> slots - used p \<and> used p' = insert i (used p) \<and> ok p'"
    and acquire_full: "ok p \<Longrightarrow> used p = slots \<Longrightarrow> acquire p = (-1, p)"
    and release_used: "ok p \<Longrightarrow> i \<in> used p \<Longrightarrow> release i p = (r, p')
      \<Longrightarrow> r = 0 \<and> used p' = used p - {i} \<and> ok p'"
begin

text \<open>A slot that was taken and given back leaves the pool as it was.\<close>

lemma acquire_release:
  assumes "ok p" and "used p \<noteq> slots"
  shows "\<exists>i p' p''. acquire p = (i, p') \<and> release i p' = (0, p'') \<and> used p'' = used p \<and> ok p''"
proof -
  obtain i p' where a: "acquire p = (i, p')" by fastforce
  then have i: "i \<in> slots - used p" "used p' = insert i (used p)" "ok p'"
    using acquire_free [OF assms a] by auto
  obtain r p'' where r: "release i p' = (r, p'')" by fastforce
  then have "r = 0 \<and> used p'' = used p' - {i} \<and> ok p''" using i by (intro release_used) auto
  then show ?thesis using a r i by auto
qed

text \<open>As many acquisitions succeed as there are free slots, with different slots.\<close>

primrec acquire_n :: "nat \<Rightarrow> 'p \<Rightarrow> int list \<times> 'p" where
  "acquire_n 0 p = ([], p)"
| "acquire_n (Suc n) p = (let (i, p') = acquire p; (is, p'') = acquire_n n p' in (i # is, p''))"

lemma acquire_n_distinct:
  assumes "ok p" and "n \<le> card (slots - used p)" and "acquire_n n p = (is, p')"
  shows "distinct is \<and> set is \<subseteq> slots - used p \<and> used p' = used p \<union> set is \<and> ok p' \<and> length is = n"
  using assms
proof (induction n arbitrary: p "is")
  case (Suc n)
  obtain i q where a: "acquire p = (i, q)" by fastforce
  obtain js where js: "acquire_n n q = (js, p')" "is = i # js"
    using Suc.prems(3) a by (auto simp: Let_def split: prod.splits)
  have "used p \<noteq> slots" using Suc.prems(2) by auto
  then have i: "i \<in> slots - used p" "used q = insert i (used p)" "ok q"
    using acquire_free [OF Suc.prems(1) _ a] by auto
  have "slots - used q = slots - used p - {i}" using i by auto
  then have "n \<le> card (slots - used q)" using Suc.prems(2) i(1) by (simp add: card_Diff_singleton)
  from Suc.IH [OF i(3) this js(1)] show ?case using i js(2) by auto
qed simp

end

section \<open>Step relations and invariants\<close>

locale step_invariant =
  fixes trans :: "'s \<Rightarrow> 's \<Rightarrow> bool" and inv :: "'s \<Rightarrow> bool"
  assumes trans_inv: "inv s \<Longrightarrow> trans s s' \<Longrightarrow> inv s'"
begin

lemma reachable_inv: "trans\<^sup>*\<^sup>* s s' \<Longrightarrow> inv s \<Longrightarrow> inv s'"
  by (induction rule: rtranclp_induct) (auto intro: trans_inv)

end

text \<open>A relation between states that every step respects, such as what never changes or only grows.\<close>

locale step_relation = step_invariant +
  fixes rel :: "'s \<Rightarrow> 's \<Rightarrow> bool"
  assumes rel_refl: "rel s s"
    and rel_trans: "rel s s' \<Longrightarrow> rel s' s'' \<Longrightarrow> rel s s''"
    and trans_rel: "inv s \<Longrightarrow> trans s s' \<Longrightarrow> rel s s'"
begin

lemma reachable_rel: "trans\<^sup>*\<^sup>* s s' \<Longrightarrow> inv s \<Longrightarrow> rel s s'"
proof (induction rule: rtranclp_induct)
  case (step y z)
  then show ?case using reachable_inv [of s y] trans_rel rel_trans by blast
qed (rule rel_refl)

end

text \<open>Every step is matched by a step of an abstract system, through a relation between the two states.\<close>

locale simulation = step_invariant +
  fixes astep :: "'a \<Rightarrow> 'a \<Rightarrow> bool" and R :: "'a \<Rightarrow> 's \<Rightarrow> bool"
  assumes simulate: "inv s \<Longrightarrow> R a s \<Longrightarrow> trans s s' \<Longrightarrow> \<exists>a'. astep a a' \<and> R a' s'"
begin

lemma reachable_simulated: "trans\<^sup>*\<^sup>* s s' \<Longrightarrow> inv s \<Longrightarrow> R a s \<Longrightarrow> \<exists>a'. astep\<^sup>*\<^sup>* a a' \<and> R a' s'"
proof (induction rule: rtranclp_induct)
  case (step y z)
  then obtain b where b: "astep\<^sup>*\<^sup>* a b" "R b y" by blast
  have "inv y" using step reachable_inv by blast
  then obtain c where "astep b c" "R c z" using simulate [OF _ b(2) step.hyps(2)] by blast
  then show ?case using b(1) by (meson rtranclp.rtrancl_into_rtrancl)
qed blast

end

end
