(* ===== verification/Filesystem.thy ===== *)
theory Filesystem
  imports Lib_String Kernel_Interfaces
begin

text \<open>
  The read-only file system of \<^verbatim>\<open>filesystem.c\<close>. The image is a region of memory at
  \<open>boot_block_pointer\<close>: a boot block of 4096 bytes (counts at offsets 0, 4 and 8, then 63 directory
  entries of 64 bytes from offset 64), one block per index node, then the data blocks. All fields
  are little-endian loads from the memory \<open>M\<close>, and addresses wrap at 32 bits as in the code.

  A caller's buffer is returned as the list of the bytes stored into it from its start upwards.
  \<open>fname\<close> is \<open>None\<close> for a null pointer. A result \<open>None\<close> means the call does not return (an
  unterminated name), which the lemmas exclude for images whose names end.
\<close>

section \<open>Layout\<close>

definition FILENAME_LEN :: nat where
  "FILENAME_LEN = 32"

definition MAX_DIRECTORY_NUMBER :: nat where
  "MAX_DIRECTORY_NUMBER = 63"

definition BLOCK_SIZE :: u32 where
  "BLOCK_SIZE = 4096"

definition TYPE_RTC :: u32 where
  "TYPE_RTC = 0"

definition TYPE_DIRECTORY :: u32 where
  "TYPE_DIRECTORY = 1"

definition TYPE_FILE :: u32 where
  "TYPE_FILE = 2"

record dir_entry_t =
  filename :: "byte list"
  filetype :: u32
  inode_num :: u32
  dentry_reserved :: "byte list"

definition dir_count :: "mem \<Rightarrow> addr \<Rightarrow> u32" where
  "dir_count M bbp = load32 M bbp"

definition inode_count :: "mem \<Rightarrow> addr \<Rightarrow> u32" where
  "inode_count M bbp = load32 M (bbp + 4)"

definition data_count :: "mem \<Rightarrow> addr \<Rightarrow> u32" where
  "data_count M bbp = load32 M (bbp + 8)"

definition direntry_addr :: "addr \<Rightarrow> u32 \<Rightarrow> addr" where
  "direntry_addr bbp i = bbp + 64 + 64 * i"

definition direntries :: "mem \<Rightarrow> addr \<Rightarrow> u32 \<Rightarrow> dir_entry_t" where
  "direntries M bbp i =
     (let a = direntry_addr bbp i
      in \<lparr>filename = load_bytes M a FILENAME_LEN, filetype = load32 M (a + 32),
          inode_num = load32 M (a + 36), dentry_reserved = load_bytes M (a + 40) 24\<rparr>)"

definition i_node_addr :: "addr \<Rightarrow> u32 \<Rightarrow> addr" where
  "i_node_addr bbp i = bbp + BLOCK_SIZE * (1 + i)"

definition i_node_length :: "mem \<Rightarrow> addr \<Rightarrow> u32 \<Rightarrow> u32" where
  "i_node_length M bbp i = load32 M (i_node_addr bbp i)"

definition data_block_num :: "mem \<Rightarrow> addr \<Rightarrow> u32 \<Rightarrow> u32 \<Rightarrow> u32" where
  "data_block_num M bbp i k = load32 M (i_node_addr bbp i + 4 + 4 * k)"

definition data_block_addr :: "mem \<Rightarrow> addr \<Rightarrow> u32 \<Rightarrow> addr" where
  "data_block_addr M bbp n = bbp + BLOCK_SIZE * (inode_count M bbp + 1 + n)"

section \<open>Operations\<close>

definition init_filesystem :: "addr \<Rightarrow> addr" where
  "init_filesystem address = address"

primrec dentry_loop :: "mem \<Rightarrow> addr \<Rightarrow> cptr \<Rightarrow> u32 \<Rightarrow> nat list \<Rightarrow> dir_entry_t option option" where
  "dentry_loop M bbp fname len [] = Some None"
| "dentry_loop M bbp fname len (index # is) =
     (let entry = at M (direntry_addr bbp (of_nat index))
      in case strlen entry of
           None \<Rightarrow> None
         | Some entry_len \<Rightarrow>
             if len = of_nat FILENAME_LEN \<and> strncmp fname entry (of_nat FILENAME_LEN) = 0
             then Some (Some (direntries M bbp (of_nat index)))
             else if len = entry_len \<and> strncmp fname entry len = 0
             then Some (Some (direntries M bbp (of_nat index)))
             else dentry_loop M bbp fname len is)"

definition read_dentry_by_name :: "mem \<Rightarrow> addr \<Rightarrow> cptr option \<Rightarrow> dir_entry_t option option" where
  "read_dentry_by_name M bbp fname =
     (case fname of
        None \<Rightarrow> Some None
      | Some f \<Rightarrow>
          if bbp = NULL then Some None
          else case strlen f of
                 None \<Rightarrow> None
               | Some len \<Rightarrow>
                   if len = 0 then Some None
                   else dentry_loop M bbp f len [0..<MAX_DIRECTORY_NUMBER])"

text \<open>One iteration of the copy loop of \<open>read_data\<close>: what it adds to the result and to the buffer.\<close>

definition read_block ::
  "mem \<Rightarrow> addr \<Rightarrow> u32 \<Rightarrow> u32 \<Rightarrow> u32 \<Rightarrow> u32 \<Rightarrow> u32 \<Rightarrow> u32 \<Rightarrow> u32 \<times> byte list \<Rightarrow> u32 \<times> byte list"
where
  "read_block M bbp inode offset len first lst index acc =
     (let block = data_block_addr M bbp (data_block_num M bbp inode index);
          block_byte_begin = (if index = first then offset mod BLOCK_SIZE else 0);
          block_byte_end = (if index = lst then (offset + len) mod BLOCK_SIZE else BLOCK_SIZE);
          n = block_byte_end - block_byte_begin
      in (fst acc + n, snd acc @ load_bytes M (block + block_byte_begin) (unat n)))"

definition read_data :: "mem \<Rightarrow> addr \<Rightarrow> u32 \<Rightarrow> u32 \<Rightarrow> addr \<Rightarrow> u32 \<Rightarrow> int \<times> byte list" where
  "read_data M bbp inode offset buf len =
     (if bbp = NULL then (-1, [])
      else if buf = NULL then (-1, [])
      else if inode_count M bbp \<le> inode \<or> sint inode < 0 then (-1, [])
      else if i_node_addr bbp inode = NULL then (-1, [])
      else let flen = i_node_length M bbp inode
        in if flen \<le> offset then (0, [])
        else let len = (if flen - offset < len then flen - offset else len);
                 first = offset div BLOCK_SIZE;
                 lst = (offset + len) div BLOCK_SIZE;
                 r = fold (\<lambda>i. read_block M bbp inode offset len first lst (of_nat i))
                       [unat first..<Suc (unat lst)] (0, [])
             in (sint (fst r), snd r))"

definition dir_open :: "mem \<Rightarrow> addr \<Rightarrow> u32 \<Rightarrow> cptr option \<Rightarrow> (int \<times> u32) option" where
  "dir_open M bbp fd fname =
     (if fd \<noteq> 0 \<or> fname = None then Some (-1, fd)
      else if bbp = NULL then Some (-1, fd)
      else case read_dentry_by_name M bbp fname of
             None \<Rightarrow> None
           | Some None \<Rightarrow> Some (-1, fd)
           | Some (Some dentry) \<Rightarrow>
               if filetype dentry \<noteq> TYPE_DIRECTORY then Some (-1, fd)
               else Some (0, inode_num dentry))"

definition dir_close :: "addr \<Rightarrow> u32 \<Rightarrow> int \<times> u32" where
  "dir_close bbp fd = (if bbp = NULL then (-1, fd) else (0, 0))"

definition dir_write :: "u32 \<Rightarrow> addr \<Rightarrow> u32 \<Rightarrow> u32 \<Rightarrow> int" where
  "dir_write fd buf len offset = -1"

text \<open>\<open>dir_read\<close> returns the result, the bytes stored into the buffer and the new offset.\<close>

definition dir_read :: "mem \<Rightarrow> addr \<Rightarrow> u32 \<Rightarrow> addr \<Rightarrow> u32 \<Rightarrow> u32 \<Rightarrow> int \<times> byte list \<times> u32" where
  "dir_read M bbp fd buf len offset =
     (if fd = -1 \<or> buf = NULL then (-1, [], offset)
      else if bbp = NULL then (-1, [], offset)
      else if inode_count M bbp \<le> offset then (-1, [], offset)
      else let bs = load_bytes M (direntry_addr bbp offset) (unat len);
               offset = offset + 1
           in (if 18 \<le> offset then 0 else sint len, bs, offset))"

definition file_open :: "mem \<Rightarrow> addr \<Rightarrow> u32 \<Rightarrow> cptr option \<Rightarrow> (int \<times> u32) option" where
  "file_open M bbp fd fname =
     (if fname = None then Some (-1, fd)
      else if bbp = NULL then Some (-1, fd)
      else case read_dentry_by_name M bbp fname of
             None \<Rightarrow> None
           | Some None \<Rightarrow> Some (-1, fd)
           | Some (Some dentry) \<Rightarrow>
               if filetype dentry \<noteq> TYPE_FILE then Some (-1, fd)
               else Some (0, inode_num dentry))"

definition file_close :: "u32 \<Rightarrow> int \<times> u32" where
  "file_close fd = (if fd = -1 then (-1, fd) else (0, -1))"

definition file_write :: "u32 \<Rightarrow> addr \<Rightarrow> u32 \<Rightarrow> u32 \<Rightarrow> int" where
  "file_write fd buf len offset = -1"

definition file_read :: "mem \<Rightarrow> addr \<Rightarrow> u32 \<Rightarrow> addr \<Rightarrow> u32 \<Rightarrow> u32 \<Rightarrow> int \<times> byte list \<times> u32" where
  "file_read M bbp fd buf len offset =
     (if fd = 0 \<or> buf = NULL then (-1, [], offset)
      else if bbp = NULL then (-1, [], offset)
      else let (r, bs) = read_data M bbp fd offset buf len
           in if 0 < r then (r, bs, offset + len) else (r, bs, offset))"

section \<open>Specification\<close>

text \<open>The contents of a file: its bytes in the order of its data blocks.\<close>

definition file_byte :: "mem \<Rightarrow> addr \<Rightarrow> u32 \<Rightarrow> nat \<Rightarrow> byte" where
  "file_byte M bbp inode k =
     M (data_block_addr M bbp (data_block_num M bbp inode (of_nat (k div 4096))) + of_nat (k mod 4096))"

definition file_content :: "mem \<Rightarrow> addr \<Rightarrow> u32 \<Rightarrow> byte list" where
  "file_content M bbp inode =
     map (file_byte M bbp inode) [0..<unat (i_node_length M bbp inode)]"

definition valid_inode :: "mem \<Rightarrow> addr \<Rightarrow> u32 \<Rightarrow> bool" where
  "valid_inode M bbp inode \<longleftrightarrow> bbp \<noteq> NULL \<and> inode < inode_count M bbp \<and> 0 \<le> sint inode
     \<and> i_node_addr bbp inode \<noteq> NULL"

text \<open>The name in a directory entry: up to 32 bytes, ended by a NUL when shorter.\<close>

definition dentry_name :: "mem \<Rightarrow> addr \<Rightarrow> nat \<Rightarrow> byte list" where
  "dentry_name M bbp i =
     takeWhile (\<lambda>b. b \<noteq> 0) (load_bytes M (direntry_addr bbp (of_nat i)) FILENAME_LEN)"

text \<open>Every scan of a directory entry's name ends: a NUL follows within the entry.\<close>

definition names_end :: "mem \<Rightarrow> addr \<Rightarrow> bool" where
  "names_end M bbp \<longleftrightarrow>
     (\<forall>i<MAX_DIRECTORY_NUMBER. \<exists>k<64. M (direntry_addr bbp (of_nat i) + of_nat k) = 0)"

section \<open>Reading data\<close>

lemma length_file_content [simp]:
  "length (file_content M bbp inode) = unat (i_node_length M bbp inode)"
  by (simp add: file_content_def)

lemma fold_read_block:
  "fold (\<lambda>i. read_block M bbp inode offset len first lst (of_nat i)) is (r, bs)
    = (let cs = map (\<lambda>i. snd (read_block M bbp inode offset len first lst (of_nat i) (0, []))) is
       in (r + of_nat (length (concat cs)), bs @ concat cs))"
proof (induction "is" arbitrary: r bs)
  case (Cons i "is")
  show ?case
    using Cons.IH by (simp add: Let_def read_block_def)
qed simp

text \<open>Splitting an interval at the multiples of a block size.\<close>

lemma concat_blocks:
  assumes "0 < B" and "a \<le> (b :: nat)"
  shows "concat (map (\<lambda>i. map f [max a (i * B)..<min b (Suc i * B)]) [a div B..<Suc (b div B)])
    = map f [a..<b]"
proof -
  let ?g = "\<lambda>i. map f [max a (i * B)..<min b (Suc i * B)]"
  have part: "concat (map ?g [a div B..<n]) = map f [a..<min b (n * B)]"
    if "a div B < n" "n \<le> Suc (b div B)" for n
    using that
  proof (induction n)
    case (Suc n)
    have lo: "a div B * B \<le> a" by simp
    show ?case
    proof (cases "a div B = n")
      case True
      then have "max a (n * B) = a" using lo by (simp add: max_def)
      then show ?thesis using True by simp
    next
      case False
      with Suc.prems have n: "a div B < n" "n \<le> b div B" by auto
      then have "a < n * B" using assms(1) by (simp add: div_less_iff_less_mult)
      moreover have "n * B \<le> b"
        using n(2) assms(1) by (simp add: less_eq_div_iff_mult_less_eq)
      ultimately have "concat (map ?g [a div B..<Suc n])
          = map f [a..<n * B] @ map f [n * B..<min b (Suc n * B)]"
        using Suc n by (simp add: max_def min_def)
      also have "\<dots> = map f [a..<min b (Suc n * B)]"
        using \<open>a < n * B\<close> \<open>n * B \<le> b\<close> by (intro map_upt_append) auto
      finally show ?thesis .
    qed
  qed simp
  have "b < Suc (b div B) * B"
    using assms(1) by (metis div_less_iff_less_mult lessI)
  moreover have "a div B < Suc (b div B)" using assms(2) by (simp add: div_le_mono less_Suc_eq_le)
  ultimately show ?thesis using part [of "Suc (b div B)"] by (simp add: min_def)
qed

lemma load_bytes_map: "load_bytes M a n = map (\<lambda>k. M (a + of_nat k)) [0..<n]"
  by (rule nth_equalityI) (auto simp: nth_load_bytes)

lemma load_block_file_bytes:
  assumes "b \<le> e" and "e \<le> 4096"
  shows "load_bytes M (data_block_addr M bbp (data_block_num M bbp inode (of_nat i)) + of_nat b) (e - b)
    = map (file_byte M bbp inode) [i * 4096 + b..<i * 4096 + e]"
proof (rule nth_equalityI)
  fix k
  assume "k < length (load_bytes M (data_block_addr M bbp (data_block_num M bbp inode (of_nat i))
    + of_nat b) (e - b))"
  then have k: "k < e - b" by simp
  then have "b + k < 4096" using assms by linarith
  then have "(i * 4096 + (b + k)) div 4096 = i" "(i * 4096 + (b + k)) mod 4096 = b + k"
    by simp_all
  then have "(i * 4096 + b + k) div 4096 = i" "(i * 4096 + b + k) mod 4096 = b + k"
    by (simp_all add: add.assoc)
  then show "load_bytes M (data_block_addr M bbp (data_block_num M bbp inode (of_nat i)) + of_nat b)
      (e - b) ! k = map (file_byte M bbp inode) [i * 4096 + b..<i * 4096 + e] ! k"
    using k assms by (simp add: nth_load_bytes file_byte_def ac_simps)
qed simp

lemma unat_BLOCK_SIZE [simp]: "unat BLOCK_SIZE = 4096"
  by (simp add: BLOCK_SIZE_def)

text \<open>What one iteration copies: the part of the request that lies in block \<open>i\<close>.\<close>

lemma read_block_bytes:
  fixes offset len :: u32
  defines "a \<equiv> unat offset" and "b \<equiv> unat offset + unat len"
  assumes small: "b < 4294967296" and i: "a div 4096 \<le> i" "i \<le> b div 4096"
  shows "snd (read_block M bbp inode offset len (offset div BLOCK_SIZE)
      ((offset + len) div BLOCK_SIZE) (of_nat i) (0, []))
    = map (file_byte M bbp inode) [max a (i * 4096)..<min b (Suc i * 4096)]"
proof -
  have ab: "a \<le> b" by (simp add: a_def b_def)
  have sum: "unat (offset + len) = b"
    using small by (simp add: b_def unat_add_less)
  have "i < 4294967296" using i small by (meson div_le_dividend le_less_trans)
  then have idx: "unat (of_nat i :: u32) = i" by (rule of_nat_unat_small)
  have eqs: "(of_nat i = offset div BLOCK_SIZE) = (i = a div 4096)"
    "(of_nat i = (offset + len) div BLOCK_SIZE) = (i = b div 4096)"
    by (simp_all add: word_unat_eq_iff unat_div_distrib idx sum a_def)
  let ?lo = "if i = a div 4096 then a mod 4096 else 0"
  let ?hi = "if i = b div 4096 then b mod 4096 else 4096"
  let ?lo' = "if of_nat i = offset div BLOCK_SIZE then offset mod BLOCK_SIZE else 0"
  let ?hi' = "if of_nat i = (offset + len) div BLOCK_SIZE then (offset + len) mod BLOCK_SIZE else BLOCK_SIZE"
  have lo: "unat ?lo' = ?lo" and hi: "unat ?hi' = ?hi"
    using eqs by (simp_all add: unat_mod_distrib sum a_def)
  have decomp: "a = a div 4096 * 4096 + a mod 4096" "b = b div 4096 * 4096 + b mod 4096"
    by (rule div_mult_mod_eq [symmetric])+
  have le: "?lo \<le> ?hi"
  proof (cases "a div 4096 = b div 4096")
    case True
    then have "a mod 4096 \<le> b mod 4096" using decomp ab by linarith
    then show ?thesis using True by simp
  next
    case False
    then show ?thesis by auto
  qed
  have "?hi \<le> 4096" by auto
  have bounds: "i * 4096 + ?lo = max a (i * 4096)" "i * 4096 + ?hi = min b (Suc i * 4096)"
  proof -
    show "i * 4096 + ?lo = max a (i * 4096)"
    proof (cases "i = a div 4096")
      case True
      then show ?thesis using decomp(1) by simp
    next
      case False
      then have "a div 4096 < i" using i by simp
      then show ?thesis using False by (simp add: div_less_iff_less_mult max_def)
    qed
    show "i * 4096 + ?hi = min b (Suc i * 4096)"
    proof (cases "i = b div 4096")
      case True
      then show ?thesis using decomp(2) mod_less_divisor [of 4096 b] by (simp add: min_def)
    next
      case False
      then have "Suc i \<le> b div 4096" using i by simp
      then have "Suc i * 4096 \<le> b" by (simp add: less_eq_div_iff_mult_less_eq)
      then show ?thesis using False by simp
    qed
  qed
  have "?lo' \<le> ?hi'" using le lo hi by (simp only: word_le_nat_alt)
  then have n: "unat (?hi' - ?lo') = ?hi - ?lo"
    using lo hi by (simp only: unat_sub)
  have eq: "?lo' = of_nat ?lo" unfolding lo [symmetric] by (rule word_of_nat_unat32 [symmetric])
  have "snd (read_block M bbp inode offset len (offset div BLOCK_SIZE)
      ((offset + len) div BLOCK_SIZE) (of_nat i) (0, []))
      = load_bytes M (data_block_addr M bbp (data_block_num M bbp inode (of_nat i)) + of_nat ?lo)
          (?hi - ?lo)"
    by (simp only: read_block_def Let_def snd_conv append_Nil n) (simp only: eq)
  also have "\<dots> = map (file_byte M bbp inode) [i * 4096 + ?lo..<i * 4096 + ?hi]"
    by (rule load_block_file_bytes [OF le \<open>?hi \<le> 4096\<close>])
  finally show ?thesis unfolding bounds .
qed

text \<open>
  The loop of \<open>read_data\<close> returns exactly the requested part of the file, clipped at its end.
\<close>

lemma read_data_valid:
  assumes "valid_inode M bbp inode" and "buf \<noteq> NULL"
  shows "read_data M bbp inode offset buf len =
    (let bs = take (unat len) (drop (unat offset) (file_content M bbp inode))
     in (sint (of_nat (length bs) :: u32), bs))"
proof -
  let ?flen = "i_node_length M bbp inode"
  have guards: "\<not> inode_count M bbp \<le> inode" "\<not> sint inode < 0" "bbp \<noteq> NULL"
    "i_node_addr bbp inode \<noteq> NULL"
    using assms(1) by (auto simp: valid_inode_def)
  show ?thesis
  proof (cases "?flen \<le> offset")
    case True
    then have "unat ?flen \<le> unat offset" by (simp add: word_le_nat_alt)
    then show ?thesis using True guards assms(2) by (simp add: read_data_def Let_def)
  next
    case False
    define l where "l = (if ?flen - offset < len then ?flen - offset else len)"
    define a where "a = unat offset"
    have off: "unat offset < unat ?flen" using False by (simp add: word_le_nat_alt)
    then have "unat (?flen - offset) = unat ?flen - unat offset"
      using False by (intro unat_sub) simp
    then have l: "unat l = min (unat len) (unat ?flen - a)"
      by (auto simp: l_def a_def word_less_nat_alt)
    define b where "b = a + unat l"
    have b: "b \<le> unat ?flen" "a \<le> b" using l off by (auto simp: b_def a_def)
    then have small: "a + unat l < 4294967296"
      using unat_lt_word32 [of ?flen] unfolding b_def by linarith
    have div: "unat (offset div BLOCK_SIZE) = a div 4096" "unat ((offset + l) div BLOCK_SIZE) = b div 4096"
      using small by (simp_all add: unat_div_distrib a_def b_def unat_add_less)
    let ?cs = "map (\<lambda>i. snd (read_block M bbp inode offset l (offset div BLOCK_SIZE)
        ((offset + l) div BLOCK_SIZE) (of_nat i) (0, []))) [a div 4096..<Suc (b div 4096)]"
    have cs_eq: "?cs = map (\<lambda>i. map (file_byte M bbp inode) [max a (i * 4096)..<min b (Suc i * 4096)])
        [a div 4096..<Suc (b div 4096)]"
      unfolding a_def b_def using small read_block_bytes [of offset l _ M bbp inode]
      by (intro map_cong) (auto simp: a_def)
    have "concat ?cs = map (file_byte M bbp inode) [a..<b]"
      unfolding cs_eq by (rule concat_blocks) (use b in auto)
    also have "\<dots> = take (unat len) (drop (unat offset) (file_content M bbp inode))"
      using l b by (simp add: file_content_def take_map drop_map a_def [symmetric] b_def min_def)
    finally have cs: "concat ?cs = take (unat len) (drop (unat offset) (file_content M bbp inode))" .
    have "read_data M bbp inode offset buf len
        = (sint (of_nat (length (concat ?cs)) :: u32), concat ?cs)"
      using guards assms(2) False div
      by (simp add: read_data_def Let_def l_def [symmetric] fold_read_block del: upt_Suc)
    then show ?thesis by (simp only: cs Let_def)
  qed
qed

lemma read_data_invalid:
  assumes "\<not> valid_inode M bbp inode \<or> buf = NULL"
  shows "read_data M bbp inode offset buf len = (-1, [])"
  using assms by (auto simp: read_data_def valid_inode_def not_less Let_def)

section \<open>Looking a name up\<close>

lemma takeWhile_nonzero_iff:
  assumes "0 \<notin> set xs" and "length bs = n" and "length xs \<le> n"
  shows "takeWhile (\<lambda>b. b \<noteq> 0) bs = xs \<longleftrightarrow>
    (\<forall>i<length xs. bs ! i = xs ! i) \<and> (length xs < n \<longrightarrow> bs ! length xs = (0 :: byte))"
proof
  assume tw: "takeWhile (\<lambda>b. b \<noteq> 0) bs = xs"
  show "(\<forall>i<length xs. bs ! i = xs ! i) \<and> (length xs < n \<longrightarrow> bs ! length xs = 0)"
  proof (intro conjI allI impI)
    fix i assume "i < length xs"
    then show "bs ! i = xs ! i" using takeWhile_nth [of i "\<lambda>b. b \<noteq> 0" bs] tw by simp
  next
    assume "length xs < n"
    then show "bs ! length xs = 0"
      using nth_length_takeWhile [of "\<lambda>b. b \<noteq> 0" bs] tw assms(2) by simp
  qed
next
  assume r: "(\<forall>i<length xs. bs ! i = xs ! i) \<and> (length xs < n \<longrightarrow> bs ! length xs = 0)"
  have "takeWhile (\<lambda>b. b \<noteq> 0) bs = take (length xs) bs"
  proof (rule takeWhile_eq_take_P_nth)
    fix i assume "i < length xs" "i < length bs"
    then show "bs ! i \<noteq> 0" using r assms(1) by (metis nth_mem)
  next
    assume "length xs < length bs"
    then show "\<not> bs ! length xs \<noteq> 0" using r assms(2) by simp
  qed
  also have "\<dots> = xs" using r assms by (intro nth_equalityI) auto
  finally show "takeWhile (\<lambda>b. b \<noteq> 0) bs = xs" .
qed

text \<open>One comparison of the loop decides whether the entry carries the name.\<close>

lemma dentry_match:
  assumes f: "cstr f xs" and len: "0 < length xs" "length xs \<le> 32"
    and e: "cstr (at M (direntry_addr bbp (of_nat i))) ys"
  shows "((of_nat (length xs) :: u32) = 32 \<and> strncmp f (at M (direntry_addr bbp (of_nat i))) 32 = 0
      \<or> (of_nat (length xs) :: u32) = of_nat (length ys)
        \<and> strncmp f (at M (direntry_addr bbp (of_nat i))) (of_nat (length xs)) = 0)
    \<longleftrightarrow> dentry_name M bbp i = xs"
proof -
  let ?e = "at M (direntry_addr bbp (of_nat i))"
  have small: "length xs < 4294967296" "length ys < 4294967296" using f e by (auto simp: cstr_def)
  have lens: "(of_nat (length xs) :: u32) = 32 \<longleftrightarrow> length xs = 32"
    "(of_nat (length xs) :: u32) = of_nat (length ys) \<longleftrightarrow> length xs = length ys"
    using small by (simp_all add: word_unat_eq_iff of_nat_unat_small)
  have cmp: "strncmp f ?e (of_nat (length xs)) = 0 \<longleftrightarrow> (\<forall>i<length xs. ?e (of_nat i) = xs ! i)"
    using f small(1) by (intro strncmp_prefix_iff) (auto simp: cstr_def)
  have bytes: "load_bytes M (direntry_addr bbp (of_nat i)) 32 ! k = ?e (of_nat k)" if "k < 32" for k
    using that by (simp add: nth_load_bytes at_def)
  have name: "dentry_name M bbp i = xs \<longleftrightarrow>
      (\<forall>i<length xs. ?e (of_nat i) = xs ! i) \<and> (length xs < 32 \<longrightarrow> ?e (of_nat (length xs)) = 0)"
    unfolding dentry_name_def FILENAME_LEN_def
    using f len bytes by (subst takeWhile_nonzero_iff [where n = 32]) (auto simp: cstr_def)
  show ?thesis
  proof (cases "length xs = 32")
    case True
    then show ?thesis using lens cmp name by auto
  next
    case False
    have "length xs = length ys" if "\<forall>i<length xs. ?e (of_nat i) = xs ! i" "?e (of_nat (length xs)) = 0"
    proof -
      have "length ys = length xs"
      proof (rule cstr_prefix_unique [OF e that(2)])
        fix k assume "k < length xs"
        then show "?e (of_nat k) \<noteq> 0" using that(1) cstr_nth [OF f] by simp
      qed (rule small(1))
      then show ?thesis by simp
    qed
    moreover have "?e (of_nat (length xs)) = 0" if "length xs = length ys"
      using e that by (simp add: cstr_def)
    ultimately show ?thesis using False len lens cmp name by auto
  qed
qed

lemma dentry_loop_find:
  assumes f: "cstr f xs" and len: "0 < length xs" "length xs \<le> 32"
    and ends: "\<And>i. i \<in> set is \<Longrightarrow> \<exists>z. M (direntry_addr bbp (of_nat i) + z) = 0"
  shows "dentry_loop M bbp f (of_nat (length xs)) is
    = Some (map_option (\<lambda>i. direntries M bbp (of_nat i)) (find (\<lambda>i. dentry_name M bbp i = xs) is))"
  using ends
proof (induction "is")
  case (Cons i "is")
  obtain z where "at M (direntry_addr bbp (of_nat i)) z = 0"
    using Cons.prems [of i] by (auto simp: at_def)
  then obtain ys where ys: "cstr (at M (direntry_addr bbp (of_nat i))) ys"
    by (rule cstr_exists)
  note match = dentry_match [OF f len ys] and strlen_cstr [OF ys, simp]
  show ?case
  proof (cases "dentry_name M bbp i = xs")
    case True
    with match show ?thesis by (auto simp: Let_def FILENAME_LEN_def)
  next
    case False
    with match have "dentry_loop M bbp f (of_nat (length xs)) (i # is)
        = dentry_loop M bbp f (of_nat (length xs)) is"
      by (auto simp: Let_def FILENAME_LEN_def)
    with False Cons show ?thesis by simp
  qed
qed simp

lemma read_dentry_by_name_find:
  assumes "cstr f xs" and "0 < length xs" and "length xs \<le> 32" and "bbp \<noteq> NULL" and "names_end M bbp"
  shows "read_dentry_by_name M bbp (Some f)
    = Some (map_option (\<lambda>i. direntries M bbp (of_nat i))
        (find (\<lambda>i. dentry_name M bbp i = xs) [0..<63]))"
proof -
  have "\<exists>z. M (direntry_addr bbp (of_nat i) + z) = 0" if "i \<in> set [0..<63]" for i
    using assms(5) that by (auto simp: names_end_def MAX_DIRECTORY_NUMBER_def)
  moreover have "(of_nat (length xs) :: u32) \<noteq> 0"
    using assms(2,3) by (simp add: word_unat_eq_iff of_nat_unat_small)
  ultimately show ?thesis
    using dentry_loop_find [OF assms(1-3), of "[0..<63]" M bbp] strlen_cstr [OF assms(1)] assms(4)
    by (simp add: read_dentry_by_name_def MAX_DIRECTORY_NUMBER_def del: upt_Suc)
qed

section \<open>Open and read\<close>

lemma sint_small_nat: "n < 2147483648 \<Longrightarrow> sint (of_nat n :: u32) = int n"
  by (simp add: signed_of_nat signed_take_bit_int_eq_self)

text \<open>The state a sequence of \<open>file_read\<close> calls on one open file threads: the position changes, the rest does not.\<close>

record file_handle =
  fh_mem :: mem
  fh_bbp :: addr
  fh_inode :: u32
  fh_buf :: addr
  fh_pos :: u32

definition file_rd :: "u32 \<Rightarrow> file_handle \<Rightarrow> int \<times> byte list \<times> file_handle" where
  "file_rd n h =
     (let (r, bs, pos) = file_read (fh_mem h) (fh_bbp h) (fh_inode h) (fh_buf h) n (fh_pos h)
      in (r, bs, h\<lparr>fh_pos := pos\<rparr>))"

definition file_rest :: "file_handle \<Rightarrow> byte list" where
  "file_rest h = drop (unat (fh_pos h)) (file_content (fh_mem h) (fh_bbp h) (fh_inode h))"

text \<open>
  A handle on a regular file: the index node is valid and not 0 (which \<open>file_read\<close> refuses), the
  buffer is not null, and positions one chunk past the end do not reach the sign bit.
\<close>

definition file_ok :: "u32 \<Rightarrow> file_handle \<Rightarrow> bool" where
  "file_ok n h \<longleftrightarrow> valid_inode (fh_mem h) (fh_bbp h) (fh_inode h) \<and> fh_inode h \<noteq> 0 \<and> fh_buf h \<noteq> NULL
     \<and> (let len = unat (i_node_length (fh_mem h) (fh_bbp h) (fh_inode h))
        in len + unat n < 2147483648 \<and> unat (fh_pos h) < len + unat n)"

lemma file_rd_spec:
  assumes ok: "file_ok N h" and n: "n \<noteq> 0" "unat n \<le> unat N" and rd: "file_rd n h = (r, bs, h')"
  shows "r = int (length bs) \<and> bs = take (unat n) (file_rest h)
    \<and> file_rest h' = drop (unat n) (file_rest h) \<and> file_ok N h'"
proof -
  let ?len = "unat (i_node_length (fh_mem h) (fh_bbp h) (fh_inode h))"
  have v: "valid_inode (fh_mem h) (fh_bbp h) (fh_inode h)" "fh_inode h \<noteq> 0" "fh_buf h \<noteq> NULL"
    and small: "?len + unat n < 2147483648"
    using ok n(2) by (simp_all add: file_ok_def Let_def)
  have bbp: "fh_bbp h \<noteq> NULL" using v(1) by (simp add: valid_inode_def)
  have n0: "0 < unat n" using n(1) by (simp add: unat_gt_0)
  let ?bs = "take (unat n) (file_rest h)"
  have read: "read_data (fh_mem h) (fh_bbp h) (fh_inode h) (fh_pos h) (fh_buf h) n
      = (int (length ?bs), ?bs)"
    unfolding read_data_valid [OF v(1) v(3)] file_rest_def [symmetric] Let_def
    using small by (subst sint_small_nat) (auto simp: file_rest_def)
  show ?thesis
  proof (cases "unat (fh_pos h) < ?len")
    case True
    then have "0 < int (length ?bs)" using n0 by (simp add: file_rest_def)
    then have res: "r = int (length ?bs)" "bs = ?bs" "h' = h\<lparr>fh_pos := fh_pos h + n\<rparr>"
      using rd read v bbp unfolding file_rd_def file_read_def by (auto simp: Let_def)
    moreover have "unat (fh_pos h + n) = unat (fh_pos h) + unat n"
      using True small by (intro unat_add_less) linarith
    ultimately show ?thesis
      using ok True n(2) by (simp add: file_rest_def file_ok_def Let_def add.commute)
  next
    case False
    then have "file_rest h = []" by (simp add: file_rest_def)
    then have "r = 0" "bs = []" "h' = h"
      using rd read v bbp unfolding file_rd_def file_read_def by (auto simp: Let_def)
    then show ?thesis using \<open>file_rest h = []\<close> ok by simp
  qed
qed

interpretation file_source: byte_source "file_rd 1024" file_rest "file_ok 1024" 1024
proof
  fix h r bs h'
  assume "file_ok 1024 h" and "file_rd 1024 h = (r, bs, h')"
  then show "r = int (length bs) \<and> bs = take 1024 (file_rest h)
      \<and> file_rest h' = drop 1024 (file_rest h) \<and> file_ok 1024 h'"
    using file_rd_spec [of 1024 h 1024 r bs h'] by simp
qed simp

section \<open>A small image\<close>

text \<open>An image at \<open>0x1000\<close> with two index nodes and one file \<open>a\<close> that holds the five bytes \<open>hello\<close>.\<close>

definition sample_image :: mem where
  "sample_image = (\<lambda>_. 0)(0x1000 := 1, 0x1004 := 2, 0x1008 := 1, 0x1040 := 97, 0x1060 := 2,
     0x1064 := 1, 0x3000 := 5, 0x4000 := 104, 0x4001 := 101, 0x4002 := 108, 0x4003 := 108, 0x4004 := 111)"

lemma sample_names_end: "names_end sample_image 0x1000"
proof -
  have "list_all (\<lambda>i. sample_image (direntry_addr 0x1000 (of_nat i) + 63) = 0) [0..<63]"
    by code_simp
  then have "sample_image (direntry_addr 0x1000 (of_nat i) + of_nat 63) = 0" if "i < 63" for i
    using that by (simp add: list_all_iff)
  moreover have "63 < (64 :: nat)" by simp
  ultimately show ?thesis unfolding names_end_def MAX_DIRECTORY_NUMBER_def by blast
qed

lemma sample_name: "cstr (\<lambda>i. if i = 0 then 97 else 0) [97]"
  by (simp add: cstr_def)

lemma sample_valid: "valid_inode sample_image 0x1000 1"
  by (simp add: valid_inode_def inode_count_def load32_def sample_image_def i_node_addr_def
      BLOCK_SIZE_def)

lemma sample_length: "i_node_length sample_image 0x1000 1 = 5"
  by (simp add: i_node_length_def i_node_addr_def load32_def sample_image_def BLOCK_SIZE_def)

lemma sample_content: "file_content sample_image 0x1000 1 = [104, 101, 108, 108, 111]"
  by code_simp

section \<open>Properties\<close>

text \<open>C15: On an image whose names end, \<open>read_dentry_by_name\<close> returns for every name of 1 to 32 characters, and it returns the first of the 63 directory entries that carries exactly this name, or an error when no entry does; a name of all 32 characters has no terminator in the entry.\<close>

theorem read_dentry_by_name_first_match:
  assumes "cstr f xs" and "1 \<le> length xs" and "length xs \<le> 32" and "bbp \<noteq> NULL" and "names_end M bbp"
  shows "read_dentry_by_name M bbp (Some f)
    = Some (map_option (\<lambda>i. direntries M bbp (of_nat i))
        (find (\<lambda>i. dentry_name M bbp i = xs) [0..<63]))"
  by (rule read_dentry_by_name_find) (use assms in auto)

theorem read_dentry_by_name_first_match_witness:
  "\<exists>d. read_dentry_by_name sample_image 0x1000 (Some (\<lambda>i. if i = 0 then 97 else 0)) = Some (Some d)
    \<and> inode_num d = 1 \<and> filetype d = TYPE_FILE"
proof -
  have "find (\<lambda>i. dentry_name sample_image 0x1000 i = [97]) [0..<63] = Some 0"
  proof -
    have "dentry_name sample_image 0x1000 0 = [97]" by code_simp
    then show ?thesis by (simp add: upt_rec)
  qed
  then show ?thesis
    using read_dentry_by_name_first_match [OF sample_name _ _ _ sample_names_end]
    by (simp add: direntries_def direntry_addr_def load32_def sample_image_def TYPE_FILE_def Let_def)
qed

text \<open>C14: \<open>read_data\<close> with a valid index node delivers exactly the bytes of the file from \<open>offset\<close> on, at most \<open>length\<close> of them and clipped at the end of the file, across any number of data blocks, and returns their count; with an invalid index node or a null buffer it stores nothing and returns -1.\<close>

theorem read_data_slice:
  assumes "unat (i_node_length M bbp inode) < 2147483648"
  shows "read_data M bbp inode offset buf len =
    (if valid_inode M bbp inode \<and> buf \<noteq> NULL
     then let bs = take (unat len) (drop (unat offset) (file_content M bbp inode))
          in (int (length bs), bs)
     else (-1, []))"
proof (cases "valid_inode M bbp inode \<and> buf \<noteq> NULL")
  case True
  let ?bs = "take (unat len) (drop (unat offset) (file_content M bbp inode))"
  have "length ?bs < 2147483648" using assms by simp
  then have "sint (of_nat (length ?bs) :: u32) = int (length ?bs)" by (rule sint_small_nat)
  then show ?thesis using True read_data_valid [of M bbp inode buf offset len] by (simp only: Let_def) simp
next
  case False
  then show ?thesis using read_data_invalid [of M bbp inode buf offset len] by auto
qed

theorem read_data_slice_witness:
  "read_data sample_image 0x1000 1 2 0x9000 100 = (3, [108, 108, 111])"
proof -
  have "unat (i_node_length sample_image 0x1000 1) < 2147483648" by (simp add: sample_length)
  from read_data_slice [OF this, of 2 "0x9000" 100] show ?thesis
    by (simp add: sample_valid sample_content Let_def)
qed

text \<open>Opening a regular file by its name yields the index node of the first entry with that name; opening as a file any other entry, or a name that is missing, fails and leaves the descriptor as it was.\<close>

lemma file_open_finds:
  assumes "cstr f xs" and "1 \<le> length xs" and "length xs \<le> 32" and "bbp \<noteq> NULL" and "names_end M bbp"
  shows "file_open M bbp fd (Some f) = Some
    (case find (\<lambda>i. dentry_name M bbp i = xs) [0..<63] of
       None \<Rightarrow> (-1, fd)
     | Some i \<Rightarrow> if filetype (direntries M bbp (of_nat i)) = TYPE_FILE
                 then (0, inode_num (direntries M bbp (of_nat i))) else (-1, fd))"
proof -
  have "0 < length xs" using assms(2) by linarith
  note r = read_dentry_by_name_find [OF assms(1) this assms(3-5)]
  show ?thesis
    using assms(4) by (cases "find (\<lambda>i. dentry_name M bbp i = xs) [0..<63]")
      (simp_all add: file_open_def r del: upt_Suc)
qed

end
