(* ===== verification/Rtc.thy ===== *)
theory Rtc
  imports Pic Paging Filesystem
begin

text \<open>
  The real-time clock driver (\<^verbatim>\<open>rtc.c\<close>). The physical clock runs at \<open>physical_rate\<close>; each terminal has a
  virtual clock with its own rate and a countdown that \<open>rtc_handler\<close> decrements.

  \<open>rtc_read\<close> spins until interrupts have counted its terminal's countdown to zero. The interrupts that
  arrive while it spins are an argument, a list of state changes; the loop returns \<open>None\<close> when the list is
  used up before the condition holds, that is while the call is still waiting.
\<close>

section \<open>Definitions\<close>

definition REGISTER_A :: byte where
  "REGISTER_A = 0x8A"

definition REGISTER_B :: byte where
  "REGISTER_B = 0x8B"

definition REGISTER_C :: byte where
  "REGISTER_C = 0x8C"

definition IRQ_NUMBER_REAL_TIME_CLOCK :: u32 where
  "IRQ_NUMBER_REAL_TIME_CLOCK = 8"

definition count_down :: "term_ptr \<Rightarrow> kstate \<Rightarrow> kstate" where
  "count_down t s =
     (if 0 < virtual_count (terminals s t)
      then upd_terminal t (\<lambda>t. t\<lparr>virtual_count := virtual_count t - 1\<rparr>) s else s)"

text \<open>The byte \<open>rtc_handler\<close> reads from register C is thrown away.\<close>

definition rtc_handler :: "kstate \<Rightarrow> kstate" where
  "rtc_handler s =
     (let s = s\<lparr>rtc_read_flag := 0\<rparr>;
          s = outb REGISTER_C 0x70 s;
          s = count_down Terminal_1 s;
          s = count_down Terminal_2 s;
          s = count_down Terminal_3 s
      in send_eoi IRQ_NUMBER_REAL_TIME_CLOCK s)"

definition rtc_enable_pie :: "kstate \<Rightarrow> kstate" where
  "rtc_enable_pie s =
     (let s = outb REGISTER_B 0x70 s;
          prev = inb 0x71 s;
          s = outb REGISTER_B 0x70 s
      in outb (prev OR 0x40) 0x71 s)"

definition rtc_disable_pie :: "kstate \<Rightarrow> kstate" where
  "rtc_disable_pie s =
     (let s = outb REGISTER_B 0x70 s;
          prev = inb 0x71 s;
          s = outb REGISTER_B 0x70 s
      in outb (prev AND 0xBF) 0x71 s)"

definition rtc_set_interrupt_rate :: "byte \<Rightarrow> kstate \<Rightarrow> kstate" where
  "rtc_set_interrupt_rate rate s =
     (let s = outb REGISTER_A 0x70 s;
          prev = inb 0x71 s;
          s = outb REGISTER_A 0x70 s
      in outb ((prev AND 0xF0) OR rate) 0x71 s)"

text \<open>\<open>rtc_open\<close> returns the result, the value left in \<open>*fd\<close> and the state.\<close>

definition rtc_open :: "u32 \<Rightarrow> cptr option \<Rightarrow> kstate \<Rightarrow> (int \<times> u32 \<times> kstate) option" where
  "rtc_open fd fname s =
     (if fname = None then Some (-1, fd, s)
      else if boot_block_pointer s = NULL then Some (-1, fd, s)
      else case read_dentry_by_name (view s) (boot_block_pointer s) fname of
             None \<Rightarrow> None
           | Some None \<Rightarrow> Some (-1, fd, s)
           | Some (Some dentry) \<Rightarrow>
               if filetype dentry \<noteq> TYPE_FILE then Some (-1, fd, s)
               else let s = rtc_enable_pie s;
                        s = s\<lparr>physical_rate := 1024\<rparr>;
                        s = rtc_set_interrupt_rate 0x06 s;
                        s = upd_terminal (active_terminal s) (\<lambda>t. t\<lparr>virtual_rate := 2\<rparr>) s;
                        s = enable_irq IRQ_NUMBER_REAL_TIME_CLOCK s
                    in Some (0, inode_num dentry, s))"

definition rtc_close :: "u32 \<Rightarrow> kstate \<Rightarrow> int \<times> u32 \<times> kstate" where
  "rtc_close fd s = (0, fd, rtc_disable_pie s)"

text \<open>Division truncates toward zero; both rates are positive in every reachable state.\<close>

definition c_div :: "int \<Rightarrow> int \<Rightarrow> int" where
  "c_div a b = sgn a * sgn b * (\<bar>a\<bar> div \<bar>b\<bar>)"

definition rtc_read_start :: "kstate \<Rightarrow> kstate" where
  "rtc_read_start s =
     upd_terminal (active_terminal s)
       (\<lambda>t. t\<lparr>virtual_count := c_div (physical_rate s) (virtual_rate t)\<rparr>) s"

definition rtc_read :: "(kstate \<Rightarrow> kstate) list \<Rightarrow> kstate \<Rightarrow> (int \<times> kstate) option" where
  "rtc_read interrupts s =
     (case spin_until (\<lambda>s. virtual_count (terminals s (active_terminal s)) = 0) interrupts
             (rtc_read_start s) of
        None \<Rightarrow> None
      | Some s \<Rightarrow> Some (0, s))"

definition rtc_read_device :: "(kstate \<Rightarrow> kstate) list \<Rightarrow> kstate \<Rightarrow> (int \<times> kstate) option" where
  "rtc_read_device interrupts s =
     (case spin_until (\<lambda>s. rtc_read_flag s = 0) interrupts (s\<lparr>rtc_read_flag := 1\<rparr>) of
        None \<Rightarrow> None
      | Some s \<Rightarrow> Some (0, s))"

text \<open>
  The search for a power of two in \<open>rtc_write\<close>; \<open>rate\<close> is the \<open>int32_t\<close> the buffer holds. The search starts
  at 2 and doubles, so the second half of the loop condition here always holds.
\<close>

function rtc_write_loop :: "int \<Rightarrow> int \<Rightarrow> kstate \<Rightarrow> int \<times> kstate" where
  "rtc_write_loop i rate s =
     (if i < 1030 \<and> 0 < i then
        if i = rate then
          let s = upd_terminal (active_terminal s) (\<lambda>t. t\<lparr>virtual_rate := rate\<rparr>) s;
              s = upd_terminal (active_terminal s)
                    (\<lambda>t. t\<lparr>virtual_count := c_div (physical_rate s) (virtual_rate t)\<rparr>) s
          in (0, s)
        else rtc_write_loop (i * 2) rate s
      else (-1, s))"
  by pat_completeness auto
termination
  by (relation "measure (\<lambda>(i, rate, s). nat (1030 - i))") auto

declare rtc_write_loop.simps [simp del]

definition rtc_write :: "addr \<Rightarrow> kstate \<Rightarrow> int \<times> kstate" where
  "rtc_write buf s =
     (if buf = NULL then (-1, s)
      else let rate = sint (load32 (view s) buf)
           in if rate < 2 \<or> 1024 < rate then (-1, s) else rtc_write_loop 2 rate s)"

text \<open>The \<open>switch\<close> of \<open>rtc_write_device\<close>: the code of register A for each rate.\<close>

definition rtc_rate_code :: "int \<Rightarrow> byte option" where
  "rtc_rate_code rate = map_of [(2, 0x0F), (4, 0x0E), (8, 0x0D), (16, 0x0C), (32, 0x0B), (64, 0x0A),
     (128, 0x09), (256, 0x08), (512, 0x07), (1024, 0x06)] rate"

definition rtc_write_device :: "addr \<Rightarrow> kstate \<Rightarrow> int \<times> kstate" where
  "rtc_write_device buf s =
     (if buf = NULL then (-1, s)
      else let rate = sint (load32 (view s) buf)
           in if rate < 2 \<or> 1024 < rate then (-1, s)
              else case rtc_rate_code rate of
                     None \<Rightarrow> (-1, s)
                   | Some code \<Rightarrow> (0, (rtc_set_interrupt_rate code s)\<lparr>physical_rate := rate\<rparr>))"

section \<open>The handler\<close>

lemma count_down_terminals:
  "terminals (count_down t s) u =
     (if u = t \<and> 0 < virtual_count (terminals s t)
      then (terminals s t)\<lparr>virtual_count := virtual_count (terminals s t) - 1\<rparr> else terminals s u)"
  by (simp add: count_down_def)

lemma send_eoi_terminals [simp]:
  "terminals (send_eoi n s) = terminals s" "active_terminal (send_eoi n s) = active_terminal s"
  "rtc_read_flag (send_eoi n s) = rtc_read_flag s" "pages (send_eoi n s) = pages s"
  by (simp_all add: send_eoi_def send_eoi_master_def outb_def)

lemma count_down_frame [simp]:
  "active_terminal (count_down t s) = active_terminal s" "pages (count_down t s) = pages s"
  "rtc_read_flag (count_down t s) = rtc_read_flag s"
  by (simp_all add: count_down_def)

definition ticked :: "terminal_t \<Rightarrow> terminal_t" where
  "ticked t = (if 0 < virtual_count t then t\<lparr>virtual_count := virtual_count t - 1\<rparr> else t)"

lemma rtc_handler_terminals: "terminals (rtc_handler s) u = ticked (terminals s u)"
  by (cases u) (simp_all add: rtc_handler_def Let_def count_down_terminals ticked_def)

lemma rtc_handler_frame [simp]:
  "active_terminal (rtc_handler s) = active_terminal s" "pages (rtc_handler s) = pages s"
  "rtc_read_flag (rtc_handler s) = 0"
  by (simp_all add: rtc_handler_def Let_def outb_def)

lemma spin_rtc_handlers:
  assumes "virtual_count (terminals s (active_terminal s)) = int k"
  shows "spin_until (\<lambda>s. virtual_count (terminals s (active_terminal s)) = 0) (replicate n rtc_handler) s
    = (if k \<le> n then Some ((rtc_handler ^^ k) s) else None)"
  using assms
proof (induction n arbitrary: s k)
  case (Suc n)
  show ?case
  proof (cases k)
    case (Suc j)
    have "virtual_count (terminals (rtc_handler s) (active_terminal (rtc_handler s))) = int j"
      using Suc.prems Suc by (simp add: rtc_handler_terminals ticked_def)
    from Suc.IH [OF this] show ?thesis
      using Suc.prems Suc by (simp add: funpow_Suc_right del: funpow.simps)
  qed (use Suc.prems in simp)
qed auto

section \<open>Rates\<close>

lemma rtc_write_loop_powers:
  assumes "0 < i" and "2 ^ n * i \<ge> 1030"
  shows "fst (rtc_write_loop i rate s) = 0 \<longleftrightarrow> rate < 1030 \<and> (\<exists>k. rate = i * 2 ^ k)"
  using assms
proof (induction n arbitrary: i)
  case 0
  then have "\<not> i < 1030" by simp
  moreover have "i \<le> i * 2 ^ k" for k :: nat
  proof -
    have "(1 :: int) \<le> 2 ^ k" by simp
    then show ?thesis using 0 by (simp add: mult_le_cancel_left1)
  qed
  ultimately show ?case by (subst rtc_write_loop.simps) (auto simp: not_less intro: order_trans)
next
  case (Suc n)
  have mono: "i \<le> i * 2 ^ k" for k :: nat
    using Suc.prems by (simp add: mult_le_cancel_left1)
  show ?case
  proof (cases "i < 1030 \<and> i \<noteq> rate")
    case True
    have "fst (rtc_write_loop i rate s) = fst (rtc_write_loop (i * 2) rate s)"
      using True Suc.prems by (subst rtc_write_loop.simps) simp
    also have "\<dots> = 0 \<longleftrightarrow> rate < 1030 \<and> (\<exists>k. rate = i * 2 * 2 ^ k)"
      using Suc by (intro Suc.IH) auto
    also have "(\<exists>k. rate = i * 2 * 2 ^ k) \<longleftrightarrow> (\<exists>k. rate = i * 2 ^ k)"
    proof
      assume "\<exists>k. rate = i * 2 ^ k"
      then obtain k where k: "rate = i * 2 ^ k" by blast
      with True obtain j where "k = Suc j" by (cases k) auto
      then show "\<exists>k. rate = i * 2 * 2 ^ k" using k by (auto simp: algebra_simps)
    next
      assume "\<exists>k. rate = i * 2 * 2 ^ k"
      then show "\<exists>k. rate = i * 2 ^ k" by (metis mult.assoc power_Suc)
    qed
    finally show ?thesis .
  next
    case False
    have "rate < 1030 \<and> (\<exists>k. rate = i * 2 ^ k) \<longleftrightarrow> i < 1030"
    proof (cases "i < 1030")
      case True
      with False have "rate = i" by simp
      then show ?thesis using True by (auto intro: exI [of _ 0])
    next
      case False
      then show ?thesis using mono by (auto simp: not_less intro: order_trans)
    qed
    then show ?thesis using False Suc.prems by (subst rtc_write_loop.simps) (auto simp: Let_def)
  qed
qed

definition set_virtual_rate :: "int \<Rightarrow> kstate \<Rightarrow> kstate" where
  "set_virtual_rate rate s = upd_terminal (active_terminal s)
     (\<lambda>t. t\<lparr>virtual_rate := rate, virtual_count := c_div (physical_rate s) rate\<rparr>) s"

lemma rtc_write_loop_result:
  "rtc_write_loop i rate s = (if fst (rtc_write_loop i rate s) = 0 then (0, set_virtual_rate rate s) else (-1, s))"
proof (induction i rate s rule: rtc_write_loop.induct)
  case (1 i rate s)
  show ?case
  proof (cases "i < 1030 \<and> 0 < i \<and> i \<noteq> rate")
    case True
    then have "rtc_write_loop i rate s = rtc_write_loop (i * 2) rate s"
      by (subst rtc_write_loop.simps) simp
    then show ?thesis using 1 True by simp
  next
    case False
    then show ?thesis
      by (subst (1 2) rtc_write_loop.simps) (auto simp: set_virtual_rate_def Let_def upd_terminal_def)
  qed
qed

lemma power_range:
  assumes "2 \<le> rate" and "rate \<le> 1024"
  shows "rate < 1030 \<and> (\<exists>k. rate = 2 * 2 ^ k) \<longleftrightarrow> (\<exists>k\<in>{1..10}. rate = (2 :: int) ^ k)"
proof
  assume "rate < 1030 \<and> (\<exists>k. rate = 2 * 2 ^ k)"
  then obtain k where k: "rate = 2 ^ Suc k" by auto
  have "Suc k \<le> 10"
  proof (rule ccontr)
    assume "\<not> Suc k \<le> 10"
    then have "(2 :: int) ^ 11 \<le> 2 ^ Suc k" by (intro power_increasing) auto
    then show False using k assms by simp
  qed
  then show "\<exists>k\<in>{1..10}. rate = 2 ^ k" using k by (intro bexI [of _ "Suc k"]) auto
next
  assume "\<exists>k\<in>{1..10}. rate = 2 ^ k"
  then obtain k :: nat where "1 \<le> k" "rate = 2 ^ k" by auto
  then have "rate = 2 * 2 ^ (k - 1)" by (metis One_nat_def Suc_pred power_Suc not_gr_zero not_one_le_zero)
  then show "rate < 1030 \<and> (\<exists>k. rate = 2 * 2 ^ k)" using assms by auto
qed

section \<open>Properties\<close>

text \<open>C32: \<open>rtc_write\<close> accepts exactly the rates that are powers of two from 2 to 1024. Then it sets the virtual rate of the running terminal, and its countdown to the number of physical interrupts of one virtual period; any other rate, or a null buffer, is refused and changes nothing.\<close>

theorem rtc_write_powers_of_two:
  "rtc_write buf s =
    (let rate = sint (load32 (view s) buf)
     in if buf \<noteq> NULL \<and> (\<exists>k\<in>{1..10::nat}. rate = 2 ^ k) then (0, set_virtual_rate rate s) else (-1, s))"
proof -
  define rate where "rate = sint (load32 (view s) buf)"
  show ?thesis
  proof (cases "buf = NULL \<or> rate < 2 \<or> 1024 < rate")
    case True
    have "2 \<le> (2 :: int) ^ k \<and> (2 :: int) ^ k \<le> 1024" if "k \<in> {1..10}" for k :: nat
      using power_increasing [of 1 k "2 :: int"] power_increasing [of k 10 "2 :: int"] that by auto
    then have "buf = NULL \<or> \<not> (\<exists>k\<in>{1..10::nat}. rate = 2 ^ k)" using True by fastforce
    then show ?thesis using True by (auto simp: rtc_write_def Let_def rate_def)
  next
    case False
    then have "fst (rtc_write_loop 2 rate s) = 0 \<longleftrightarrow> (\<exists>k\<in>{1..10::nat}. rate = 2 ^ k)"
      using rtc_write_loop_powers [of 2 10 rate s] power_range [of rate] by simp
    then show ?thesis
      using False rtc_write_loop_result [of 2 rate s] by (simp add: rtc_write_def Let_def rate_def)
  qed
qed

text \<open>\<open>rtc_read\<close> on a terminal with virtual rate \<open>v\<close> returns after exactly \<open>physical_rate / v\<close> clock interrupts: with fewer it is still waiting, with as many or more it has returned 0 after that number of them.\<close>

lemma rtc_read_waits_one_period:
  assumes "0 < virtual_rate (terminals s (active_terminal s))" and "0 \<le> physical_rate s"
  shows "rtc_read (replicate n rtc_handler) s =
    (let k = nat (physical_rate s div virtual_rate (terminals s (active_terminal s)))
     in if k \<le> n then Some (0, (rtc_handler ^^ k) (rtc_read_start s)) else None)"
proof -
  let ?v = "virtual_rate (terminals s (active_terminal s))"
  have "c_div (physical_rate s) ?v = physical_rate s div ?v"
    using assms by (cases "physical_rate s = 0") (auto simp: c_div_def)
  moreover have "0 \<le> physical_rate s div ?v" using assms by (simp add: pos_imp_zdiv_nonneg_iff)
  ultimately have "virtual_count (terminals (rtc_read_start s) (active_terminal (rtc_read_start s)))
      = int (nat (physical_rate s div ?v))"
    by (simp add: rtc_read_start_def)
  from spin_rtc_handlers [OF this, of n] show ?thesis by (simp add: rtc_read_def Let_def)
qed

end
