(* ===== verification/File_Descriptor.thy ===== *)
theory File_Descriptor
  imports Terminal Rtc
begin

text \<open>
  The file descriptor table of a process (\<^verbatim>\<open>general_file.c\<close>): eight descriptors, 0 and 1 for the terminal,
  the others for files, directories and the clock, and the dispatch of \<open>read\<close> and \<open>write\<close> through the
  operation tables of \<^verbatim>\<open>filesystem.c\<close> and \<^verbatim>\<open>terminal.c\<close>.

  The table is the first field of a process control block and the code indexes it without a bound
  check when it is full; so \<open>file_descriptor_table_open\<close> works on the whole block.
\<close>

section \<open>Definitions\<close>

definition init_fd :: "nat \<Rightarrow> file_descriptor_t" where
  "init_fd i = \<lparr>file_ops = (if i = 0 then Ops_stdin else if i = 1 then Ops_stdout else Ops_null),
     inode = -1, file_pos = 0, flags = 0\<rparr>"

definition file_descriptor_table_init :: "pcb_t \<Rightarrow> int \<times> pcb_t" where
  "file_descriptor_table_init pcb =
     (0, pcb\<lparr>file_descriptor_array := map init_fd [0..<MAX_NUM_FILES]\<rparr>)"

text \<open>The search for a free descriptor; the result is \<open>MAX_NUM_FILES\<close> when there is none.\<close>

function free_fd :: "file_descriptor_t list \<Rightarrow> nat \<Rightarrow> nat" where
  "free_fd tab fd_num =
     (if fd_num < MAX_NUM_FILES \<and> flags (tab ! fd_num) = 1 then free_fd tab (Suc fd_num) else fd_num)"
  by pat_completeness auto
termination
  by (relation "measure (\<lambda>(tab, n). MAX_NUM_FILES - n)") auto

declare free_fd.simps [simp del]

text \<open>
  \<open>fd_table[fd_num].flags = 1\<close>. Behind the eight descriptors of 16 bytes lie the four words from
  \<open>current_pid\<close> to \<open>current_ebp\<close>: the flags of a ninth descriptor would be \<open>current_ebp\<close>.
\<close>

definition mark_fd :: "nat \<Rightarrow> pcb_t \<Rightarrow> pcb_t" where
  "mark_fd n pcb =
     (if n < MAX_NUM_FILES
      then pcb\<lparr>file_descriptor_array := (file_descriptor_array pcb)[n := (file_descriptor_array pcb ! n)\<lparr>flags := 1\<rparr>]\<rparr>
      else pcb\<lparr>current_ebp := 1\<rparr>)"

definition set_fd :: "nat \<Rightarrow> file_ops_ptr \<Rightarrow> u32 \<Rightarrow> pcb_t \<Rightarrow> pcb_t" where
  "set_fd n ops i pcb = pcb\<lparr>file_descriptor_array := (file_descriptor_array pcb)
     [n := (file_descriptor_array pcb ! n)\<lparr>file_ops := ops, inode := i, file_pos := 0\<rparr>]\<rparr>"

definition file_descriptor_table_open :: "mem \<Rightarrow> addr \<Rightarrow> cptr option \<Rightarrow> pcb_t \<Rightarrow> (int \<times> pcb_t) option" where
  "file_descriptor_table_open M bbp fname pcb =
     (let fd_num = free_fd (file_descriptor_array pcb) 2;
          pcb = mark_fd fd_num pcb
      in if fd_num = MAX_NUM_FILES then Some (-1, pcb)
         else case read_dentry_by_name M bbp fname of
                None \<Rightarrow> None
              | Some None \<Rightarrow> Some (-1, pcb)
              | Some (Some d) \<Rightarrow>
                  Some (int fd_num,
                    if filetype d = TYPE_FILE then set_fd fd_num Ops_file (inode_num d) pcb
                    else if filetype d = TYPE_DIRECTORY then set_fd fd_num Ops_dir (inode_num d) pcb
                    else if filetype d = TYPE_RTC then set_fd fd_num Ops_rtc (inode_num d) pcb
                    else pcb))"

definition file_descriptor_table_close :: "int \<Rightarrow> pcb_t \<Rightarrow> int \<times> pcb_t" where
  "file_descriptor_table_close fd pcb =
     (if fd < 0 \<or> int MAX_NUM_FILES \<le> fd then (-1, pcb)
      else let tab = file_descriptor_array pcb; e = tab ! nat fd; (r, i) = file_close (inode e)
           in if r = -1 then (-1, pcb)
              else (0, pcb\<lparr>file_descriptor_array :=
                     tab[nat fd := \<lparr>file_ops = Ops_null, inode = i, file_pos = 0, flags = 0\<rparr>]\<rparr>))"

text \<open>Set the position of a descriptor, as \<open>read\<close> does through \<open>&fd_table[fd].file_pos\<close>.\<close>

definition set_pos :: "nat \<Rightarrow> u32 \<Rightarrow> pcb_t \<Rightarrow> pcb_t" where
  "set_pos n pos pcb = pcb\<lparr>file_descriptor_array := (file_descriptor_array pcb)
     [n := (file_descriptor_array pcb ! n)\<lparr>file_pos := pos\<rparr>]\<rparr>"

text \<open>
  \<open>read\<close> on descriptor \<open>fd\<close> of process \<open>pid\<close>: the bytes that \<open>file_read\<close> and \<open>dir_read\<close> deliver are stored at
  \<open>buf\<close> through the page tables.
\<close>

definition file_descriptor_table_read ::
  "(kstate \<Rightarrow> kstate) list \<Rightarrow> u32 \<Rightarrow> int \<Rightarrow> addr \<Rightarrow> u32 \<Rightarrow> kstate \<Rightarrow> (int \<times> kstate) option"
where
  "file_descriptor_table_read interrupts pid fd buf len s =
     (if fd < 0 \<or> int MAX_NUM_FILES \<le> fd then Some (-1, s)
      else let e = file_descriptor_array (pcb_of pid s) ! nat fd
           in case file_ops e of
                Ops_null \<Rightarrow> Some (-1, s)
              | Ops_stdin \<Rightarrow> terminal_read interrupts buf len s
              | Ops_stdout \<Rightarrow> Some (-1, s)
              | Ops_file \<Rightarrow>
                  let (r, bs, pos) = file_read (view s) (boot_block_pointer s) (inode e) buf len (file_pos e)
                  in Some (r, upd_pcb pid (set_pos (nat fd) pos) (vstore_bytes buf bs s))
              | Ops_dir \<Rightarrow>
                  let (r, bs, pos) = dir_read (view s) (boot_block_pointer s) (inode e) buf len (file_pos e)
                  in Some (r, upd_pcb pid (set_pos (nat fd) pos) (vstore_bytes buf bs s))
              | Ops_rtc \<Rightarrow> rtc_read interrupts s)"

definition file_descriptor_table_write :: "u32 \<Rightarrow> int \<Rightarrow> addr \<Rightarrow> u32 \<Rightarrow> kstate \<Rightarrow> int \<times> kstate" where
  "file_descriptor_table_write pid fd buf len s =
     (if fd < 0 \<or> int MAX_NUM_FILES \<le> fd then (-1, s)
      else let e = file_descriptor_array (pcb_of pid s) ! nat fd
           in case file_ops e of
                Ops_null \<Rightarrow> (-1, s)
              | Ops_stdin \<Rightarrow> (-1, s)
              | Ops_stdout \<Rightarrow> terminal_write buf len s
              | Ops_file \<Rightarrow> (file_write (inode e) buf len (file_pos e), s)
              | Ops_dir \<Rightarrow> (dir_write (inode e) buf len (file_pos e), s)
              | Ops_rtc \<Rightarrow> rtc_write buf s)"

section \<open>Well-formed tables\<close>

text \<open>
  Eight descriptors, the first two on the terminal and never closed (their index node is -1), each flag
  0 or 1, and a closed descriptor without operations.
\<close>

definition fd_table_ok :: "pcb_t \<Rightarrow> bool" where
  "fd_table_ok pcb \<longleftrightarrow>
     (let tab = file_descriptor_array pcb
      in length tab = MAX_NUM_FILES
         \<and> file_ops (tab ! 0) = Ops_stdin \<and> inode (tab ! 0) = -1
         \<and> file_ops (tab ! 1) = Ops_stdout \<and> inode (tab ! 1) = -1
         \<and> (\<forall>i. 2 \<le> i \<and> i < MAX_NUM_FILES \<longrightarrow>
              file_ops (tab ! i) \<notin> {Ops_stdin, Ops_stdout}
              \<and> (flags (tab ! i) = 0 \<longrightarrow> file_ops (tab ! i) = Ops_null)))"

lemma free_fd_spec:
  "n \<le> 8 \<Longrightarrow> n \<le> free_fd tab n \<and> free_fd tab n \<le> 8
     \<and> (\<forall>i. n \<le> i \<and> i < free_fd tab n \<longrightarrow> flags (tab ! i) = 1)
     \<and> (free_fd tab n < 8 \<longrightarrow> flags (tab ! free_fd tab n) \<noteq> 1)"
proof (induction tab n rule: free_fd.induct)
  case (1 tab n)
  show ?case
  proof (cases "n < 8 \<and> flags (tab ! n) = 1")
    case True
    then have step: "free_fd tab n = free_fd tab (Suc n)"
      by (subst free_fd.simps) (simp add: MAX_NUM_FILES_def)
    have IH: "Suc n \<le> free_fd tab (Suc n) \<and> free_fd tab (Suc n) \<le> 8
        \<and> (\<forall>i. Suc n \<le> i \<and> i < free_fd tab (Suc n) \<longrightarrow> flags (tab ! i) = 1)
        \<and> (free_fd tab (Suc n) < 8 \<longrightarrow> flags (tab ! free_fd tab (Suc n)) \<noteq> 1)"
      using 1 True by (simp add: MAX_NUM_FILES_def)
    then show ?thesis unfolding step using True by (metis Suc_leD le_antisym not_less_eq_eq)
  next
    case False
    then have "free_fd tab n = n" by (subst free_fd.simps) (auto simp: MAX_NUM_FILES_def)
    then show ?thesis using False "1.prems" by auto
  qed
qed

lemma free_fd_eqI:
  assumes "2 \<le> n" and "n < 8" and "\<forall>i. 2 \<le> i \<and> i < n \<longrightarrow> flags (tab ! i) = 1" and "flags (tab ! n) \<noteq> 1"
  shows "free_fd tab 2 = n"
proof -
  let ?m = "free_fd tab 2"
  have m: "2 \<le> ?m" "\<forall>i. 2 \<le> i \<and> i < ?m \<longrightarrow> flags (tab ! i) = 1" "?m < 8 \<longrightarrow> flags (tab ! ?m) \<noteq> 1"
    using free_fd_spec [of 2 tab] by auto
  have "\<not> ?m < n" using m(1,3) assms(2,3) by auto
  moreover have "\<not> n < ?m" using m(2) assms(1,4) by blast
  ultimately show ?thesis by linarith
qed

lemma table_init_ok: "fd_table_ok (snd (file_descriptor_table_init pcb))"
  by (auto simp: fd_table_ok_def file_descriptor_table_init_def init_fd_def Let_def MAX_NUM_FILES_def)

lemma table_update_ok:
  assumes "fd_table_ok pcb" and "2 \<le> n" and "n < 8" and "file_ops e \<notin> {Ops_stdin, Ops_stdout}"
    and "flags e = 0 \<longrightarrow> file_ops e = Ops_null"
  shows "fd_table_ok (pcb\<lparr>file_descriptor_array := (file_descriptor_array pcb)[n := e]\<rparr>)"
  using assms by (auto simp: fd_table_ok_def Let_def MAX_NUM_FILES_def nth_list_update)

definition ops_of_type :: "u32 \<Rightarrow> file_ops_ptr" where
  "ops_of_type ft = (if ft = TYPE_FILE then Ops_file else if ft = TYPE_DIRECTORY then Ops_dir else Ops_rtc)"

definition known_type :: "u32 \<Rightarrow> bool" where
  "known_type ft \<longleftrightarrow> ft = TYPE_FILE \<or> ft = TYPE_DIRECTORY \<or> ft = TYPE_RTC"

text \<open>The descriptor a successful open installs.\<close>

definition opened_fd :: "dir_entry_t \<Rightarrow> file_descriptor_t" where
  "opened_fd d = \<lparr>file_ops = ops_of_type (filetype d), inode = inode_num d, file_pos = 0, flags = 1\<rparr>"

lemma open_found:
  assumes "fd_table_ok pcb" and "free_fd (file_descriptor_array pcb) 2 = n" and "n < 8"
    and "read_dentry_by_name M bbp fname = Some (Some d)" and "known_type (filetype d)"
  shows "file_descriptor_table_open M bbp fname pcb
    = Some (int n, pcb\<lparr>file_descriptor_array := (file_descriptor_array pcb)[n := opened_fd d]\<rparr>)"
proof -
  have "n < length (file_descriptor_array pcb)"
    using assms(1,3) by (simp add: fd_table_ok_def Let_def MAX_NUM_FILES_def)
  then have eq: "set_fd n ops i (mark_fd n pcb) = pcb\<lparr>file_descriptor_array := (file_descriptor_array pcb)
      [n := \<lparr>file_ops = ops, inode = i, file_pos = 0, flags = 1\<rparr>]\<rparr>" for ops i
    using assms(3) by (cases "file_descriptor_array pcb ! n") (simp add: set_fd_def mark_fd_def MAX_NUM_FILES_def)
  show ?thesis
    using assms by (auto simp: file_descriptor_table_open_def Let_def MAX_NUM_FILES_def eq opened_fd_def
        ops_of_type_def known_type_def)
qed

lemma open_missing:
  assumes "free_fd (file_descriptor_array pcb) 2 = n" and "n < 8"
    and "read_dentry_by_name M bbp fname = Some None"
  shows "file_descriptor_table_open M bbp fname pcb = Some (-1, mark_fd n pcb)"
  using assms by (simp add: file_descriptor_table_open_def Let_def MAX_NUM_FILES_def)

lemma open_full:
  assumes "free_fd (file_descriptor_array pcb) 2 = 8"
  shows "file_descriptor_table_open M bbp fname pcb = Some (-1, pcb\<lparr>current_ebp := 1\<rparr>)"
  using assms by (simp add: file_descriptor_table_open_def Let_def mark_fd_def MAX_NUM_FILES_def)

lemma close_spec:
  assumes "fd_table_ok pcb" and "0 \<le> fd" and "fd < 8"
  shows "file_descriptor_table_close fd pcb
    = (if inode (file_descriptor_array pcb ! nat fd) = -1 then (-1, pcb)
       else (0, pcb\<lparr>file_descriptor_array := (file_descriptor_array pcb)
              [nat fd := \<lparr>file_ops = Ops_null, inode = -1, file_pos = 0, flags = 0\<rparr>]\<rparr>))"
  using assms by (simp add: file_descriptor_table_close_def file_close_def Let_def MAX_NUM_FILES_def)

lemma close_table_ok:
  assumes "fd_table_ok pcb"
  shows "fd_table_ok (snd (file_descriptor_table_close fd pcb))"
proof (cases "0 \<le> fd \<and> fd < 8 \<and> inode (file_descriptor_array pcb ! nat fd) \<noteq> -1")
  case True
  have "nat fd \<noteq> 0" "nat fd \<noteq> 1"
    using True assms by (auto simp: fd_table_ok_def Let_def)
  then have "2 \<le> nat fd" "nat fd < 8" using True by auto
  then show ?thesis
    using True close_spec [OF assms, of fd] table_update_ok [OF assms, of "nat fd"] by simp
next
  case False
  then have "snd (file_descriptor_table_close fd pcb) = pcb"
    by (auto simp: file_descriptor_table_close_def file_close_def Let_def MAX_NUM_FILES_def)
  then show ?thesis using assms by simp
qed

lemma open_table_ok:
  assumes "fd_table_ok pcb" and "file_descriptor_table_open M bbp fname pcb = Some (r, pcb')"
  shows "fd_table_ok pcb'"
proof -
  define n where "n = free_fd (file_descriptor_array pcb) 2"
  have n: "2 \<le> n" "n \<le> 8" using free_fd_spec [of 2 "file_descriptor_array pcb"] by (auto simp: n_def)
  have null: "file_ops (file_descriptor_array pcb ! n) \<notin> {Ops_stdin, Ops_stdout}" if "n < 8"
    using assms(1) n(1) that by (auto simp: fd_table_ok_def Let_def MAX_NUM_FILES_def)
  have mark: "fd_table_ok (mark_fd n pcb)"
  proof (cases "n < 8")
    case True
    then show ?thesis
      using table_update_ok [OF assms(1) n(1) True, of "(file_descriptor_array pcb ! n)\<lparr>flags := 1\<rparr>"] null
      by (simp add: mark_fd_def MAX_NUM_FILES_def)
  next
    case False
    then show ?thesis using assms(1) by (simp add: mark_fd_def MAX_NUM_FILES_def fd_table_ok_def Let_def)
  qed
  have opened: "fd_table_ok (set_fd n ops i (mark_fd n pcb))" if "n < 8" "ops \<notin> {Ops_stdin, Ops_stdout}" for ops i
  proof -
    have "n < length (file_descriptor_array pcb)"
      using assms(1) that(1) by (simp add: fd_table_ok_def Let_def MAX_NUM_FILES_def)
    then have "flags (file_descriptor_array (mark_fd n pcb) ! n) = 1"
      using that(1) by (simp add: mark_fd_def MAX_NUM_FILES_def)
    then show ?thesis
      unfolding set_fd_def using table_update_ok [OF mark n(1) that(1)] that(2) by simp
  qed
  show ?thesis
    using assms(2) mark opened n(2) unfolding file_descriptor_table_open_def n_def [symmetric]
    by (auto simp: Let_def MAX_NUM_FILES_def split: option.splits if_splits)
qed

section \<open>Properties\<close>

text \<open>C35: Opening an existing name takes the lowest free descriptor from 2 on, installs there the operations for the type of the entry, its index node and position 0, and touches no other descriptor; closing that descriptor then succeeds and leaves it free again.\<close>

theorem open_takes_lowest_free:
  assumes "fd_table_ok pcb" and "2 \<le> n" and "n < 8"
    and "\<forall>i. 2 \<le> i \<and> i < n \<longrightarrow> flags (file_descriptor_array pcb ! i) = 1"
    and "flags (file_descriptor_array pcb ! n) \<noteq> 1"
    and "read_dentry_by_name M bbp fname = Some (Some d)" and "known_type (filetype d)" and "inode_num d \<noteq> -1"
  shows "\<exists>pcb'. file_descriptor_table_open M bbp fname pcb = Some (int n, pcb') \<and> fd_table_ok pcb'
    \<and> file_descriptor_array pcb' ! n = opened_fd d
    \<and> (\<forall>i. i \<noteq> n \<longrightarrow> file_descriptor_array pcb' ! i = file_descriptor_array pcb ! i)
    \<and> (\<exists>pcb''. file_descriptor_table_close (int n) pcb' = (0, pcb'') \<and> fd_table_ok pcb''
        \<and> free_fd (file_descriptor_array pcb'') 2 = n)"
proof -
  let ?tab = "file_descriptor_array pcb"
  have free: "free_fd ?tab 2 = n"
    by (rule free_fd_eqI [OF assms(2-5)])
  have len: "n < length ?tab" "length ?tab = 8"
    using assms(1,3) by (simp_all add: fd_table_ok_def Let_def MAX_NUM_FILES_def)
  let ?p = "pcb\<lparr>file_descriptor_array := ?tab[n := opened_fd d]\<rparr>"
  have op: "file_descriptor_table_open M bbp fname pcb = Some (int n, ?p)"
    by (rule open_found [OF assms(1) free assms(3,6,7)])
  have ok: "fd_table_ok ?p" by (rule open_table_ok [OF assms(1) op])
  let ?q = "?p\<lparr>file_descriptor_array := ?tab[n := \<lparr>file_ops = Ops_null, inode = -1, file_pos = 0, flags = 0\<rparr>]\<rparr>"
  have cl: "file_descriptor_table_close (int n) ?p = (0, ?q)"
    using close_spec [OF ok, of "int n"] assms(3,8) len by (simp add: opened_fd_def)
  moreover have "fd_table_ok ?q" using close_table_ok [OF ok, of "int n"] cl by simp
  moreover have "free_fd (file_descriptor_array ?q) 2 = n"
    by (rule free_fd_eqI) (use assms(2-4) len in simp_all)
  ultimately show ?thesis using op ok len by auto
qed

definition sample_pcb :: pcb_t where
  "sample_pcb = snd (file_descriptor_table_init empty_pcb)"

theorem open_takes_lowest_free_witness:
  "\<exists>pcb'. file_descriptor_table_open sample_image 0x1000 (Some (\<lambda>i. if i = 0 then 97 else 0)) sample_pcb
    = Some (2, pcb')"
proof -
  have "dentry_name sample_image 0x1000 0 = [97]" by code_simp
  then have "find (\<lambda>i. dentry_name sample_image 0x1000 i = [97]) [0..<63] = Some 0"
    by (simp add: upt_rec)
  then have "read_dentry_by_name sample_image 0x1000 (Some (\<lambda>i. if i = 0 then 97 else 0))
      = Some (Some (direntries sample_image 0x1000 0))"
    using read_dentry_by_name_find [OF sample_name _ _ _ sample_names_end] by simp
  moreover have "filetype (direntries sample_image 0x1000 0) = TYPE_FILE"
    "inode_num (direntries sample_image 0x1000 0) = 1"
    by (simp_all add: direntries_def direntry_addr_def load32_def sample_image_def TYPE_FILE_def Let_def)
  moreover have "flags (file_descriptor_array sample_pcb ! 2) = 0"
    by (simp add: sample_pcb_def file_descriptor_table_init_def MAX_NUM_FILES_def init_fd_def)
  moreover have "fd_table_ok sample_pcb" unfolding sample_pcb_def by (rule table_init_ok)
  ultimately show ?thesis
    using open_takes_lowest_free [of sample_pcb 2] by (force simp: known_type_def)
qed

text \<open>C36: A failed open is not undone. After the name lookup fails, the descriptor that was chosen stays marked and cannot be closed; after six failed opens of a fresh table every further open fails, whatever the name, and overwrites the saved frame pointer in the process control block.\<close>

theorem failed_opens_exhaust_table:
  assumes "read_dentry_by_name M bbp missing = Some None"
  shows "\<exists>pcb'. ((\<lambda>r. Option.bind r (\<lambda>p. file_descriptor_table_open M bbp missing (snd p))) ^^ 6)
      (Some (file_descriptor_table_init pcb)) = Some (-1, pcb')
    \<and> (\<forall>fd. fst (file_descriptor_table_close fd pcb') = -1)
    \<and> (\<forall>M' bbp' fname. file_descriptor_table_open M' bbp' fname pcb' = Some (-1, pcb'\<lparr>current_ebp := 1\<rparr>))"
proof -
  define tab where "tab k = map (\<lambda>i. (init_fd i)\<lparr>flags := if 2 \<le> i \<and> i < 2 + k then 1 else 0\<rparr>) [0..<8]" for k
  have tab0: "file_descriptor_table_init pcb = (0, pcb\<lparr>file_descriptor_array := tab 0\<rparr>)"
    by (simp add: file_descriptor_table_init_def tab_def MAX_NUM_FILES_def init_fd_def)
  have step: "file_descriptor_table_open M bbp missing (pcb\<lparr>file_descriptor_array := tab k\<rparr>)
      = Some (-1, pcb\<lparr>file_descriptor_array := tab (Suc k)\<rparr>)" if "k < 6" for k
  proof -
    have "free_fd (tab k) 2 = 2 + k" by (rule free_fd_eqI) (use that in \<open>auto simp: tab_def\<close>)
    moreover have "mark_fd (2 + k) (pcb\<lparr>file_descriptor_array := tab k\<rparr>) = pcb\<lparr>file_descriptor_array := tab (Suc k)\<rparr>"
    proof -
      have "(tab k)[2 + k := (tab k ! (2 + k))\<lparr>flags := 1\<rparr>] = tab (Suc k)"
        by (rule nth_equalityI) (use that in \<open>auto simp: tab_def nth_list_update\<close>)
      then show ?thesis using that by (simp add: mark_fd_def MAX_NUM_FILES_def)
    qed
    ultimately show ?thesis using open_missing [OF _ _ assms] that by simp
  qed
  have it: "((\<lambda>r. Option.bind r (\<lambda>p. file_descriptor_table_open M bbp missing (snd p))) ^^ k)
      (Some (file_descriptor_table_init pcb)) = Some (if k = 0 then 0 else -1, pcb\<lparr>file_descriptor_array := tab k\<rparr>)"
    if "k \<le> 6" for k
    using that step tab0 by (induction k) simp_all
  let ?p = "pcb\<lparr>file_descriptor_array := tab 6\<rparr>"
  have "file_descriptor_table_close fd ?p = (-1, ?p)" for fd
  proof (cases "0 \<le> fd \<and> fd < 8")
    case True
    then have "nat fd < 8" by linarith
    then have "inode (tab 6 ! nat fd) = -1" by (simp add: tab_def init_fd_def del: upt_rec_numeral)
    then show ?thesis using True by (simp add: file_descriptor_table_close_def file_close_def MAX_NUM_FILES_def)
  next
    case False
    then show ?thesis by (auto simp: file_descriptor_table_close_def MAX_NUM_FILES_def)
  qed
  moreover have "free_fd (tab 6) 2 = 8"
  proof (rule ccontr)
    assume "free_fd (tab 6) 2 \<noteq> 8"
    then have "2 \<le> free_fd (tab 6) 2" "free_fd (tab 6) 2 < 8" "flags (tab 6 ! free_fd (tab 6) 2) \<noteq> 1"
      using free_fd_spec [of 2 "tab 6"] by auto
    then show False by (simp add: tab_def del: upt_rec_numeral)
  qed
  ultimately show ?thesis
    using it [of 6] open_full [of ?p] by (intro exI [of _ ?p]) simp
qed

theorem failed_opens_exhaust_table_witness:
  "\<exists>pcb'. ((\<lambda>r. Option.bind r (\<lambda>p. file_descriptor_table_open sample_image 0x1000 None (snd p))) ^^ 6)
      (Some (file_descriptor_table_init empty_pcb)) = Some (-1, pcb')
    \<and> file_descriptor_table_open sample_image 0x1000 (Some (\<lambda>i. if i = 0 then 97 else 0)) pcb'
      = Some (-1, pcb'\<lparr>current_ebp := 1\<rparr>)"
proof -
  have "read_dentry_by_name sample_image 0x1000 None = Some None" by (simp add: read_dentry_by_name_def)
  from failed_opens_exhaust_table [OF this, of empty_pcb] show ?thesis by blast
qed

end
