(* ===== verification/Printf.thy ===== *)
theory Printf
  imports Terminal_Switch
begin

text \<open>
  \<open>printf\<close> of \<^verbatim>\<open>lib.c\<close>: the format is the list of its characters before the terminating NUL, the variable
  arguments are a list of numbers and strings. The conversion buffers of the function are a memory of
  their own, addressed from 0, on which the real \<open>itoa\<close>, \<open>strlen\<close> and padding loop run. \<open>printf_text\<close> is the
  text that the calls of \<open>putc\<close> and \<open>puts\<close> output, in order; no result (\<open>None\<close>) means that the format asks
  for an argument that is not there or is of the other kind.
\<close>

section \<open>Definitions\<close>

datatype printf_arg = Num u32 | Str "byte list"

text \<open>The characters at an address up to the NUL.\<close>

definition string_at :: "mem \<Rightarrow> addr \<Rightarrow> byte list option" where
  "string_at M a = map_option (\<lambda>n. load_bytes M a (unat n)) (strlen (at M a))"

text \<open>\<^verbatim>\<open>%u\<close> and \<^verbatim>\<open>%x\<close>: convert into the buffer, then output the buffer as a string.\<close>

definition conv_number :: "u32 \<Rightarrow> u32 \<Rightarrow> byte list option" where
  "conv_number radix v = Option.bind (itoa v 0 radix (\<lambda>_. 0)) (\<lambda>M. string_at M 0)"

text \<open>\<^verbatim>\<open>%d\<close>: a minus sign and the negated value, written behind it, for negative numbers.\<close>

definition conv_signed :: "u32 \<Rightarrow> byte list option" where
  "conv_signed v =
     (if sint v < 0
      then Option.bind (itoa (- v) 1 10 ((\<lambda>_. 0)(0 := 45))) (\<lambda>M. string_at M 0)
      else conv_number 10 v)"

text \<open>
  \<^verbatim>\<open>%#x\<close>: the digits go to index 8 of the buffer, zeros are filled in from the index that is their number up
  to 7, and the string that starts there is output.
\<close>

definition conv_padded :: "u32 \<Rightarrow> byte list option" where
  "conv_padded v =
     Option.bind (itoa v 8 16 (\<lambda>_. 0)) (\<lambda>M.
       Option.bind (strlen (at M 8)) (\<lambda>n.
         string_at (fold (\<lambda>i M. M(of_nat i := 48)) [unat n..<8] M) n))"

text \<open>One conversion after \<^verbatim>\<open>%\<close> (and any number of \<^verbatim>\<open>#\<close>): the text, and the arguments that are left.\<close>

definition convert :: "byte \<Rightarrow> bool \<Rightarrow> printf_arg list \<Rightarrow> (byte list \<times> printf_arg list) option" where
  "convert c alternate args =
     (if c = 37 then Some ([37], args)
      else if c = 120 then
        (case args of
           Num v # rest \<Rightarrow>
             map_option (\<lambda>t. (t, rest)) (if alternate then conv_padded v else conv_number 16 v)
         | _ \<Rightarrow> None)
      else if c = 117 then
        (case args of Num v # rest \<Rightarrow> map_option (\<lambda>t. (t, rest)) (conv_number 10 v) | _ \<Rightarrow> None)
      else if c = 100 then
        (case args of Num v # rest \<Rightarrow> map_option (\<lambda>t. (t, rest)) (conv_signed v) | _ \<Rightarrow> None)
      else if c = 99 then
        (case args of Num v # rest \<Rightarrow> Some ([ucast v], rest) | _ \<Rightarrow> None)
      else if c = 115 then
        (case args of Str t # rest \<Rightarrow> Some (t, rest) | _ \<Rightarrow> None)
      else Some ([], args))"

text \<open>
  The loop over the format. A format that ends right after \<^verbatim>\<open>%\<close> makes the loop step over the terminating NUL
  and read on behind the string: no result.
\<close>

fun skip_alternate :: "byte list \<Rightarrow> bool \<Rightarrow> bool \<times> byte list" where
  "skip_alternate (c # cs) alternate = (if c = 35 then skip_alternate cs True else (alternate, c # cs))"
| "skip_alternate [] alternate = (alternate, [])"

lemma length_skip_alternate: "length (snd (skip_alternate cs a)) \<le> length cs"
  by (induction cs a rule: skip_alternate.induct) auto

function printf_text :: "byte list \<Rightarrow> printf_arg list \<Rightarrow> byte list option" where
  "printf_text [] args = Some []"
| "printf_text (c # cs) args =
     (if c = 37 then
        (case snd (skip_alternate cs False) of
           [] \<Rightarrow> None
         | d # ds \<Rightarrow>
             (case convert d (fst (skip_alternate cs False)) args of
                None \<Rightarrow> None
              | Some (t, rest) \<Rightarrow> map_option (\<lambda>u. t @ u) (printf_text ds rest)))
      else map_option (\<lambda>u. c # u) (printf_text cs args))"
  by pat_completeness auto
termination
proof (relation "measure (\<lambda>(cs, args). length cs)")
  fix c :: byte and cs d ds args x t rest
  assume "snd (skip_alternate cs False) = d # ds"
  then have "length (d # ds) \<le> length cs" using length_skip_alternate [of cs False] by simp
  then show "((ds, rest), c # cs, args) \<in> measure (\<lambda>(cs, args). length cs)" by simp
qed auto

text \<open>The result is the number of characters of the format that were passed.\<close>

definition printf :: "byte list \<Rightarrow> printf_arg list \<Rightarrow> kstate \<Rightarrow> (int \<times> kstate) option" where
  "printf format args s =
     map_option (\<lambda>t. (int (length format), fold putc t s)) (printf_text format args)"

section \<open>Lemmas\<close>

lemma printf_text_plain: "37 \<notin> set cs \<Longrightarrow> printf_text cs args = Some cs"
  by (induction cs) auto

lemma string_at_store:
  assumes "0 \<notin> set xs" and "length xs < 4294967295"
  shows "string_at (store_bytes M a (xs @ [0])) a = Some xs"
proof -
  have c: "cstr (at (store_bytes M a (xs @ [0])) a) xs" by (rule cstr_store [OF assms])
  have "load_bytes (store_bytes M a (xs @ [0])) a (length (xs @ [0])) = xs @ [0]"
    by (rule load_store_bytes) (use assms(2) in simp)
  then have l: "load_bytes (store_bytes M a (xs @ [0])) a (length xs) = xs"
    using load_bytes_add [of "store_bytes M a (xs @ [0])" a "length xs" 1] by (simp del: load_bytes.simps)
  have "unat (of_nat (length xs) :: u32) = length xs"
    by (rule of_nat_unat_small) (use assms(2) in linarith)
  then show ?thesis unfolding string_at_def strlen_cstr [OF c] option.map l by (simp only: l)
qed

text \<open>The digits of a value in the notation of \<open>itoa\<close>.\<close>

definition numeral_text :: "nat \<Rightarrow> nat \<Rightarrow> byte list" where
  "numeral_text r v = (if v = 0 then [48] else map digit_char (rev (radix_digits r v)))"

lemma digit_char_0: "digit_char 0 = 48"
  by code_simp

lemma numeral_text_nonzero: "r \<le> 36 \<Longrightarrow> 0 \<notin> set (numeral_text r v)"
proof
  assume r: "r \<le> 36" and "0 \<in> set (numeral_text r v)"
  then obtain d where d: "d \<in> set (radix_digits r v)" "digit_char d = 0"
    by (auto simp: numeral_text_def split: if_splits)
  have "d < 36" using radix_digits_less [OF d(1)] r by linarith
  then show False using digit_char_nonzero d(2) by blast
qed

lemma numeral_text_length: "v < 4294967296 \<Longrightarrow> length (numeral_text r v) \<le> 32"
  using radix_digits_length [of v 32 r] by (simp add: numeral_text_def)

lemma itoa_numeral:
  assumes "2 \<le> unat r" and "unat r \<le> 36"
  shows "itoa v a r M = Some (store_bytes M a (numeral_text (unat r) (unat v) @ [0]))"
proof (cases "v = 0")
  case True
  then show ?thesis by (simp add: itoa_def numeral_text_def)
next
  case False
  then have "unat v \<noteq> 0" by (simp add: unat_eq_0)
  then show ?thesis using itoa_store [OF assms False] by (simp add: numeral_text_def)
qed

lemma conv_number_text:
  assumes "2 \<le> unat r" and "unat r \<le> 36"
  shows "conv_number r v = Some (numeral_text (unat r) (unat v))"
proof -
  have "length (numeral_text (unat r) (unat v)) \<le> 32" by (rule numeral_text_length) simp
  then show ?thesis
    using itoa_numeral [OF assms] string_at_store [OF numeral_text_nonzero [OF assms(2)]]
    by (simp add: conv_number_def)
qed

lemma radix_digits_length_pow: "v < r ^ k \<Longrightarrow> length (radix_digits r v) \<le> k"
proof (induction k arbitrary: v)
  case 0
  then show ?case by (simp add: radix_digits.simps)
next
  case (Suc k)
  have "v div r < r ^ k" using Suc.prems by (simp add: less_mult_imp_div_less mult.commute)
  from Suc.IH [OF this] show ?case by (subst radix_digits.simps) simp
qed

lemma store_bytes_commute:
  assumes "disjoint_ranges a (length xs) b (length ys)" and "length xs < 4294967296" and "length ys < 4294967296"
  shows "store_bytes (store_bytes M a xs) b ys = store_bytes (store_bytes M b ys) a xs"
proof
  fix x
  have "unat (x - a) < length xs \<Longrightarrow> \<not> unat (x - b) < length ys" by (rule disjoint_rangesD [OF assms(1)])
  then show "store_bytes (store_bytes M a xs) b ys x = store_bytes (store_bytes M b ys) a xs x"
    using assms(2,3) by (simp add: store_bytes_nth)
qed

lemma fill_store: "n + k < 4294967296 \<Longrightarrow>
    fold (\<lambda>i M. M(of_nat i := v)) [n..<n + k] M = store_bytes M (of_nat n) (replicate k v)"
proof (induction k arbitrary: n M)
  case (Suc k)
  have "[n..<n + Suc k] = n # [Suc n..<Suc n + k]" by (simp add: upt_conv_Cons)
  then show ?case using Suc.IH [of "Suc n" "M(of_nat n := v)"] Suc.prems
    by (simp add: ac_simps fun_upd_def)
qed simp

lemma conv_padded_text:
  "conv_padded v = Some (replicate (8 - length (numeral_text 16 (unat v))) 48 @ numeral_text 16 (unat v))"
proof -
  define ds where "ds = numeral_text 16 (unat v)"
  define n where "n = length ds"
  have "unat v < 16 ^ 8" using unat_lt_word32 [of v] by simp
  then have n: "n \<le> 8" "0 < n"
    using radix_digits_length_pow [of "unat v" 16 8] last_radix_digits [of 16 "unat v"]
    by (auto simp: n_def ds_def numeral_text_def)
  have nz: "0 \<notin> set ds" unfolding ds_def by (rule numeral_text_nonzero) simp
  let ?M = "store_bytes (\<lambda>_. 0) 8 (ds @ [0])" and ?z = "replicate (8 - n) (48 :: byte)"
  have it: "itoa v 8 16 (\<lambda>_. 0) = Some ?M" using itoa_numeral [of 16 v 8 "\<lambda>_. 0"] by (simp add: ds_def)
  have "length ds < 4294967295" using n(1) by (simp add: n_def)
  then have len: "strlen (at ?M 8) = Some (of_nat n)"
    using strlen_cstr [OF cstr_store [OF nz]] by (simp add: n_def)
  have un: "unat (of_nat n :: u32) = n" using n by (intro of_nat_unat_small) simp
  have "fold (\<lambda>i M. M(of_nat i := 48)) [n..<8] ?M = store_bytes ?M (of_nat n) ?z"
    using fill_store [of n "8 - n" 48 ?M] n by simp
  also have "\<dots> = store_bytes (\<lambda>_. 0) (of_nat n) (?z @ ds @ [0])"
  proof (cases "n = 8")
    case False
    then have "n \<in> {1, 2, 3, 4, 5, 6, 7}" using n by auto
    then have "disjoint_ranges 8 (length (ds @ [0])) (of_nat n) (length ?z)"
      by (auto simp: disjoint_ranges_def n_def [symmetric] unsigned_minus_1_eq_mask mask_eq_exp_minus_1)
    then have "store_bytes ?M (of_nat n) ?z = store_bytes (store_bytes (\<lambda>_. 0) (of_nat n) ?z) 8 (ds @ [0])"
      using n by (intro store_bytes_commute) (auto simp: n_def)
    moreover have "(of_nat n :: u32) + of_nat (length ?z) = 8"
      using n by (metis of_nat_add le_add_diff_inverse length_replicate of_nat_numeral)
    ultimately show ?thesis by (simp only: store_bytes_append)
  qed simp
  finally have "fold (\<lambda>i M. M(of_nat i := 48)) [n..<8] ?M = store_bytes (\<lambda>_. 0) (of_nat n) ((?z @ ds) @ [0])"
    by simp
  moreover have "string_at (store_bytes (\<lambda>_. 0) (of_nat n) ((?z @ ds) @ [0])) (of_nat n) = Some (?z @ ds)"
    by (rule string_at_store) (use nz n in \<open>auto simp: n_def\<close>)
  ultimately show ?thesis
    unfolding conv_padded_def it len ds_def [symmetric] n_def [symmetric] Option.bind.simps
    by (simp only: len Option.bind.simps un)
qed

lemma sint_cases: "sint (v :: u32) = uint v - (if sint v < 0 then 4294967296 else 0)"
proof -
  have b: "0 \<le> uint v" "uint v < 4294967296" using unsigned_less [of v] by auto
  then have "take_bit 32 (uint v) = uint v" by (simp add: take_bit_int_eq_self)
  then have "sint v = uint v - (if bit (uint v) 31 then 4294967296 else 0)"
    by (simp add: sint_uint signed_take_bit_eq_take_bit_minus)
  then show ?thesis using b by (cases "bit (uint v) 31") simp_all
qed

lemma unat_minus_sint:
  assumes "sint (v :: u32) < 0"
  shows "unat (- v) = nat (- sint v)"
proof -
  have "(unat v + unat (- v)) mod 4294967296 = unat (v + - v)" by (simp only: unat_word_ariths) simp
  then have "(unat v + unat (- v)) mod 4294967296 = 0" by simp
  moreover have "v \<noteq> 0" using assms by auto
  then have "0 < unat v" by (simp add: unat_gt_0)
  moreover have "unat v + unat (- v) < 2 * 4294967296"
    using unat_lt_word32 [of v] unat_lt_word32 [of "- v"] by linarith
  ultimately have "unat v + unat (- v) = 4294967296"
    by (cases "unat v + unat (- v) < 4294967296") (auto simp: mod_if split: if_splits)
  then have "int (unat v) + int (unat (- v)) = 4294967296" by linarith
  then have "uint (- v) = - sint v" using sint_cases [of v] assms by simp
  then have "nat (uint (- v)) = nat (- sint v)" by (simp only:)
  then show ?thesis by (simp only: nat_uint_eq)
qed

lemma conv_signed_text:
  "conv_signed v = Some ((if sint v < 0 then [45] else []) @ numeral_text 10 (nat \<bar>sint v\<bar>))"
proof (cases "sint v < 0")
  case True
  let ?ds = "numeral_text 10 (unat (- v))"
  have "itoa (- v) 1 10 ((\<lambda>_. 0)(0 := 45)) = Some (store_bytes ((\<lambda>_. 0)(0 := 45)) 1 (?ds @ [0]))"
    using itoa_numeral [of 10 "- v" 1] by simp
  also have "\<dots> = Some (store_bytes (\<lambda>_. 0) 0 ((45 # ?ds) @ [0]))" by simp
  finally have it: "itoa (- v) 1 10 ((\<lambda>_. 0)(0 := 45)) = Some (store_bytes (\<lambda>_. 0) 0 ((45 # ?ds) @ [0]))" .
  have "string_at (store_bytes (\<lambda>_. 0) 0 ((45 # ?ds) @ [0])) 0 = Some (45 # ?ds)"
    using numeral_text_nonzero [of 10 "unat (- v)"] numeral_text_length [of "unat (- v)" 10]
    by (intro string_at_store) auto
  then show ?thesis
    unfolding conv_signed_def it using True unat_minus_sint [OF True] by simp
next
  case False
  then have "sint v = int (unat v)" using sint_cases [of v] by simp
  then have "unat v = nat \<bar>sint v\<bar>" by simp
  then show ?thesis using False conv_number_text [of 10 v] by (simp add: conv_signed_def)
qed

text \<open>\<^verbatim>\<open>%#x\<close> prints eight digits.\<close>

lemma printf_hex_digits:
  "\<exists>ds. printf_text [37, 35, 120] [Num v] = Some (map digit_char ds) \<and> length ds = 8
     \<and> horner 16 ds = unat v \<and> set ds \<subseteq> {..<16}"
proof -
  define e where "e = (if unat v = 0 then [0] else rev (radix_digits 16 (unat v)))"
  have t: "numeral_text 16 (unat v) = map digit_char e"
    by (simp add: numeral_text_def e_def digit_char_0)
  have "unat v < 16 ^ 8" using unat_lt_word32 [of v] by simp
  then have "length e \<le> 8" using radix_digits_length_pow [of "unat v" 16 8] by (simp add: e_def)
  moreover have "horner 16 (replicate k 0 @ e) = horner 16 e" for k
    by (induction k) (simp_all add: horner_def)
  moreover have "horner 16 e = unat v" by (simp add: e_def horner_def horner_radix_digits [unfolded horner_def])
  moreover have "\<forall>d\<in>set e. d < 16" using radix_digits_less by (auto simp: e_def)
  moreover have "printf_text [37, 35, 120] [Num v] = Some (map digit_char (replicate (8 - length e) 0 @ e))"
    by (simp add: convert_def conv_padded_text t digit_char_0)
  ultimately show ?thesis
    by (intro exI [of _ "replicate (8 - length e) 0 @ e"]) auto
qed

section \<open>Properties\<close>

text \<open>C37: The number conversions of \<open>printf\<close> are correct for every value: \<^verbatim>\<open>%d\<close> prints the signed value in decimal with a minus sign when it is negative (the most negative number included), and \<^verbatim>\<open>%#x\<close> prints exactly eight hexadecimal digits whose value is the argument.\<close>

theorem printf_numbers:
  "printf_text [37, 100] [Num v]
     = Some ((if sint v < 0 then [45] else []) @ numeral_text 10 (nat \<bar>sint v\<bar>))
   \<and> (\<exists>ds. printf_text [37, 35, 120] [Num v] = Some (map digit_char ds) \<and> length ds = 8
       \<and> horner 16 ds = unat v \<and> set ds \<subseteq> {..<16})"
proof
  show "printf_text [37, 100] [Num v]
      = Some ((if sint v < 0 then [45] else []) @ numeral_text 10 (nat \<bar>sint v\<bar>))"
    by (simp add: convert_def conv_signed_text)
qed (rule printf_hex_digits)

end
