(* ===== verification/Process.thy ===== *)
theory Process
  imports File_Descriptor Printf
begin

text \<open>
  Processes and system calls (\<^verbatim>\<open>syscall.c\<close>), the timer handler (\<open>pit_handler\<close> of \<^verbatim>\<open>pit.c\<close>) and the dispatch of
  \<^verbatim>\<open>syscallWrapper.S\<close>.

  A call that leaves the kernel or changes the kernel stack does not return to its caller: the result of
  such an operation is an \<open>outcome\<close>, which names where execution goes on. The stack and frame pointer that
  the code saves with inline assembly are arguments (\<open>esp\<close>, \<open>ebp\<close>), as are the bytes that an uninitialised
  array on the stack happens to hold (\<open>junk\<close>).
\<close>

section \<open>Outcomes\<close>

text \<open>
  \<open>Return\<close>: the C function returns a value to its caller. \<open>Enter_user\<close>: \<^verbatim>\<open>iret\<close> to user mode at an address with a stack
  pointer. \<open>Resume\<close>: \<^verbatim>\<open>leave; ret\<close> on a saved kernel stack (stack pointer, frame pointer) with a value in
  \<^verbatim>\<open>eax\<close>. \<open>Switch\<close>: go on in the kernel on another stack. \<open>Waiting\<close>: the call still spins. \<open>Undefined\<close>: the
  code writes outside an array or scans a string that does not end.
\<close>

datatype outcome =
    Return int kstate
  | Enter_user addr addr kstate
  | Resume addr addr u32 kstate
  | Switch addr addr kstate
  | Waiting
  | Undefined

section \<open>The process pool\<close>

definition MAX_NUM_PROCESSES :: int where
  "MAX_NUM_PROCESSES = 6"

definition USER_STACK_BASE_ADDRESS :: addr where
  "USER_STACK_BASE_ADDRESS = 0x08400000 - 0x4"

definition MAX_FILE_SIZE :: u32 where
  "MAX_FILE_SIZE = 63 * 4096"

definition pool_acquire :: "int list \<Rightarrow> int \<times> int list" where
  "pool_acquire ps =
     (case find (\<lambda>i. ps ! i = 0) [0..<7] of
        None \<Rightarrow> (-1, ps)
      | Some i \<Rightarrow> (int i, ps[i := 1]))"

definition get_process_available :: "kstate \<Rightarrow> int \<times> kstate" where
  "get_process_available s =
     (let (r, ps) = pool_acquire (processes s) in (r, s\<lparr>processes := ps\<rparr>))"

definition pool_release :: "int \<Rightarrow> int list \<Rightarrow> int \<times> int list" where
  "pool_release pid ps = (if pid < 0 \<or> 6 < pid then (-1, ps) else (0, ps[nat pid := 0]))"

definition release_process :: "int \<Rightarrow> kstate \<Rightarrow> int \<times> kstate" where
  "release_process pid s =
     (let (r, ps) = pool_release pid (processes s) in (r, s\<lparr>processes := ps\<rparr>))"

section \<open>Entering programs\<close>

definition entry_point :: "kstate \<Rightarrow> addr" where
  "entry_point s = load32 (view s) (VIRTUAL_ADDRESS_PROGRAM_START + 24)"

definition context_switch_execute :: "kstate \<Rightarrow> outcome" where
  "context_switch_execute s = Enter_user (entry_point s) USER_STACK_BASE_ADDRESS (sti s)"

definition context_switch_halt :: "byte \<Rightarrow> kstate \<Rightarrow> outcome" where
  "context_switch_halt status s =
     (let pcb = pcb_of (active_pid s) s in Resume (current_esp pcb) (current_ebp pcb) (ucast status) s)"

text \<open>The stack pointer the processor loads on the next entry from user mode.\<close>

definition kernel_stack_top :: "u32 \<Rightarrow> u32" where
  "kernel_stack_top pid = KERNEL_STACK_BASE_ADDRESS - (pid - 1) * USER_KERNEL_STACK_SIZE - 0x04"

definition boot_enter :: "term_ptr \<Rightarrow> u32 \<Rightarrow> kstate \<Rightarrow> outcome" where
  "boot_enter t pid s =
     (let s = s\<lparr>active_terminal := t, active_pid := pid\<rparr>;
          s = upd_terminal t (\<lambda>t. t\<lparr>current_process_id := pid\<rparr>) s;
          s = paging_execute (active_pid s) s;
          s = paging_video_memory s;
          s = s\<lparr>tss_esp0 := kernel_stack_top (active_pid s)\<rparr>
      in context_switch_execute s)"

definition boot_enter_terminal_1 :: "kstate \<Rightarrow> outcome" where
  "boot_enter_terminal_1 = boot_enter Terminal_1 1"

definition boot_enter_terminal_2 :: "kstate \<Rightarrow> outcome" where
  "boot_enter_terminal_2 = boot_enter Terminal_2 2"

definition boot_enter_terminal_3 :: "kstate \<Rightarrow> outcome" where
  "boot_enter_terminal_3 = boot_enter Terminal_3 3"

definition cptr_of :: "byte list \<Rightarrow> cptr" where
  "cptr_of bs i = (if unat i < length bs then bs ! unat i else 0)"

text \<open>
  The first four bytes of an executable; the buffer keeps its old bytes when the file is shorter. The
  buffer is on the kernel stack, so its address is not null (1 stands for it).
\<close>

definition elf_magic :: "byte list" where
  "elf_magic = [0x7f, 0x45, 0x4c, 0x46]"

definition is_executable :: "mem \<Rightarrow> addr \<Rightarrow> u32 \<Rightarrow> byte list \<Rightarrow> bool" where
  "is_executable M bbp fd junk =
     (let (r, bs) = read_data M bbp fd 0 1 4
      in r \<noteq> -1 \<and> take 4 (bs @ drop (length bs) junk) = elf_magic)"

definition load_program :: "u32 \<Rightarrow> kstate \<Rightarrow> kstate" where
  "load_program fd s =
     vstore_bytes VIRTUAL_ADDRESS_PROGRAM_START
       (snd (read_data (view s) (boot_block_pointer s) fd 0 VIRTUAL_ADDRESS_PROGRAM_START MAX_FILE_SIZE)) s"

text \<open>The body of \<open>create_terminal_1_shell\<close> to \<open>create_terminal_3_shell\<close>.\<close>

definition create_shell :: "term_ptr \<Rightarrow> u32 \<Rightarrow> byte list \<Rightarrow> kstate \<Rightarrow> kstate option" where
  "create_shell t pid junk s =
     (case file_open (view s) (boot_block_pointer s) (-1) (Some (cptr_of (chars ''shell''))) of
        None \<Rightarrow> None
      | Some (r, fd) \<Rightarrow>
          if r = -1 then Some s
          else if \<not> is_executable (view s) (boot_block_pointer s) fd junk then Some s
          else
            let s = paging_execute pid s;
                s = load_program fd s;
                s = upd_pcb pid (\<lambda>p. (snd (file_descriptor_table_init p))
                      \<lparr>current_pid := pid, parent_pid := 0,
                       current_esp := USER_STACK_BASE_ADDRESS, current_ebp := USER_STACK_BASE_ADDRESS,
                       current_eip := entry_point s, vidmap_flag := 0, pcb_terminal := t,
                       pcb_arg_buf := replicate MAX_ARG_LENGTH 0\<rparr>) s
            in Some (upd_terminal t (\<lambda>t. t\<lparr>current_process_id := 0\<rparr>) s))"

definition create_terminal_1_shell :: "byte list \<Rightarrow> kstate \<Rightarrow> kstate option" where
  "create_terminal_1_shell = create_shell Terminal_1 1"

definition create_terminal_2_shell :: "byte list \<Rightarrow> kstate \<Rightarrow> kstate option" where
  "create_terminal_2_shell = create_shell Terminal_2 2"

definition create_terminal_3_shell :: "byte list \<Rightarrow> kstate \<Rightarrow> kstate option" where
  "create_terminal_3_shell = create_shell Terminal_3 3"

section \<open>halt and execute\<close>

text \<open>\<open>printf\<close> of a message without conversions.\<close>

definition kprint :: "byte list \<Rightarrow> kstate \<Rightarrow> kstate" where
  "kprint msg s = (case printf msg [] s of None \<Rightarrow> s | Some (r, s) \<Rightarrow> s)"

definition halt_message :: "string \<Rightarrow> byte list" where
  "halt_message n = chars '' root shell of terminal '' @ chars n @ chars '' could be be halted'' @ [newline]"

definition close_all :: "u32 \<Rightarrow> kstate \<Rightarrow> kstate" where
  "close_all pid s =
     fold (\<lambda>i. upd_pcb pid (\<lambda>p. snd (file_descriptor_table_close (int i) p))) [0..<MAX_NUM_FILES] s"

definition syscall_halt :: "byte \<Rightarrow> kstate \<Rightarrow> outcome" where
  "syscall_halt status s =
     (if active_pid s = 1 then boot_enter_terminal_1 (kprint (halt_message ''1'') s)
      else if active_pid s = 2 then boot_enter_terminal_2 (kprint (halt_message ''2'') s)
      else if active_pid s = 3 then boot_enter_terminal_3 (kprint (halt_message ''3'') s)
      else
        let pid = active_pid s;
            s = s\<lparr>process_count := process_count s - 1\<rparr>;
            s = snd (release_process (sint pid) s);
            s = close_all pid s;
            s = s\<lparr>active_pid := parent_pid (pcb_of pid s)\<rparr>;
            s = s\<lparr>active_terminal := pcb_terminal (pcb_of (active_pid s) s)\<rparr>;
            s = upd_terminal (active_terminal s) (\<lambda>t. t\<lparr>current_process_id := active_pid s\<rparr>) s;
            s = s\<lparr>tss_esp0 := kernel_stack_top (active_pid s)\<rparr>;
            s = paging_execute (active_pid s) s;
            s = paging_video_memory s
        in context_switch_halt status s)"

text \<open>
  The two loops over the command line have the same shape: skip blanks, take characters up to the next
  blank or the end. \<open>parse_word\<close> returns the bytes stored and the index where the loop stopped.
\<close>

function parse_word :: "cptr \<Rightarrow> nat \<Rightarrow> nat \<Rightarrow> bool \<Rightarrow> byte list \<Rightarrow> byte list \<times> nat" where
  "parse_word command len i flag acc =
     (if i < len then
        if command (of_nat i) = 0 then (acc @ [0], i)
        else if command (of_nat i) = blank \<and> flag then (acc @ [0], i)
        else if command (of_nat i) \<noteq> blank then parse_word command len (Suc i) True (acc @ [command (of_nat i)])
        else parse_word command len (Suc i) flag acc
      else (acc, i))"
  by pat_completeness auto
termination
  by (relation "measure (\<lambda>(command, len, i, flag, acc). len - i)") auto

declare parse_word.simps [simp del]

text \<open>Setting up the new process and entering it, from \<open>process_count++\<close> on.\<close>

definition start_process :: "u32 \<Rightarrow> addr \<Rightarrow> addr \<Rightarrow> kstate \<Rightarrow> outcome" where
  "start_process fd esp ebp s =
     (let s = s\<lparr>process_count := process_count s + 1\<rparr>;
          (r, s) = get_process_available s
      in if r = -1 then Return (-1) (kprint (chars ''Max number of processes reached'' @ [newline]) s)
         else
           let pid = of_int r;
               s = upd_pcb pid (\<lambda>p. (snd (file_descriptor_table_init p))
                     \<lparr>current_pid := pid, parent_pid := active_pid s,
                      current_esp := USER_STACK_BASE_ADDRESS, current_ebp := USER_STACK_BASE_ADDRESS,
                      current_eip := entry_point s, vidmap_flag := 0, pcb_terminal := active_terminal s,
                      pcb_arg_buf := arg_buf s\<rparr>) s;
               s = upd_terminal (active_terminal s) (\<lambda>t. t\<lparr>current_process_id := pid\<rparr>) s;
               s = paging_execute pid s;
               s = paging_video_memory s;
               s = load_program fd s;
               s = upd_pcb (active_pid s) (\<lambda>p. p\<lparr>current_esp := esp, current_ebp := ebp\<rparr>) s;
               s = s\<lparr>active_pid := pid\<rparr>;
               s = s\<lparr>tss_esp0 := KERNEL_STACK_BASE_ADDRESS - active_pid s * USER_KERNEL_STACK_SIZE\<rparr>
           in context_switch_execute s)"

definition syscall_execute :: "addr \<Rightarrow> addr \<Rightarrow> addr \<Rightarrow> byte list \<Rightarrow> kstate \<Rightarrow> outcome" where
  "syscall_execute command esp ebp junk s =
     (if process_count s = MAX_NUM_PROCESSES
      then Return (-1) (kprint (chars ''Max number of processes reached'' @ [newline]) s)
      else
        let s = s\<lparr>argument_exist := 0\<rparr>
        in case strlen (at (view s) command) of
             None \<Rightarrow> Undefined
           | Some n \<Rightarrow>
               let len = sint n + 1
               in if int MAX_ARG_LENGTH + 4 < len
                  then Return (-1) (kprint (chars ''Command is too long'' @ [newline]) s)
                  else
                    let cmd = at (view s) command;
                        (fn, i) = parse_word cmd (nat len) 0 False [];
                        (arg, _) = parse_word cmd (nat len) i False []
                    in if 33 < length fn \<or> MAX_ARG_LENGTH < length arg then Undefined
                       else
                         let s = s\<lparr>arg_buf := arg @ replicate (MAX_ARG_LENGTH - length arg) 0,
                                   argument_exist := (if list_ex (\<lambda>b. b \<noteq> 0) arg then 1 else 0)\<rparr>
                         in case read_dentry_by_name (view s) (boot_block_pointer s) (Some (cptr_of fn)) of
                              None \<Rightarrow> Undefined
                            | Some None \<Rightarrow> Return (-1) s
                            | Some (Some d) \<Rightarrow>
                                if filetype d \<noteq> TYPE_FILE then Return (-1) s
                                else case file_open (view s) (boot_block_pointer s) (-1) (Some (cptr_of fn)) of
                                       None \<Rightarrow> Undefined
                                     | Some (r, fd) \<Rightarrow>
                                         if r = -1 then Return (-1) s
                                         else if \<not> is_executable (view s) (boot_block_pointer s) fd junk
                                         then Return (-1) s
                                         else start_process fd esp ebp s)"

section \<open>The other system calls\<close>

definition as_outcome :: "(int \<times> kstate) option \<Rightarrow> outcome" where
  "as_outcome r = (case r of None \<Rightarrow> Waiting | Some (v, s) \<Rightarrow> Return v s)"

definition syscall_read :: "(kstate \<Rightarrow> kstate) list \<Rightarrow> u32 \<Rightarrow> addr \<Rightarrow> u32 \<Rightarrow> kstate \<Rightarrow> outcome" where
  "syscall_read interrupts fd buf nbytes s =
     as_outcome (file_descriptor_table_read interrupts (active_pid s) (sint fd) buf nbytes s)"

definition syscall_write :: "u32 \<Rightarrow> addr \<Rightarrow> u32 \<Rightarrow> kstate \<Rightarrow> outcome" where
  "syscall_write fd buf nbytes s =
     (let (v, s) = file_descriptor_table_write (active_pid s) (sint fd) buf nbytes s in Return v s)"

definition syscall_open :: "addr \<Rightarrow> kstate \<Rightarrow> outcome" where
  "syscall_open fname s =
     (let f = (if fname = NULL then None else Some (at (view s) fname))
      in case file_descriptor_table_open (view s) (boot_block_pointer s) f (pcb_of (active_pid s) s) of
           None \<Rightarrow> Undefined
         | Some (v, p) \<Rightarrow> Return v (upd_pcb (active_pid s) (\<lambda>_. p) s))"

definition syscall_close :: "u32 \<Rightarrow> kstate \<Rightarrow> outcome" where
  "syscall_close fd s =
     (let (v, p) = file_descriptor_table_close (sint fd) (pcb_of (active_pid s) s)
      in Return v (upd_pcb (active_pid s) (\<lambda>_. p) s))"

text \<open>The argument string of the process must end inside its array of 33 bytes.\<close>

definition syscall_getargs :: "addr \<Rightarrow> u32 \<Rightarrow> kstate \<Rightarrow> outcome" where
  "syscall_getargs buf nbytes s =
     (let arg = pcb_arg_buf (pcb_of (active_pid s) s)
      in if argument_exist s = 0 then Return (-1) s
         else if buf = NULL then Return (-1) s
         else if 0 \<notin> set arg then Undefined
         else let str = takeWhile (\<lambda>b. b \<noteq> 0) arg
              in if sint nbytes < int (length str) then Return (-1) s
                 else Return 0 (vstore_bytes buf (str @ [0]) s))"

definition syscall_vidmap :: "addr \<Rightarrow> kstate \<Rightarrow> outcome" where
  "syscall_vidmap screen_start s =
     (if screen_start = NULL then Return (-1) s
      else if screen_start < VIRTUAL_128MB_START \<or> vidmap_address < screen_start then Return (-1) s
      else
        let s = upd_pcb (active_pid s) (\<lambda>p. p\<lparr>vidmap_flag := 1\<rparr>) s;
            s = syscall_enable_vidmap_paging s;
            s = vstore_bytes screen_start (word_bytes vidmap_address) s
        in Return (sint vidmap_address) s)"

definition syscall_set_handler :: "kstate \<Rightarrow> outcome" where
  "syscall_set_handler s = Return (-1) s"

definition syscall_sigreturn :: "kstate \<Rightarrow> outcome" where
  "syscall_sigreturn s = Return (-1) s"

text \<open>
  The bounds check of the stub and its jump table: the call number is in \<^verbatim>\<open>eax\<close>, the arguments in \<^verbatim>\<open>ebx\<close>, \<^verbatim>\<open>ecx\<close> and
  \<^verbatim>\<open>edx\<close>. \<open>Return\<close> here is the return of the C function to the stub, or the value that the stub puts into \<^verbatim>\<open>eax\<close> at
  \<^verbatim>\<open>fail\<close>; what the stub then does with the stack is not part of this function (\<open>syscall_stub\<close> of \<open>Entry_Stubs\<close>).
\<close>

definition syscall_dispatch ::
  "(kstate \<Rightarrow> kstate) list \<Rightarrow> addr \<Rightarrow> addr \<Rightarrow> byte list \<Rightarrow> u32 \<Rightarrow> u32 \<Rightarrow> u32 \<Rightarrow> u32 \<Rightarrow> kstate \<Rightarrow> outcome"
where
  "syscall_dispatch interrupts esp ebp junk eax ebx ecx edx s =
     (if sint eax < 1 \<or> 10 < sint eax then Return (-1) s
      else if eax = 1 then syscall_halt (ucast ebx) s
      else if eax = 2 then syscall_execute ebx esp ebp junk s
      else if eax = 3 then syscall_read interrupts ebx ecx edx s
      else if eax = 4 then syscall_write ebx ecx edx s
      else if eax = 5 then syscall_open ebx s
      else if eax = 6 then syscall_close ebx s
      else if eax = 7 then syscall_getargs ebx ecx s
      else if eax = 8 then syscall_vidmap ebx s
      else if eax = 9 then syscall_set_handler s
      else syscall_sigreturn s)"

section \<open>The scheduler\<close>

definition next_terminal :: "term_ptr \<Rightarrow> term_ptr" where
  "next_terminal t = (case t of Terminal_1 \<Rightarrow> Terminal_2 | Terminal_2 \<Rightarrow> Terminal_3 | Terminal_3 \<Rightarrow> Terminal_1)"

text \<open>The process whose stack pointer is saved when the next terminal has not been started yet.\<close>

definition boot_saver :: "term_ptr \<Rightarrow> u32" where
  "boot_saver t = (case t of Terminal_1 \<Rightarrow> 3 | Terminal_2 \<Rightarrow> 1 | Terminal_3 \<Rightarrow> 2)"

definition save_stack :: "u32 \<Rightarrow> addr \<Rightarrow> addr \<Rightarrow> kstate \<Rightarrow> kstate" where
  "save_stack pid esp ebp s = upd_pcb pid (\<lambda>p. p\<lparr>current_esp := esp, current_ebp := ebp\<rparr>) s"

definition schedule :: "addr \<Rightarrow> addr \<Rightarrow> kstate \<Rightarrow> outcome" where
  "schedule esp ebp s =
     (let original_pid = active_pid s;
          s = s\<lparr>active_terminal := next_terminal (active_terminal s)\<rparr>;
          s = s\<lparr>active_pid := current_process_id (terminals s (active_terminal s))\<rparr>;
          s = (if active_pid s \<noteq> 0 then save_stack original_pid esp ebp s
               else save_stack (boot_saver (active_terminal s)) esp ebp s)
      in if active_pid s = 0 then
           (case active_terminal s of
              Terminal_1 \<Rightarrow> boot_enter_terminal_1 s
            | Terminal_2 \<Rightarrow> boot_enter_terminal_2 s
            | Terminal_3 \<Rightarrow> boot_enter_terminal_3 s)
         else
           let s = s\<lparr>tss_esp0 := kernel_stack_top (active_pid s)\<rparr>;
               s = paging_execute (active_pid s) s;
               s = paging_video_memory s;
               s = sti s;
               target = pcb_of (active_pid s) s
           in Switch (current_esp target) (current_ebp target) s)"

definition pit_handler :: "addr \<Rightarrow> addr \<Rightarrow> kstate \<Rightarrow> outcome" where
  "pit_handler esp ebp s =
     (let s = cli s;
          s = send_eoi 0 s
      in case schedule esp ebp s of
           Switch e b s \<Rightarrow> Switch e b (sti s)
         | r \<Rightarrow> r)"

end
