(* ===== verification/Kernel_Frames.thy ===== *)
theory Kernel_Frames
  imports Process
begin

text \<open>
  What the drivers leave alone. An observation of the kernel's state that does not depend on memory, ports,
  the interrupt flag, the page tables other than the entry of the program page, the keyboard and clock
  variables or the data of the terminals other than their current process is not changed by any operation of
  the console, the keyboard, the clock or the terminal driver. The locale \<open>kernel_view\<close> states this once, on top of
  \<open>output_view\<close>, which covers what is written to the screen and needs less; it is interpreted for the process structure,
  the process control blocks, and the file system pointer.
\<close>

section \<open>Observations\<close>

lemma cursor_process: "f T\<lparr>screen_x := 0, screen_y := 0\<rparr> = T\<lparr>screen_x := 0, screen_y := 0\<rparr>
    \<Longrightarrow> current_process_id (f T) = current_process_id (T :: terminal_t)"
  by (cases T; cases "f T") simp

text \<open>Output needs less: memory, ports, the interrupt flag and cursors.\<close>

locale output_view =
  fixes obs :: "kstate \<Rightarrow> 'v"
  assumes obs_pmem [simp]: "obs (s\<lparr>pmem := m\<rparr>) = obs s"
    and obs_io_log [simp]: "obs (s\<lparr>io_log := l\<rparr>) = obs s"
    and obs_iflag [simp]: "obs (s\<lparr>iflag := b\<rparr>) = obs s"
    and obs_cursor: "(\<And>T. (f T)\<lparr>screen_x := 0, screen_y := 0\<rparr> = T\<lparr>screen_x := 0, screen_y := 0\<rparr>)
      \<Longrightarrow> obs (upd_terminal t f s) = obs s"
begin

lemma obs_fold: "(\<And>x s. obs (f x s) = obs s) \<Longrightarrow> obs (fold f xs s) = obs s"
  by (induction xs arbitrary: s) simp_all

lemma obs_machine [simp]:
  "obs (outb v p s) = obs s" "obs (cli s) = obs s" "obs (sti s) = obs s"
  "obs (vstore a b s) = obs s" "obs (send_eoi n s) = obs s"
  "obs (enable_irq n s) = obs s"
  by (simp_all add: outb_def cli_def sti_def vstore_def send_eoi_def send_eoi_master_def enable_irq_def Let_def
      split: option.split)

lemma obs_vstore_bytes [simp]: "obs (vstore_bytes a bs s) = obs s"
  by (induction bs arbitrary: a s) simp_all

lemma obs_cells [simp]:
  "obs (show_cursor s) = obs s" "obs (set_cursor_position x y s) = obs s"
  "obs (blank_cell a i s) = obs s" "obs (copy_cell a i s) = obs s"
  by (simp_all add: show_cursor_def set_cursor_position_def blank_cell_def copy_cell_def Let_def)

lemma obs_scroll [simp]: "obs (scroll base s) = obs s"
  by (simp add: scroll_def Let_def obs_fold)

lemma obs_putc_at [simp]: "obs (putc_at t base c s) = obs s"
  by (simp add: putc_at_def putc_char_def putc_wrap_def Let_def obs_cursor)

lemma obs_back_putc_at [simp]: "obs (back_putc_at t base s) = obs s"
  by (simp add: back_putc_at_def Let_def obs_cursor)

lemma obs_clear_at [simp]: "obs (clear_at t base s) = obs s"
  by (simp add: clear_at_def Let_def obs_cursor obs_fold)

lemma obs_console [simp]:
  "obs (putc c s) = obs s" "obs (clear s) = obs s" "obs (current_terminal_putc c s) = obs s"
  "obs (current_terminal_back_putc s) = obs s" "obs (current_terminal_clear s) = obs s"
  by (simp_all add: putc_def clear_def current_terminal_putc_def current_terminal_back_putc_def
      current_terminal_clear_def)

lemma obs_printf: "printf cs args s = Some (r, s') \<Longrightarrow> obs s' = obs s"
  by (auto simp: printf_def obs_fold)

lemma obs_kprint [simp]: "obs (kprint cs s) = obs s"
  using obs_printf [of cs "[]" s] by (auto simp: kprint_def split: option.split)

lemma obs_load_program [simp]: "obs (load_program fd s) = obs s"
  by (simp add: load_program_def)

end

locale kernel_view = output_view obs for obs :: "kstate \<Rightarrow> 'v" +
  assumes obs_pages: "page_dir pt (dir_index VIRTUAL_ADDRESS_PROGRAM_START)
        = page_dir (pages s) (dir_index VIRTUAL_ADDRESS_PROGRAM_START) \<Longrightarrow> obs (s\<lparr>pages := pt\<rparr>) = obs s"
    and obs_alt [simp]: "obs (s\<lparr>alt_pressed := w\<rparr>) = obs s"
    and obs_ctrl [simp]: "obs (s\<lparr>ctrl_pressed := w\<rparr>) = obs s"
    and obs_shift [simp]: "obs (s\<lparr>shift_pressed := w\<rparr>) = obs s"
    and obs_caps [simp]: "obs (s\<lparr>caps_lock := w\<rparr>) = obs s"
    and obs_rtc_flag [simp]: "obs (s\<lparr>rtc_read_flag := c\<rparr>) = obs s"
    and obs_current [simp]: "obs (s\<lparr>current_terminal := t\<rparr>) = obs s"
    and obs_upd_terminal: "current_process_id (f (terminals s t)) = current_process_id (terminals s t)
      \<Longrightarrow> obs (upd_terminal t f s) = obs s"
begin

lemma obs_paging [simp]:
  "obs (paging_video_memory s) = obs s" "obs (syscall_enable_vidmap_paging s) = obs s"
  by (simp_all add: paging_video_memory_def syscall_enable_vidmap_paging_def Let_def obs_pages
      set_video_frame_def enable_vidmap_def)

lemma obs_switch [simp]:
  "obs (switch_to_terminal_1 s) = obs s" "obs (switch_to_terminal_2 s) = obs s"
  "obs (switch_to_terminal_3 s) = obs s"
  by (simp_all add: switch_to_terminal_1_def switch_to_terminal_2_def switch_to_terminal_3_def
      save_screen_def load_screen_def kmemcpy_def Let_def)

lemma obs_keyboard [simp]: "obs (keyboard_handler s) = obs s"
proof -
  have "current_process_id (buffer_key k t) = current_process_id t" for k t
    by (simp add: buffer_key_def store_key_def Let_def)
  then show ?thesis
    by (simp add: keyboard_handler_def keyboard_input_def backspace_key_def character_key_def Let_def
        obs_upd_terminal)
qed

lemma obs_rtc_handler [simp]: "obs (rtc_handler s) = obs s"
  by (simp add: rtc_handler_def count_down_def Let_def obs_upd_terminal)

end

text \<open>The interrupt handlers that return to the code they interrupt.\<close>

definition device_handlers :: "(kstate \<Rightarrow> kstate) set" where
  "device_handlers = {keyboard_handler, rtc_handler}"

lemma spin_invariant:
  assumes "spin_until c es s = Some s'" and "set es \<subseteq> H" and "\<And>e s. e \<in> H \<Longrightarrow> P s \<Longrightarrow> P (e s)" and "P s"
  shows "P s'"
  using assms by (induction es arbitrary: s) (auto split: if_splits)

context kernel_view
begin

lemma obs_spin:
  assumes "spin_until c es s = Some s'" and "set es \<subseteq> device_handlers"
  shows "obs s' = obs s"
  by (rule spin_invariant [OF assms, where P = "\<lambda>u. obs u = obs s"]) (auto simp: device_handlers_def)

lemma obs_terminal_read_loop: "obs (snd (terminal_read_loop i n buf s)) = obs s"
proof (induction i n buf s rule: terminal_read_loop.induct)
  case (1 index n buf s)
  then show ?case
    by (subst terminal_read_loop.simps) (simp add: line_done_def Let_def obs_upd_terminal)
qed

lemma obs_terminal_read:
  assumes "terminal_read es buf n s = Some (v, s')" and "set es \<subseteq> device_handlers"
  shows "obs s' = obs s"
proof (cases "buf = 0 \<or> n = 0")
  case True
  then show ?thesis using assms(1) by (auto simp: terminal_read_def split: if_splits)
next
  case False
  then obtain s1 m where sp: "spin_until (\<lambda>s. keyboard_buffer_enable (terminals s (active_terminal s)) \<noteq> 1) es
      (upd_terminal (active_terminal s) (\<lambda>t. t\<lparr>keyboard_buffer_enable := 1\<rparr>) s) = Some s1"
    and l: "terminal_read_loop 0 m buf s1 = (v, s')"
    using assms(1) by (auto simp: terminal_read_def Let_def split: option.splits if_splits)
  have "obs s' = obs s1" using obs_terminal_read_loop [of 0 m buf s1] l by simp
  then show ?thesis using obs_spin [OF sp assms(2)] by (simp add: obs_upd_terminal)
qed

lemma obs_rtc_read:
  assumes "rtc_read es s = Some (v, s')" and "set es \<subseteq> device_handlers"
  shows "obs s' = obs s"
  using assms(1) obs_spin [OF _ assms(2)]
  by (auto simp: rtc_read_def rtc_read_start_def obs_upd_terminal split: option.splits)

lemma obs_rtc_write_loop: "obs (snd (rtc_write_loop i rate s)) = obs s"
proof (induction i rate s rule: rtc_write_loop.induct)
  case (1 i rate s)
  then show ?case
    by (subst rtc_write_loop.simps) (simp add: Let_def obs_upd_terminal)
qed

lemma obs_write: "obs (snd (file_descriptor_table_write pid fd buf n s)) = obs s"
  by (auto simp: file_descriptor_table_write_def terminal_write_def rtc_write_def Let_def obs_fold
      obs_rtc_write_loop split: file_ops_ptr.splits)

end

section \<open>The process control blocks and the file system pointer\<close>

interpretation blocks: kernel_view pcbs
  by unfold_locales simp_all

interpretation image_at: kernel_view boot_block_pointer
  by unfold_locales simp_all

lemma paging_execute_frame [simp]:
  "pcbs (paging_execute p s) = pcbs s" "boot_block_pointer (paging_execute p s) = boot_block_pointer s"
  by (simp_all add: paging_execute_def)

text \<open>
  \<open>read\<close> moves a file position and otherwise leaves the process control blocks alone: any observation that
  such a move does not change is kept.
\<close>

context kernel_view
begin

lemma obs_read:
  assumes "file_descriptor_table_read es pid fd buf n s = Some (v, s')" and "set es \<subseteq> device_handlers"
    and p: "\<And>k pos u. obs (upd_pcb pid (set_pos k pos) u) = obs u"
  shows "obs s' = obs s"
  using assms(1) obs_terminal_read [OF _ assms(2)] obs_rtc_read [OF _ assms(2)]
  by (auto simp: file_descriptor_table_read_def Let_def p split: if_splits file_ops_ptr.splits prod.splits)

end

end
