(* ===== verification/Process_Tree.thy ===== *)
theory Process_Tree
  imports Kernel_Frames
begin

text \<open>
  The processes as a whole: for every terminal the chain of programs from the one that runs down to the
  root shell, and whose turn it is. \<open>proc_spec\<close> is the abstract state, with \<open>spec_tick\<close>, \<open>spec_execute\<close> and
  \<open>spec_halt\<close> as its operations; \<open>refines\<close> relates it to the process pool, the process control blocks and the
  terminals of the kernel. The lemmas show that \<open>pit_handler\<close>, \<open>syscall_execute\<close> and \<open>syscall_halt\<close> implement
  these operations and that no other operation of the kernel changes anything they depend on.
\<close>

section \<open>What the process structure depends on\<close>

definition proc_view :: "kstate \<Rightarrow> term_ptr \<times> u32 \<times> int \<times> int list \<times> (term_ptr \<Rightarrow> u32) \<times> (addr \<Rightarrow> u32 \<times> term_ptr)" where
  "proc_view s = (active_terminal s, active_pid s, process_count s, processes s,
     (\<lambda>t. current_process_id (terminals s t)), (\<lambda>a. (parent_pid (pcbs s a), pcb_terminal (pcbs s a))))"

interpretation proc: kernel_view proc_view
  by unfold_locales (auto simp: proc_view_def fun_eq_iff dest: cursor_process)

lemma proc_view_upd_pcb:
  "parent_pid (f (pcb_of p s)) = parent_pid (pcb_of p s) \<Longrightarrow> pcb_terminal (f (pcb_of p s)) = pcb_terminal (pcb_of p s)
     \<Longrightarrow> proc_view (upd_pcb p f s) = proc_view s"
  by (auto simp: proc_view_def upd_pcb_def pcb_of_def fun_eq_iff)

lemma proc_view_fields [simp]:
  "proc_view (s\<lparr>physical_rate := i\<rparr>) = proc_view s" "proc_view (s\<lparr>tss_esp0 := w\<rparr>) = proc_view s"
  "proc_view (s\<lparr>arg_buf := bs\<rparr>) = proc_view s" "proc_view (s\<lparr>argument_exist := c\<rparr>) = proc_view s"
  "proc_view (paging_execute p s) = proc_view s" "proc_view (s\<lparr>pages := pt\<rparr>) = proc_view s"
  by (simp_all add: proc_view_def paging_execute_def)

lemma proc_view_read:
  assumes "file_descriptor_table_read es pid fd buf n s = Some (v, s')" and "set es \<subseteq> device_handlers"
  shows "proc_view s' = proc_view s"
  by (rule proc.obs_read [OF assms]) (rule proc_view_upd_pcb; simp add: set_pos_def)

section \<open>The abstract processes\<close>

text \<open>
  Per terminal: whether its root shell has been entered, and the programs started from it that have not
  ended, the most recent first.
\<close>

record proc_spec =
  sp_active :: term_ptr
  sp_started :: "term_ptr \<Rightarrow> bool"
  sp_kids :: "term_ptr \<Rightarrow> u32 list"

definition root_pid :: "term_ptr \<Rightarrow> u32" where
  "root_pid t = (case t of Terminal_1 \<Rightarrow> 1 | Terminal_2 \<Rightarrow> 2 | Terminal_3 \<Rightarrow> 3)"

definition sp_chain :: "proc_spec \<Rightarrow> term_ptr \<Rightarrow> u32 list" where
  "sp_chain a t = sp_kids a t @ [root_pid t]"

definition sp_running :: "proc_spec \<Rightarrow> term_ptr \<Rightarrow> u32" where
  "sp_running a t = (if sp_started a t then hd (sp_chain a t) else 0)"

definition sp_all :: "proc_spec \<Rightarrow> u32 list" where
  "sp_all a = sp_kids a Terminal_1 @ sp_kids a Terminal_2 @ sp_kids a Terminal_3"

definition spec_boot :: proc_spec where
  "spec_boot = \<lparr>sp_active = Terminal_1, sp_started = (\<lambda>_. False), sp_kids = (\<lambda>_. [])\<rparr>"

definition spec_tick :: "proc_spec \<Rightarrow> proc_spec" where
  "spec_tick a =
     (let t = next_terminal (sp_active a) in a\<lparr>sp_active := t, sp_started := (sp_started a)(t := True)\<rparr>)"

definition spec_execute :: "u32 \<Rightarrow> proc_spec \<Rightarrow> proc_spec" where
  "spec_execute pid a = a\<lparr>sp_kids := (sp_kids a)(sp_active a := pid # sp_kids a (sp_active a))\<rparr>"

definition spec_halt :: "proc_spec \<Rightarrow> proc_spec" where
  "spec_halt a = a\<lparr>sp_kids := (sp_kids a)(sp_active a := tl (sp_kids a (sp_active a)))\<rparr>"

definition spec_ok :: "proc_spec \<Rightarrow> bool" where
  "spec_ok a \<longleftrightarrow> distinct (sp_all a) \<and> set (sp_all a) \<subseteq> {4, 5, 6}
     \<and> (\<forall>t. sp_kids a t \<noteq> [] \<longrightarrow> sp_started a t)"

text \<open>Each program of a chain names the next one as its parent.\<close>

fun linked :: "(u32 \<Rightarrow> u32) \<Rightarrow> u32 list \<Rightarrow> bool" where
  "linked parent (p # q # ps) \<longleftrightarrow> parent p = q \<and> linked parent (q # ps)"
| "linked parent _ \<longleftrightarrow> True"

definition pool_of :: "u32 list \<Rightarrow> int list" where
  "pool_of ps = [1, 1, 1, 1] @ map (\<lambda>p. if p \<in> set ps then 1 else 0) [4, 5, 6]"

definition refines :: "proc_spec \<Rightarrow> kstate \<Rightarrow> bool" where
  "refines a s \<longleftrightarrow> spec_ok a
     \<and> active_terminal s = sp_active a \<and> active_pid s = sp_running a (sp_active a)
     \<and> (\<forall>t. current_process_id (terminals s t) = sp_running a t)
     \<and> (\<forall>t. linked (\<lambda>p. parent_pid (pcb_of p s)) (sp_chain a t))
     \<and> (\<forall>t. \<forall>p\<in>set (sp_chain a t). pcb_terminal (pcb_of p s) = t)
     \<and> processes s = pool_of (sp_all a) \<and> process_count s = 3 + int (length (sp_all a))"

lemma refines_proc_view:
  assumes "proc_view s' = proc_view s"
  shows "refines a s' \<longleftrightarrow> refines a s"
proof -
  have eq: "active_terminal s' = active_terminal s" "active_pid s' = active_pid s"
    "process_count s' = process_count s" "processes s' = processes s"
    "\<And>t. current_process_id (terminals s' t) = current_process_id (terminals s t)"
    "\<And>p. parent_pid (pcb_of p s') = parent_pid (pcb_of p s)"
    "\<And>p. pcb_terminal (pcb_of p s') = pcb_terminal (pcb_of p s)"
    using assms by (auto simp: proc_view_def pcb_of_def fun_eq_iff)
  show ?thesis unfolding refines_def eq by (rule refl)
qed

section \<open>The pool\<close>

text \<open>The slots of the pool: 0 to 6, free when zero.\<close>

definition pool_used :: "int list \<Rightarrow> int set" where
  "pool_used ps = {i. 0 \<le> i \<and> i < 7 \<and> ps ! nat i \<noteq> 0}"

lemma find_free_slot:
  "find (\<lambda>i. ps ! i = 0) [0..<7] = Some i \<Longrightarrow> i < 7 \<and> ps ! i = (0 :: int)"
  "find (\<lambda>i. ps ! i = 0) [0..<7] = None \<longleftrightarrow> (\<forall>i<7. ps ! i \<noteq> (0 :: int))"
proof -
  assume "find (\<lambda>i. ps ! i = 0) [0..<7] = Some i"
  then show "i < 7 \<and> ps ! i = (0 :: int)" by (auto simp: find_Some_iff simp del: upt_rec_numeral)
next
  show "find (\<lambda>i. ps ! i = 0) [0..<7] = None \<longleftrightarrow> (\<forall>i<7. ps ! i \<noteq> (0 :: int))"
    by (auto simp: find_None_iff simp del: upt_rec_numeral)
qed

lemma pool_used_full: "pool_used ps = {0..<7} \<longleftrightarrow> (\<forall>i<7. ps ! i \<noteq> 0)"
proof
  assume full: "pool_used ps = {0..<7}"
  show "\<forall>i<7. ps ! i \<noteq> 0"
  proof (intro allI impI)
    fix i :: nat
    assume "i < 7"
    then have "int i \<in> pool_used ps" unfolding full by simp
    then show "ps ! i \<noteq> 0" by (simp add: pool_used_def)
  qed
next
  assume all: "\<forall>i<7. ps ! i \<noteq> 0"
  show "pool_used ps = {0..<7}" by (auto simp: pool_used_def all)
qed

lemma pool_used_update:
  assumes "length ps = 7" and "i < 7"
  shows "pool_used (ps[i := v]) = (if v = 0 then pool_used ps - {int i} else insert (int i) (pool_used ps))"
  using assms by (auto simp: pool_used_def nth_list_update)

interpretation process_pool: slot_pool pool_acquire pool_release pool_used "{0..<7}" "\<lambda>ps. length ps = 7"
proof
  show "finite {0..<7 :: int}" by simp
  show "pool_used ps \<subseteq> {0..<7}" for ps by (auto simp: pool_used_def)
next
  fix ps ps' :: "int list" and i
  assume l: "length ps = 7" and free: "pool_used ps \<noteq> {0..<7}" and a: "pool_acquire ps = (i, ps')"
  then obtain k where k: "find (\<lambda>i. ps ! i = 0) [0..<7] = Some k"
    using find_free_slot(2) [of ps] pool_used_full [of ps] by (auto simp del: upt_rec_numeral)
  have "k < 7" "ps ! k = 0" using find_free_slot(1) [OF k] by auto
  moreover have "i = int k" "ps' = ps[k := 1]" using a k by (auto simp: pool_acquire_def simp del: upt_rec_numeral)
  ultimately show "i \<in> {0..<7} - pool_used ps \<and> pool_used ps' = insert i (pool_used ps) \<and> length ps' = 7"
    using l by (simp add: pool_used_update) (simp add: pool_used_def)
next
  fix ps :: "int list"
  assume "length ps = 7" and "pool_used ps = {0..<7}"
  then show "pool_acquire ps = (-1, ps)"
    using find_free_slot(2) [of ps] pool_used_full [of ps] by (simp add: pool_acquire_def del: upt_rec_numeral)
next
  fix ps ps' :: "int list" and i r
  assume l: "length ps = 7" and i: "i \<in> pool_used ps" and rel: "pool_release i ps = (r, ps')"
  have b: "0 \<le> i" "nat i < 7" using i by (auto simp: pool_used_def)
  then have "r = 0" "ps' = ps[nat i := 0]" using rel by (auto simp: pool_release_def split: if_splits)
  then show "r = 0 \<and> pool_used ps' = pool_used ps - {i} \<and> length ps' = 7"
    using l b pool_used_update [OF l b(2), of 0] by simp
qed

section \<open>Process numbers\<close>

lemma pcb_addr_small:
  assumes "p \<le> 6" and "q \<le> 6"
  shows "pcb_addr p = pcb_addr q \<longleftrightarrow> p = q"
  using assms by (intro pcb_addr_inj_nat) (simp_all add: word_le_nat_alt)

lemma root_pid_cases: "root_pid t \<in> {1, 2, 3}" "root_pid t \<noteq> 0" "root_pid t \<le> 6" "root_pid t \<notin> {4, 5, 6}"
  "root_pid t = root_pid u \<longleftrightarrow> t = u"
  by (cases t; cases u; simp add: root_pid_def)+

lemma kids_sub_all: "set (sp_kids a t) \<subseteq> set (sp_all a)"
  by (cases t) (auto simp: sp_all_def)

lemma kids_small:
  assumes "spec_ok a" and "p \<in> set (sp_kids a t)"
  shows "p \<in> {4, 5, 6}"
  using assms kids_sub_all [of a t] unfolding spec_ok_def by blast

lemma kids_disjoint:
  assumes "spec_ok a" and "p \<in> set (sp_kids a t)" and "p \<in> set (sp_kids a u)"
  shows "t = u"
  using assms by (cases t; cases u) (auto simp: spec_ok_def sp_all_def)

lemma chain_small:
  assumes "spec_ok a" and "p \<in> set (sp_chain a t)"
  shows "p \<le> 6" and "p \<noteq> 0"
proof -
  have "p = root_pid t \<or> p \<in> {4, 5, 6}" using assms kids_small by (auto simp: sp_chain_def)
  then show "p \<le> 6" "p \<noteq> 0" using root_pid_cases(2,3) [of t] by auto
qed

lemma chain_disjoint:
  assumes "spec_ok a" and "p \<in> set (sp_chain a t)" and "p \<in> set (sp_chain a u)"
  shows "t = u"
proof -
  have k: "p \<in> {4, 5, 6}" if "p \<in> set (sp_kids a v)" for v by (rule kids_small [OF assms(1) that])
  show ?thesis
    using assms k root_pid_cases(4) [of t] root_pid_cases(4) [of u] root_pid_cases(5) [of t u]
      kids_disjoint [OF assms(1), of p t u]
    by (auto simp: sp_chain_def)
qed

lemma hd_chain: "hd (sp_chain a t) \<in> set (sp_chain a t)"
  by (cases "sp_kids a t") (simp_all add: sp_chain_def)

lemma running_small: "spec_ok a \<Longrightarrow> sp_running a t \<le> 6"
  using chain_small [OF _ hd_chain] by (auto simp: sp_running_def)

lemma running_zero: "spec_ok a \<Longrightarrow> sp_running a t = 0 \<longleftrightarrow> \<not> sp_started a t"
  using chain_small(2) [OF _ hd_chain] by (auto simp: sp_running_def)

lemma running_inj:
  assumes "spec_ok a" and "sp_running a t = sp_running a u" and "sp_started a t" and "sp_started a u"
  shows "t = u"
  using assms hd_chain [of a t] hd_chain [of a u] chain_disjoint [OF assms(1)] by (simp add: sp_running_def)

lemma next_terminal_neq: "next_terminal t \<noteq> t" "next_terminal (next_terminal t) \<noteq> t"
  "next_terminal (next_terminal (next_terminal t)) = t"
  by (cases t; simp add: next_terminal_def)+

section \<open>The timer\<close>

lemma pcb_of_fields [simp]:
  "pcb_of p (s\<lparr>active_terminal := t\<rparr>) = pcb_of p s" "pcb_of p (s\<lparr>active_pid := q\<rparr>) = pcb_of p s"
  "pcb_of p (s\<lparr>process_count := n\<rparr>) = pcb_of p s" "pcb_of p (s\<lparr>processes := ps\<rparr>) = pcb_of p s"
  "pcb_of p (s\<lparr>tss_esp0 := w\<rparr>) = pcb_of p s" "pcb_of p (s\<lparr>pages := pt\<rparr>) = pcb_of p s"
  by (simp_all add: pcb_of_def)

text \<open>Give the processor to process \<open>pid\<close> of terminal \<open>t\<close>.\<close>

definition activate :: "term_ptr \<Rightarrow> u32 \<Rightarrow> kstate \<Rightarrow> kstate" where
  "activate t pid s = upd_terminal t (\<lambda>T. T\<lparr>current_process_id := pid\<rparr>) (s\<lparr>active_terminal := t, active_pid := pid\<rparr>)"

lemma activate_view: "proc_view u = proc_view v \<Longrightarrow> proc_view (activate t p u) = proc_view (activate t p v)"
  by (auto simp: proc_view_def activate_def fun_eq_iff)

lemma refines_activate:
  assumes "refines a s" and "proc_view s' = proc_view (activate t (hd (sp_chain a t)) s)"
  shows "refines (a\<lparr>sp_active := t, sp_started := (sp_started a)(t := True)\<rparr>) s'"
proof -
  have "refines (a\<lparr>sp_active := t, sp_started := (sp_started a)(t := True)\<rparr>) (activate t (hd (sp_chain a t)) s)"
    using assms(1)
    by (auto simp: refines_def activate_def spec_ok_def sp_running_def sp_chain_def sp_all_def)
  then show ?thesis using refines_proc_view [OF assms(2)] by simp
qed

lemma boot_enter_view:
  "\<exists>pc s'. boot_enter t pid s = Enter_user pc USER_STACK_BASE_ADDRESS s'
     \<and> proc_view s' = proc_view (activate t pid s) \<and> pcbs s' = pcbs s \<and> tss_esp0 s' = kernel_stack_top pid"
  by (simp add: boot_enter_def context_switch_execute_def activate_def Let_def sti_def paging_execute_def)

lemma boot_enters:
  "boot_enter_terminal_1 = boot_enter Terminal_1 (root_pid Terminal_1)"
  "boot_enter_terminal_2 = boot_enter Terminal_2 (root_pid Terminal_2)"
  "boot_enter_terminal_3 = boot_enter Terminal_3 (root_pid Terminal_3)"
  by (simp_all add: boot_enter_terminal_1_def boot_enter_terminal_2_def boot_enter_terminal_3_def root_pid_def)

lemma proc_view_save_stack [simp]: "proc_view (save_stack p e b s) = proc_view s"
  unfolding save_stack_def by (rule proc_view_upd_pcb) simp_all

lemma save_stack_frame [simp]:
  "terminals (save_stack p e b s) = terminals s" "active_terminal (save_stack p e b s) = active_terminal s"
  "active_pid (save_stack p e b s) = active_pid s" "pages (save_stack p e b s) = pages s"
  by (simp_all add: save_stack_def)

text \<open>The process whose stack pointers a tick saves.\<close>

definition tick_saves :: "kstate \<Rightarrow> u32" where
  "tick_saves s =
     (let t = next_terminal (active_terminal s)
      in if current_process_id (terminals s t) \<noteq> 0 then active_pid s else boot_saver t)"

definition tick_base :: "addr \<Rightarrow> addr \<Rightarrow> kstate \<Rightarrow> kstate" where
  "tick_base esp ebp s =
     (let t = next_terminal (active_terminal s)
      in save_stack (tick_saves s) esp ebp (s\<lparr>active_terminal := t, active_pid := current_process_id (terminals s t)\<rparr>))"

lemma schedule_split:
  "schedule esp ebp s =
     (let t = next_terminal (active_terminal s); p = current_process_id (terminals s t); u = tick_base esp ebp s
      in if p = 0 then boot_enter t (root_pid t) u
         else let v = sti (paging_video_memory (paging_execute p (u\<lparr>tss_esp0 := kernel_stack_top p\<rparr>)))
              in Switch (current_esp (pcb_of p u)) (current_ebp (pcb_of p u)) v)"
  by (cases "active_terminal s")
    (simp_all add: schedule_def tick_base_def tick_saves_def next_terminal_def boot_enters Let_def pcb_of_def
      paging_execute_def sti_def)

lemma tick_base_view:
  "proc_view (tick_base esp ebp s) = proc_view (s\<lparr>active_terminal := next_terminal (active_terminal s),
     active_pid := current_process_id (terminals s (next_terminal (active_terminal s)))\<rparr>)"
  by (simp add: tick_base_def Let_def)

lemma tick_base_pcbs:
  "pcbs (tick_base esp ebp s) = (pcbs s)(pcb_addr (tick_saves s) :=
     (pcb_of (tick_saves s) s)\<lparr>current_esp := esp, current_ebp := ebp\<rparr>)"
  by (simp add: tick_base_def save_stack_def upd_pcb_def pcb_of_def Let_def)

lemma schedule_start:
  assumes r: "refines a s" and n: "\<not> sp_started a (next_terminal (sp_active a))"
  shows "\<exists>pc s'. schedule esp ebp s = Enter_user pc USER_STACK_BASE_ADDRESS s' \<and> refines (spec_tick a) s'
    \<and> pcbs s' = pcbs (tick_base esp ebp s) \<and> tss_esp0 s' = kernel_stack_top (root_pid (next_terminal (sp_active a)))"
proof -
  let ?t = "next_terminal (sp_active a)" and ?u = "tick_base esp ebp s"
  have t: "active_terminal s = sp_active a" and ok: "spec_ok a" using r by (simp_all add: refines_def)
  have z: "current_process_id (terminals s ?t) = 0"
    using r n running_zero [OF ok] by (simp add: refines_def)
  have kids: "sp_kids a ?t = []" using ok n unfolding spec_ok_def by blast
  then have hd: "hd (sp_chain a ?t) = root_pid ?t" by (simp add: sp_chain_def)
  obtain pc s' where b: "boot_enter ?t (root_pid ?t) ?u = Enter_user pc USER_STACK_BASE_ADDRESS s'"
    and v: "proc_view s' = proc_view (activate ?t (root_pid ?t) ?u)" and p: "pcbs s' = pcbs ?u"
    and k: "tss_esp0 s' = kernel_stack_top (root_pid ?t)"
    using boot_enter_view [of ?t "root_pid ?t" ?u] by blast
  have "proc_view s' = proc_view (activate ?t (hd (sp_chain a ?t)) s)"
    unfolding v hd activate_view [OF tick_base_view] t by (simp add: activate_def)
  then have "refines (spec_tick a) s'" using refines_activate [OF r] by (simp add: spec_tick_def Let_def)
  then show ?thesis using b p k z t by (auto simp: schedule_split Let_def)
qed

lemma schedule_switch:
  assumes r: "refines a s" and n: "sp_started a (next_terminal (sp_active a))"
  shows "\<exists>s'. schedule esp ebp s
      = Switch (current_esp (pcb_of (sp_running a (next_terminal (sp_active a))) s'))
          (current_ebp (pcb_of (sp_running a (next_terminal (sp_active a))) s')) s'
    \<and> refines (spec_tick a) s' \<and> pcbs s' = pcbs (tick_base esp ebp s)
    \<and> tss_esp0 s' = kernel_stack_top (sp_running a (next_terminal (sp_active a))) \<and> iflag s'"
proof -
  let ?t = "next_terminal (sp_active a)" and ?u = "tick_base esp ebp s"
  let ?p = "sp_running a ?t"
  have t: "active_terminal s = sp_active a" and ok: "spec_ok a" using r by (simp_all add: refines_def)
  have c: "current_process_id (terminals s ?t) = ?p" using r by (simp add: refines_def)
  have nz: "?p \<noteq> 0" using running_zero [OF ok] n by simp
  have hd: "hd (sp_chain a ?t) = ?p" using n by (simp add: sp_running_def)
  let ?v = "sti (paging_video_memory (paging_execute ?p (?u\<lparr>tss_esp0 := kernel_stack_top ?p\<rparr>)))"
  have "proc_view ?v = proc_view (activate ?t ?p s)"
    unfolding activate_def using tick_base_view [of esp ebp s] c t
    by (subst proc.obs_upd_terminal) simp_all
  then have "refines (spec_tick a) ?v"
    using refines_activate [OF r, of ?v ?t] hd by (simp add: spec_tick_def Let_def)
  moreover have "pcbs ?v = pcbs ?u" by (simp add: sti_def paging_execute_def)
  moreover have "tss_esp0 ?v = kernel_stack_top ?p"
    by (simp add: sti_def paging_execute_def paging_video_memory_def Let_def)
  moreover have "schedule esp ebp s = Switch (current_esp (pcb_of ?p ?u)) (current_ebp (pcb_of ?p ?u)) ?v"
    using c t nz by (simp add: schedule_split Let_def)
  ultimately show ?thesis by (intro exI [of _ ?v]) (simp add: pcb_of_def sti_def)
qed

text \<open>The state of the kernel after an operation, if it goes on.\<close>

definition after :: "outcome \<Rightarrow> kstate option" where
  "after r = (case r of Return v s \<Rightarrow> Some s | Enter_user pc sp s \<Rightarrow> Some s | Resume e b v s \<Rightarrow> Some s
     | Switch e b s \<Rightarrow> Some s | _ \<Rightarrow> None)"

lemma refines_eoi: "refines a (send_eoi n (cli s)) \<longleftrightarrow> refines a s"
  by (rule refines_proc_view) simp

lemma pit_handler_refines:
  assumes "refines a s"
  shows "\<exists>s'. after (pit_handler esp ebp s) = Some s' \<and> refines (spec_tick a) s'"
proof -
  let ?s = "send_eoi 0 (cli s)"
  have r: "refines a ?s" using assms refines_eoi by blast
  have sti: "refines b (sti u) \<longleftrightarrow> refines b u" for b u by (rule refines_proc_view) simp
  show ?thesis
  proof (cases "sp_started a (next_terminal (sp_active a))")
    case True
    then show ?thesis using schedule_switch [OF r True, of esp ebp] sti by (auto simp: pit_handler_def after_def)
  next
    case False
    then show ?thesis using schedule_start [OF r False, of esp ebp] by (auto simp: pit_handler_def after_def)
  qed
qed

section \<open>halt\<close>

lemma proc_view_close:
  "parent_pid (snd (file_descriptor_table_close fd p)) = parent_pid p"
  "pcb_terminal (snd (file_descriptor_table_close fd p)) = pcb_terminal p"
  by (simp_all add: file_descriptor_table_close_def Let_def split: prod.split)

lemma proc_view_close_all [simp]: "proc_view (close_all p s) = proc_view s"
  unfolding close_all_def by (rule proc.obs_fold) (rule proc_view_upd_pcb; simp add: proc_view_close)

text \<open>Remove the running program of the active terminal and hand over to its parent.\<close>

definition drop_process :: "kstate \<Rightarrow> kstate" where
  "drop_process s = activate (pcb_terminal (pcb_of (parent_pid (pcb_of (active_pid s) s)) s))
     (parent_pid (pcb_of (active_pid s) s))
     (s\<lparr>process_count := process_count s - 1, processes := snd (pool_release (sint (active_pid s)) (processes s))\<rparr>)"

text \<open>The state in which the parent of the running program goes on.\<close>

definition halted :: "kstate \<Rightarrow> kstate" where
  "halted s =
     (let p = active_pid s; q = parent_pid (pcb_of p s)
      in paging_video_memory (paging_execute q ((activate (pcb_terminal (pcb_of q s)) q
           (close_all p (s\<lparr>process_count := process_count s - 1,
              processes := snd (pool_release (sint p) (processes s))\<rparr>)))\<lparr>tss_esp0 := kernel_stack_top q\<rparr>)))"

lemma halt_child_eq:
  assumes "active_pid s \<notin> {1, 2, 3}"
  shows "syscall_halt status s = context_switch_halt status (halted s)"
proof -
  let ?p = "active_pid s"
  let ?s1 = "s\<lparr>process_count := process_count s - 1, processes := snd (pool_release (sint ?p) (processes s))\<rparr>"
  let ?s2 = "close_all ?p ?s1"
  have v2: "proc_view ?s2 = proc_view ?s1" by simp
  then have par: "parent_pid (pcb_of q ?s2) = parent_pid (pcb_of q s)"
    "pcb_terminal (pcb_of q ?s2) = pcb_terminal (pcb_of q s)" for q
    by (auto simp: proc_view_def pcb_of_def fun_eq_iff)
  have swap: "u\<lparr>active_pid := q, active_terminal := t\<rparr> = u\<lparr>active_terminal := t, active_pid := q\<rparr>" for u :: kstate and q t
    by (cases u) simp
  show ?thesis
    using assms par
    by (simp add: syscall_halt_def halted_def release_process_def Let_def activate_def split_beta swap)
qed

lemma halted_frame:
  "proc_view (halted s) = proc_view (drop_process s)" "active_pid (halted s) = parent_pid (pcb_of (active_pid s) s)"
  "tss_esp0 (halted s) = kernel_stack_top (active_pid (halted s))" "pcbs (halted s) = pcbs (close_all (active_pid s) s)"
proof -
  let ?p = "active_pid s"
  let ?s1 = "s\<lparr>process_count := process_count s - 1, processes := snd (pool_release (sint ?p) (processes s))\<rparr>"
  have "proc_view (close_all ?p ?s1) = proc_view ?s1" by simp
  from activate_view [OF this] show "proc_view (halted s) = proc_view (drop_process s)"
    by (simp add: halted_def drop_process_def Let_def)
  have "pcbs (fold (\<lambda>i. upd_pcb ?p (\<lambda>p. snd (file_descriptor_table_close (int i) p))) is u)
      = pcbs (fold (\<lambda>i. upd_pcb ?p (\<lambda>p. snd (file_descriptor_table_close (int i) p))) is w)"
    if "pcbs u = pcbs w" for "is" u w
    using that by (induction "is" arbitrary: u w) (simp_all add: upd_pcb_def pcb_of_def)
  from this [of ?s1 s] have "pcbs (close_all ?p ?s1) = pcbs (close_all ?p s)" unfolding close_all_def by simp
  then show "pcbs (halted s) = pcbs (close_all ?p s)"
    by (simp add: halted_def activate_def paging_execute_def Let_def)
  show "active_pid (halted s) = parent_pid (pcb_of (active_pid s) s)"
    by (simp add: halted_def activate_def paging_execute_def Let_def)
  then show "tss_esp0 (halted s) = kernel_stack_top (active_pid (halted s))"
    by (simp add: halted_def activate_def paging_execute_def paging_video_memory_def Let_def)
qed

lemma syscall_halt_child:
  assumes "active_pid s \<notin> {1, 2, 3}"
  shows "syscall_halt status s = Resume (current_esp (pcb_of (active_pid (halted s)) (halted s)))
      (current_ebp (pcb_of (active_pid (halted s)) (halted s))) (ucast status) (halted s)"
  by (simp add: halt_child_eq [OF assms] context_switch_halt_def Let_def)

lemma pool_of_release:
  assumes "p \<in> {4, 5, 6}" and "set ys = set xs - {p}"
  shows "snd (pool_release (sint p) (pool_of xs)) = pool_of ys"
proof -
  consider "p = 4" | "p = 5" | "p = 6" using assms(1) by auto
  then show ?thesis by cases (use assms(2) in \<open>simp_all add: pool_release_def pool_of_def\<close>)
qed

lemma sp_all_halt:
  assumes "spec_ok a" and "sp_kids a (sp_active a) = p # rest"
  shows "set (sp_all (spec_halt a)) = set (sp_all a) - {p}" and "distinct (sp_all (spec_halt a))"
    and "length (sp_all a) = Suc (length (sp_all (spec_halt a)))"
  using assms by (cases "sp_active a"; auto simp: sp_all_def spec_halt_def spec_ok_def)+

lemma sp_halt_simps [simp]:
  "sp_active (spec_halt a) = sp_active a" "sp_started (spec_halt a) = sp_started a"
  "sp_kids (spec_halt a) t = (if t = sp_active a then tl (sp_kids a t) else sp_kids a t)"
  by (simp_all add: spec_halt_def)

lemma linked_tl: "linked f (p # ps) \<Longrightarrow> linked f ps"
  by (cases ps) simp_all

lemma drop_process_refines:
  assumes r: "refines a s" and k: "sp_kids a (sp_active a) = p # rest"
  shows "refines (spec_halt a) (drop_process s)"
proof -
  let ?t = "sp_active a" and ?q = "hd (rest @ [root_pid (sp_active a)])"
  have ok: "spec_ok a" and st: "sp_started a ?t" using r k by (auto simp: refines_def spec_ok_def)
  have p: "active_pid s = p" using r st k by (simp add: refines_def sp_running_def sp_chain_def)
  have p46: "p \<in> {4, 5, 6}" using kids_small [OF ok] k by (metis list.set_intros(1))
  have chain: "sp_chain a ?t = p # rest @ [root_pid ?t]" by (simp add: sp_chain_def k)
  have "linked (\<lambda>p. parent_pid (pcb_of p s)) (p # rest @ [root_pid ?t])" using r chain by (metis refines_def)
  note lp = this
  then have par: "parent_pid (pcb_of p s) = ?q" by (cases rest) simp_all
  have "?q \<in> set (sp_chain a ?t)" unfolding chain by (cases rest) simp_all
  then have pt: "pcb_terminal (pcb_of ?q s) = ?t" using r by (simp add: refines_def)
  have drop: "drop_process s = activate ?t ?q (s\<lparr>process_count := process_count s - 1,
      processes := snd (pool_release (sint p) (processes s))\<rparr>)"
    by (simp add: drop_process_def p par pt)
  have pool: "snd (pool_release (sint p) (processes s)) = pool_of (sp_all (spec_halt a))"
    using pool_of_release [OF p46 sp_all_halt(1) [OF ok k]] r by (simp add: refines_def)
  have sok: "spec_ok (spec_halt a)"
    using ok sp_all_halt [OF ok k] st by (auto simp: spec_ok_def)
  have ch: "sp_chain (spec_halt a) t = (if t = ?t then rest @ [root_pid ?t] else sp_chain a t)" for t
    by (simp add: sp_chain_def k)
  have run: "sp_running (spec_halt a) t = (if t = ?t then ?q else sp_running a t)" for t
    by (simp add: sp_running_def ch st)
  have link: "linked (\<lambda>p. parent_pid (pcb_of p s)) (sp_chain (spec_halt a) t)" for t
    using r linked_tl [OF lp] by (simp add: ch refines_def)
  have ter: "\<forall>q\<in>set (sp_chain (spec_halt a) t). pcb_terminal (pcb_of q s) = t" for t
    using r chain by (auto simp: ch refines_def)
  have count: "process_count s - 1 = 3 + int (length (sp_all (spec_halt a)))"
    using r sp_all_halt(3) [OF ok k] by (simp add: refines_def)
  show ?thesis unfolding drop refines_def
    using sok run link ter pool count r by (simp add: activate_def refines_def)
qed

lemma syscall_halt_refines:
  assumes r: "refines a s" and st: "sp_started a (sp_active a)"
  shows "\<exists>s'. after (syscall_halt status s) = Some s' \<and> refines (spec_halt a) s'"
proof (cases "sp_kids a (sp_active a)")
  case Nil
  let ?t = "sp_active a"
  have p: "active_pid s = root_pid ?t" using r st Nil by (simp add: refines_def sp_running_def sp_chain_def)
  have sp: "spec_halt a = a\<lparr>sp_active := ?t, sp_started := (sp_started a)(?t := True)\<rparr>"
  proof -
    have "(sp_kids a)(?t := []) = sp_kids a" "(sp_started a)(?t := True) = sp_started a"
      using Nil st by (auto simp: fun_eq_iff)
    then show ?thesis by (simp add: spec_halt_def Nil)
  qed
  obtain m where m: "syscall_halt status s = boot_enter ?t (root_pid ?t) (kprint m s)"
    using p by (cases ?t) (simp_all add: syscall_halt_def boot_enters root_pid_def)
  obtain pc s' where b: "boot_enter ?t (root_pid ?t) (kprint m s) = Enter_user pc USER_STACK_BASE_ADDRESS s'"
    and v: "proc_view s' = proc_view (activate ?t (root_pid ?t) (kprint m s))"
    using boot_enter_view by blast
  have "proc_view s' = proc_view (activate ?t (hd (sp_chain a ?t)) s)"
    unfolding v by (subst activate_view [of _ s]) (simp_all add: sp_chain_def Nil)
  then show ?thesis using refines_activate [OF r, of s' ?t] b m by (simp add: sp after_def)
next
  case (Cons p rest)
  have ok: "spec_ok a" using r by (simp add: refines_def)
  have p: "active_pid s = p" using r st Cons by (simp add: refines_def sp_running_def sp_chain_def)
  have "p \<in> {4, 5, 6}" using kids_small [OF ok] Cons by (metis list.set_intros(1))
  then have "active_pid s \<notin> {1, 2, 3}" using p by auto
  then have "after (syscall_halt status s) = Some (halted s)" by (simp add: syscall_halt_child after_def)
  then show ?thesis using drop_process_refines [OF r Cons] refines_proc_view [OF halted_frame(1)] by blast
qed

section \<open>execute\<close>

lemma free_pid:
  assumes "spec_ok a" and "length (sp_all a) < 3"
  shows "\<exists>pid. pid \<in> {4, 5, 6} - set (sp_all a)
    \<and> pool_acquire (pool_of (sp_all a)) = (sint pid, pool_of (pid # sp_all a)) \<and> of_int (sint pid) = pid"
proof -
  let ?xs = "sp_all a"
  have d: "distinct ?xs" "set ?xs \<subseteq> {4, 5, 6}" using assms(1) by (simp_all add: spec_ok_def)
  have "card (set ?xs) < 3" using d(1) assms(2) by (simp add: distinct_card)
  then have "set ?xs \<noteq> {4, 5, 6}" by auto
  then consider "4 \<notin> set ?xs" | "4 \<in> set ?xs" "5 \<notin> set ?xs" | "4 \<in> set ?xs" "5 \<in> set ?xs" "6 \<notin> set ?xs"
    using d(2) by blast
  then show ?thesis
  proof cases
    case 1
    then show ?thesis by (intro exI [of _ 4]) (simp add: pool_acquire_def pool_of_def upt_rec)
  next
    case 2
    then show ?thesis by (intro exI [of _ 5]) (simp add: pool_acquire_def pool_of_def upt_rec)
  next
    case 3
    then show ?thesis by (intro exI [of _ 6]) (simp add: pool_acquire_def pool_of_def upt_rec)
  qed
qed

lemma sp_execute_simps [simp]:
  "sp_active (spec_execute p a) = sp_active a" "sp_started (spec_execute p a) = sp_started a"
  "sp_kids (spec_execute p a) t = (if t = sp_active a then p # sp_kids a t else sp_kids a t)"
  by (simp_all add: spec_execute_def)

lemma sp_all_execute:
  "set (sp_all (spec_execute p a)) = insert p (set (sp_all a))"
  "length (sp_all (spec_execute p a)) = Suc (length (sp_all a))"
  "distinct (sp_all (spec_execute p a)) \<longleftrightarrow> p \<notin> set (sp_all a) \<and> distinct (sp_all a)"
  by (cases "sp_active a"; auto simp: sp_all_def)+

lemma spec_halt_execute: "spec_halt (spec_execute p a) = a"
  by (simp add: spec_halt_def spec_execute_def)

text \<open>Add a program on top of the running one of the active terminal.\<close>

definition add_process :: "u32 \<Rightarrow> kstate \<Rightarrow> kstate" where
  "add_process pid s = activate (active_terminal s) pid
     (upd_pcb pid (\<lambda>p. p\<lparr>parent_pid := active_pid s, pcb_terminal := active_terminal s\<rparr>)
       (s\<lparr>process_count := process_count s + 1, processes := snd (pool_acquire (processes s))\<rparr>))"

lemma linked_cong: "(\<And>p. p \<in> set ps \<Longrightarrow> f p = g p) \<Longrightarrow> linked f ps \<longleftrightarrow> linked g ps"
  by (induction f ps rule: linked.induct) auto

lemma add_process_refines:
  assumes r: "refines a s" and st: "sp_started a (sp_active a)"
    and pid: "pid \<in> {4, 5, 6} - set (sp_all a)" "pool_acquire (pool_of (sp_all a)) = (i, pool_of (pid # sp_all a))"
  shows "refines (spec_execute pid a) (add_process pid s)"
proof -
  let ?t = "sp_active a"
  have ok: "spec_ok a" and t: "active_terminal s = ?t" and ap: "active_pid s = sp_running a ?t"
    using r by (simp_all add: refines_def)
  have pid6: "pid \<le> 6" using pid(1) by auto
  have new: "q \<noteq> pid" if "q \<in> set (sp_chain a u)" for q u
    using that pid(1) kids_sub_all [of a u] root_pid_cases(4) [of u] by (auto simp: sp_chain_def)
  have other: "pcb_of q (upd_pcb pid f u) = pcb_of q u" if "q \<in> set (sp_chain a v)" for q v f u
    using new [OF that] pcb_addr_small [OF chain_small(1) [OF ok that] pid6] by (simp add: pcb_of_upd_pcb)
  have ch: "sp_chain (spec_execute pid a) u = (if u = ?t then pid # sp_chain a u else sp_chain a u)" for u
    by (simp add: sp_chain_def)
  have run: "sp_running (spec_execute pid a) u = (if u = ?t then pid else sp_running a u)" for u
    using st by (simp add: sp_running_def ch)
  let ?s = "add_process pid s"
  let ?F = "\<lambda>p. p\<lparr>parent_pid := active_pid s, pcb_terminal := active_terminal s\<rparr>"
  have old: "pcb_of q ?s = pcb_of q s" if "q \<in> set (sp_chain a v)" for q v
    using other [OF that] by (simp add: add_process_def activate_def)
  have new_pcb: "parent_pid (pcb_of pid ?s) = active_pid s" "pcb_terminal (pcb_of pid ?s) = ?t"
    by (simp_all add: add_process_def activate_def pcb_of_upd_pcb t)
  have lk: "linked (\<lambda>p. parent_pid (pcb_of p ?s)) (sp_chain a v)" for v
    using r old [of _ v] linked_cong [of "sp_chain a v" "\<lambda>p. parent_pid (pcb_of p ?s)" "\<lambda>p. parent_pid (pcb_of p s)"]
    by (simp add: refines_def)
  obtain rest where hd: "sp_chain a ?t = active_pid s # rest"
    using ap st by (cases "sp_chain a ?t") (simp_all add: sp_running_def, simp add: sp_chain_def)
  have link: "linked (\<lambda>p. parent_pid (pcb_of p ?s)) (sp_chain (spec_execute pid a) u)" for u
  proof (cases "u = ?t")
    case True
    have "linked (\<lambda>p. parent_pid (pcb_of p ?s)) (pid # active_pid s # rest)"
      using lk [of ?t] hd new_pcb(1) by simp
    then show ?thesis using True hd by (simp add: ch)
  qed (simp add: ch lk)
  have ter: "\<forall>q\<in>set (sp_chain (spec_execute pid a) u). pcb_terminal (pcb_of q ?s) = u" for u
    using r old [of _ u] new_pcb(2) by (auto simp: ch refines_def)
  have sok: "spec_ok (spec_execute pid a)"
    using ok st pid(1) by (auto simp: spec_ok_def sp_all_execute)
  have pool: "processes ?s = pool_of (sp_all (spec_execute pid a))"
    using r pid(2) by (simp add: add_process_def activate_def refines_def pool_of_def sp_all_execute)
  have "active_terminal ?s = ?t" "active_pid ?s = pid" "process_count ?s = process_count s + 1"
    "\<And>u. current_process_id (terminals ?s u) = (if u = ?t then pid else current_process_id (terminals s u))"
    using t by (simp_all add: add_process_def activate_def)
  then show ?thesis
    unfolding refines_def using sok run link ter pool r by (simp add: refines_def sp_all_execute)
qed

lemma active_pid_view: "proc_view u = proc_view v \<Longrightarrow> proc_view (u\<lparr>active_pid := p\<rparr>) = proc_view (v\<lparr>active_pid := p\<rparr>)"
  by (simp add: proc_view_def)

lemma upd_pcb_view:
  assumes "proc_view u = proc_view v" and "\<And>p. parent_pid (f p) = q \<and> pcb_terminal (f p) = t"
    and "\<And>p. parent_pid (g p) = q \<and> pcb_terminal (g p) = t"
  shows "proc_view (upd_pcb pid f u) = proc_view (upd_pcb pid g v)"
  using assms by (auto simp: proc_view_def upd_pcb_def fun_eq_iff)

text \<open>The process control block of a new program.\<close>

definition new_pcb :: "u32 \<Rightarrow> kstate \<Rightarrow> pcb_t \<Rightarrow> pcb_t" where
  "new_pcb pid s p = (snd (file_descriptor_table_init p))
     \<lparr>current_pid := pid, parent_pid := active_pid s,
      current_esp := USER_STACK_BASE_ADDRESS, current_ebp := USER_STACK_BASE_ADDRESS,
      current_eip := entry_point s, vidmap_flag := 0, pcb_terminal := active_terminal s,
      pcb_arg_buf := arg_buf s\<rparr>"

text \<open>The state in which the new program is entered.\<close>

definition launched :: "u32 \<Rightarrow> u32 \<Rightarrow> addr \<Rightarrow> addr \<Rightarrow> kstate \<Rightarrow> kstate" where
  "launched fd pid esp ebp s =
     (let u = s\<lparr>process_count := process_count s + 1, processes := snd (pool_acquire (processes s))\<rparr>;
          v = upd_terminal (active_terminal s) (\<lambda>t. t\<lparr>current_process_id := pid\<rparr>) (upd_pcb pid (new_pcb pid u) u);
          w = load_program fd (paging_video_memory (paging_execute pid v))
      in (upd_pcb (active_pid s) (\<lambda>p. p\<lparr>current_esp := esp, current_ebp := ebp\<rparr>) w)
           \<lparr>active_pid := pid, tss_esp0 := KERNEL_STACK_BASE_ADDRESS - pid * USER_KERNEL_STACK_SIZE\<rparr>)"

lemma start_process_eq:
  assumes pool: "pool_acquire (processes s) = (sint pid, ps)" and pid: "of_int (sint pid) = pid" "0 \<le> sint pid"
  shows "start_process fd esp ebp s = context_switch_execute (launched fd pid esp ebp s)"
proof -
  let ?s1 = "s\<lparr>process_count := process_count s + 1, processes := ps\<rparr>"
  let ?s3 = "upd_terminal (active_terminal s) (\<lambda>t. t\<lparr>current_process_id := pid\<rparr>) (upd_pcb pid (new_pcb pid ?s1) ?s1)"
  let ?s4 = "load_program fd (paging_video_memory (paging_execute pid ?s3))"
  have "proc_view ?s4 = proc_view ?s3" by simp
  then have a4: "active_pid ?s4 = active_pid s" "active_terminal ?s4 = active_terminal s"
    by (simp_all add: proc_view_def)
  have g: "get_process_available (s\<lparr>process_count := process_count s + 1\<rparr>) = (sint pid, ?s1)"
    using pool by (simp add: get_process_available_def)
  show ?thesis
    using pid a4 pool unfolding start_process_def Let_def g split_beta fst_conv snd_conv
    by (simp add: new_pcb_def [abs_def] launched_def Let_def)
qed

lemma launched_view: "proc_view (launched fd pid esp ebp s) = proc_view (add_process pid s)"
proof -
  let ?s1 = "s\<lparr>process_count := process_count s + 1, processes := snd (pool_acquire (processes s))\<rparr>"
  let ?s2 = "upd_pcb pid (new_pcb pid ?s1) ?s1"
  let ?s3 = "upd_terminal (active_terminal s) (\<lambda>t. t\<lparr>current_process_id := pid\<rparr>) ?s2"
  let ?s4 = "load_program fd (paging_video_memory (paging_execute pid ?s3))"
  let ?s5 = "upd_pcb (active_pid s) (\<lambda>p. p\<lparr>current_esp := esp, current_ebp := ebp\<rparr>) ?s4"
  have v5: "proc_view ?s5 = proc_view ?s3" by (subst proc_view_upd_pcb) simp_all
  have v2: "proc_view ?s2 = proc_view (upd_pcb pid (\<lambda>p. p\<lparr>parent_pid := active_pid s, pcb_terminal := active_terminal s\<rparr>) ?s1)"
    by (rule upd_pcb_view [where q = "active_pid s" and t = "active_terminal s"]) (simp_all add: new_pcb_def)
  have "proc_view (launched fd pid esp ebp s) = proc_view (?s3\<lparr>active_pid := pid\<rparr>)"
    using active_pid_view [OF v5, of pid] by (simp add: launched_def Let_def)
  also have "?s3\<lparr>active_pid := pid\<rparr> = activate (active_terminal s) pid ?s2"
    by (simp add: activate_def upd_terminal_def upd_pcb_def)
  also have "proc_view \<dots> = proc_view (add_process pid s)"
    unfolding add_process_def using activate_view [OF v2] by simp
  finally show ?thesis .
qed

lemma launched_frame:
  "\<exists>u. arg_buf u = arg_buf s \<and> pcbs (launched fd pid esp ebp s)
     = pcbs (upd_pcb (active_pid s) (\<lambda>p. p\<lparr>current_esp := esp, current_ebp := ebp\<rparr>) (upd_pcb pid (new_pcb pid u) s))"
  "tss_esp0 (launched fd pid esp ebp s) = KERNEL_STACK_BASE_ADDRESS - pid * USER_KERNEL_STACK_SIZE"
proof -
  let ?s1 = "s\<lparr>process_count := process_count s + 1, processes := snd (pool_acquire (processes s))\<rparr>"
  have "pcbs (launched fd pid esp ebp s)
      = pcbs (upd_pcb (active_pid s) (\<lambda>p. p\<lparr>current_esp := esp, current_ebp := ebp\<rparr>) (upd_pcb pid (new_pcb pid ?s1) s))"
    by (simp add: launched_def Let_def upd_pcb_def pcb_of_def)
  then show "\<exists>u. arg_buf u = arg_buf s \<and> pcbs (launched fd pid esp ebp s)
     = pcbs (upd_pcb (active_pid s) (\<lambda>p. p\<lparr>current_esp := esp, current_ebp := ebp\<rparr>) (upd_pcb pid (new_pcb pid u) s))"
    by (intro exI [of _ ?s1]) simp
qed (simp add: launched_def Let_def)

lemma start_process_refines:
  assumes r: "refines a s" and st: "sp_started a (sp_active a)" and c: "process_count s \<noteq> 6"
  shows "\<exists>pid. pid \<in> {4, 5, 6} - set (sp_all a)
    \<and> start_process fd esp ebp s = context_switch_execute (launched fd pid esp ebp s)
    \<and> refines (spec_execute pid a) (launched fd pid esp ebp s)"
proof -
  have ok: "spec_ok a" and pr: "processes s = pool_of (sp_all a)" using r by (simp_all add: refines_def)
  have "length (sp_all a) \<le> 3"
  proof -
    have "card (set (sp_all a)) \<le> card {4, 5, 6 :: u32}"
      using ok by (intro card_mono) (simp_all add: spec_ok_def)
    then show ?thesis using ok by (simp add: spec_ok_def distinct_card)
  qed
  moreover have "length (sp_all a) \<noteq> 3" using r c by (simp add: refines_def)
  ultimately have "length (sp_all a) < 3" by simp
  from free_pid [OF ok this] obtain pid where pid: "pid \<in> {4, 5, 6} - set (sp_all a)"
    "pool_acquire (pool_of (sp_all a)) = (sint pid, pool_of (pid # sp_all a))" "of_int (sint pid) = pid"
    by (elim exE conjE) (rule that)
  have "0 \<le> sint pid" using pid(1) by auto
  from start_process_eq [OF pid(2) [folded pr] pid(3) this, of fd esp ebp]
  have e: "start_process fd esp ebp s = context_switch_execute (launched fd pid esp ebp s)" .
  have "refines (spec_execute pid a) (launched fd pid esp ebp s)"
    using add_process_refines [OF r st pid(1,2)] refines_proc_view [OF launched_view] by simp
  then show ?thesis using e pid(1) by (intro exI conjI)
qed

section \<open>Saved stacks\<close>

text \<open>A tick between two running terminals: the stack pointers of the process that leaves are saved in its
  block, those of the process that arrives are taken from its block, and no other block changes.\<close>

lemma tick_switch:
  assumes r: "refines a s" and st: "sp_started a (sp_active a)" "sp_started a (next_terminal (sp_active a))"
  defines "p \<equiv> sp_running a (next_terminal (sp_active a))"
  shows "\<exists>s'. pit_handler esp ebp s = Switch (current_esp (pcb_of p s)) (current_ebp (pcb_of p s)) s'
    \<and> refines (spec_tick a) s' \<and> tss_esp0 s' = kernel_stack_top p
    \<and> pcbs s' = (pcbs s)(pcb_addr (active_pid s) := (pcb_of (active_pid s) s)\<lparr>current_esp := esp, current_ebp := ebp\<rparr>)"
proof -
  let ?s = "send_eoi 0 (cli s)"
  have eoi: "pcbs ?s = pcbs s" "active_pid ?s = active_pid s" "active_terminal ?s = active_terminal s"
    "terminals ?s = terminals s"
    by (simp_all add: send_eoi_def send_eoi_master_def outb_def cli_def)
  have r': "refines a ?s" using r refines_eoi by blast
  have ok: "spec_ok a" and act: "active_terminal s = sp_active a" "active_pid s = sp_running a (sp_active a)"
    "current_process_id (terminals s (next_terminal (sp_active a))) = p"
    using r by (simp_all add: refines_def p_def)
  have "p \<noteq> 0" using running_zero [OF ok] st(2) by (simp add: p_def)
  then have saves: "tick_saves ?s = active_pid s" using act unfolding tick_saves_def Let_def eoi by simp
  have "p \<noteq> active_pid s"
    using running_inj [OF ok _ st(2,1)] next_terminal_neq(1) [of "sp_active a"] act(2) by (auto simp: p_def)
  then have neq: "pcb_addr p \<noteq> pcb_addr (active_pid s)"
    using pcb_addr_small [of p "active_pid s"] running_small [OF ok] act(2) by (simp add: p_def)
  obtain s' where sw: "schedule esp ebp ?s = Switch (current_esp (pcb_of p s')) (current_ebp (pcb_of p s')) s'"
    "refines (spec_tick a) s'" "pcbs s' = pcbs (tick_base esp ebp ?s)" "tss_esp0 s' = kernel_stack_top p"
    using schedule_switch [OF r' st(2), of esp ebp, folded p_def] by blast
  have pc: "pcbs s' = (pcbs s)(pcb_addr (active_pid s) :=
      (pcb_of (active_pid s) s)\<lparr>current_esp := esp, current_ebp := ebp\<rparr>)"
    unfolding sw(3) tick_base_pcbs saves by (simp add: eoi pcb_of_def)
  then have "pcb_of p s' = pcb_of p s" using neq by (simp add: pcb_of_def)
  then have "pit_handler esp ebp s = Switch (current_esp (pcb_of p s)) (current_ebp (pcb_of p s)) (sti s')"
    using sw(1) by (simp add: pit_handler_def)
  moreover have "refines (spec_tick a) (sti s')" using refines_proc_view [of "sti s'" s'] sw(2) by simp
  moreover have "tss_esp0 (sti s') = kernel_stack_top p" "pcbs (sti s') = pcbs s'"
    using sw(4) by (simp_all add: sti_def)
  ultimately show ?thesis using pc by auto
qed

lemma spec_tick_simps [simp]:
  "sp_active (spec_tick a) = next_terminal (sp_active a)" "sp_kids (spec_tick a) = sp_kids a"
  "sp_started (spec_tick a) = (sp_started a)(next_terminal (sp_active a) := True)"
  by (simp_all add: spec_tick_def Let_def)

lemma spec_tick_running: "\<forall>t. sp_started a t \<Longrightarrow> sp_running (spec_tick a) t = sp_running a t"
  by (simp add: sp_running_def sp_chain_def)

lemma spec_tick_3: "\<forall>t. sp_started a t \<Longrightarrow> spec_tick (spec_tick (spec_tick a)) = a"
  by (simp add: spec_tick_def Let_def next_terminal_neq fun_upd_idem)

text \<open>A state in which no shell has been entered yet.\<close>

definition sample_booted :: kstate where
  "sample_booted = ready_state\<lparr>pcbs := (\<lambda>a. snd (file_descriptor_table_init empty_pcb)\<lparr>pcb_terminal :=
     (if a = pcb_addr 2 then Terminal_2 else if a = pcb_addr 3 then Terminal_3 else Terminal_1)\<rparr>)\<rparr>"

lemma sample_booted_refines: "refines spec_boot sample_booted"
proof -
  have s: "sp_running spec_boot t = 0" "sp_chain spec_boot t = [root_pid t]" "sp_all spec_boot = []" for t
    by (simp_all add: sp_running_def sp_chain_def sp_all_def spec_boot_def)
  have "active_pid ready_state = 0" "process_count ready_state = 3" "processes ready_state = [1, 1, 1, 1, 0, 0, 0]"
    "current_process_id (terminals ready_state t) = 0" for t
    by (simp_all add: ready_state_def sample_state_def static_state_def keyboard_init_terminals)
      (simp_all add: keyboard_init_def init_terminal_def enable_irq_def outb_def Let_def)
  moreover have "pcb_terminal (pcb_of (root_pid t) sample_booted) = t" for t
    by (cases t) (simp_all add: sample_booted_def pcb_of_def root_pid_def pcb_addr_small)
  ultimately show ?thesis
    unfolding refines_def s
    by (simp add: sample_booted_def spec_boot_def spec_ok_def sp_all_def pool_of_def)
qed

text \<open>Three ticks after that every shell has been entered.\<close>

lemma boot_ticks:
  assumes "refines spec_boot s"
  shows "\<exists>s1 s2 s3 a. after (pit_handler e0 b0 s) = Some s1 \<and> after (pit_handler e1 b1 s1) = Some s2
    \<and> after (pit_handler e2 b2 s2) = Some s3 \<and> refines a s3 \<and> (\<forall>t. sp_started a t) \<and> sp_all a = []
    \<and> sp_active a = Terminal_1"
proof -
  obtain s1 where 1: "after (pit_handler e0 b0 s) = Some s1" "refines (spec_tick spec_boot) s1"
    using pit_handler_refines [OF assms] by blast
  obtain s2 where 2: "after (pit_handler e1 b1 s1) = Some s2" "refines (spec_tick (spec_tick spec_boot)) s2"
    using pit_handler_refines [OF 1(2)] by blast
  obtain s3 where 3: "after (pit_handler e2 b2 s2) = Some s3" "refines (spec_tick (spec_tick (spec_tick spec_boot))) s3"
    using pit_handler_refines [OF 2(2)] by blast
  let ?a = "spec_tick (spec_tick (spec_tick spec_boot))"
  have "sp_started ?a t" "sp_all ?a = []" "sp_active ?a = Terminal_1" for t
    by (cases t; simp add: spec_boot_def next_terminal_def sp_all_def)+
  then show ?thesis using 1(1) 2(1) 3 by blast
qed

section \<open>Properties\<close>

text \<open>C3: Round robin with correct stacks. Once all three terminals run, three timer ticks give the processor to each terminal once; the third tick goes on with exactly the stack and frame pointer that the first tick saved, on the same process and terminal, and the process structure is unchanged.\<close>

theorem round_robin_resumes:
  assumes "refines a s" and "\<forall>t. sp_started a t"
  shows "\<exists>p1 f1 s1 p2 f2 s2 s3. pit_handler e0 b0 s = Switch p1 f1 s1 \<and> pit_handler e1 b1 s1 = Switch p2 f2 s2
    \<and> pit_handler e2 b2 s2 = Switch e0 b0 s3 \<and> active_pid s3 = active_pid s \<and> active_terminal s3 = active_terminal s
    \<and> refines a s3 \<and> {active_terminal s, active_terminal s1, active_terminal s2} = UNIV"
proof -
  let ?t0 = "sp_active a" and ?t1 = "next_terminal (sp_active a)" and ?t2 = "next_terminal (next_terminal (sp_active a))"
  let ?a1 = "spec_tick a" and ?a2 = "spec_tick (spec_tick a)"
  have st: "\<forall>t. sp_started ?a1 t" "\<forall>t. sp_started ?a2 t" using assms(2) by simp_all
  have run: "sp_running ?a1 = sp_running a" "sp_running ?a2 = sp_running a"
    using spec_tick_running [OF assms(2)] spec_tick_running [OF st(1)] by (simp_all add: fun_eq_iff)
  have ok: "spec_ok a" using assms(1) by (simp add: refines_def)
  obtain s1 where 1: "pit_handler e0 b0 s = Switch (current_esp (pcb_of (sp_running a ?t1) s))
      (current_ebp (pcb_of (sp_running a ?t1) s)) s1" "refines ?a1 s1"
    "pcbs s1 = (pcbs s)(pcb_addr (active_pid s) := (pcb_of (active_pid s) s)\<lparr>current_esp := e0, current_ebp := b0\<rparr>)"
    using tick_switch [OF assms(1)] assms(2) by blast
  obtain s2 where 2: "pit_handler e1 b1 s1 = Switch (current_esp (pcb_of (sp_running a ?t2) s1))
      (current_ebp (pcb_of (sp_running a ?t2) s1)) s2" "refines ?a2 s2"
    "pcbs s2 = (pcbs s1)(pcb_addr (active_pid s1) := (pcb_of (active_pid s1) s1)\<lparr>current_esp := e1, current_ebp := b1\<rparr>)"
    using tick_switch [OF 1(2), of e1 b1] st(1) unfolding run by auto
  obtain s3 where 3: "pit_handler e2 b2 s2 = Switch (current_esp (pcb_of (sp_running a ?t0) s2))
      (current_ebp (pcb_of (sp_running a ?t0) s2)) s3" "refines (spec_tick ?a2) s3"
    using tick_switch [OF 2(2), of e2 b2] st(2) next_terminal_neq(3) [of ?t0] unfolding run by auto
  have ap: "active_pid s = sp_running a ?t0" "active_pid s1 = sp_running a ?t1"
    using assms(1) 1(2) run(1) by (simp_all add: refines_def)
  have "sp_running a ?t1 \<noteq> sp_running a ?t0"
    using running_inj [OF ok] assms(2) next_terminal_neq(1) [of ?t0] by blast
  then have "pcb_addr (sp_running a ?t0) \<noteq> pcb_addr (sp_running a ?t1)"
    using pcb_addr_small [OF running_small [OF ok] running_small [OF ok]] by metis
  then have "current_esp (pcb_of (sp_running a ?t0) s2) = e0" "current_ebp (pcb_of (sp_running a ?t0) s2) = b0"
    using 1(3) 2(3) ap by (simp_all add: pcb_of_def)
  moreover have r3: "refines a s3" using 3(2) spec_tick_3 [OF assms(2)] by simp
  moreover have "active_pid s3 = active_pid s" "active_terminal s3 = active_terminal s"
    using r3 assms(1) by (simp_all add: refines_def)
  moreover have "{?t0, ?t1, ?t2} = UNIV"
  proof -
    have "u \<in> {?t0, ?t1, ?t2}" for u by (cases ?t0; cases u) (simp_all add: next_terminal_def)
    then show ?thesis by blast
  qed
  moreover have "active_terminal s = ?t0" "active_terminal s1 = ?t1" "active_terminal s2 = ?t2"
    using assms(1) 1(2) 2(2) by (simp_all add: refines_def)
  ultimately show ?thesis using 1(1) 2(1) 3(1) by simp
qed

theorem round_robin_resumes_witness:
  "\<exists>s p1 f1 s1 p2 f2 s2 s3. pit_handler 0x7fdf00 0x7fdf20 s = Switch p1 f1 s1
    \<and> pit_handler 1 2 s1 = Switch p2 f2 s2 \<and> pit_handler 3 4 s2 = Switch 0x7fdf00 0x7fdf20 s3
    \<and> active_pid s3 = active_pid s"
proof -
  obtain s a where "refines a s" and "\<forall>t. sp_started a t"
    using boot_ticks [OF sample_booted_refines] by blast
  from round_robin_resumes [OF this, of "0x7fdf00" "0x7fdf20" 1 2 3 4] show ?thesis by blast
qed

text \<open>The control block of a new process is not that of its parent.\<close>

lemma child_pcb_apart:
  assumes "refines a s" and "sp_started a (sp_active a)" and pid: "pid \<in> {4, 5, 6} - set (sp_all a)"
  shows "pcb_addr (active_pid s) \<noteq> pcb_addr pid"
proof -
  have ok: "spec_ok a" and ap: "active_pid s = sp_running a (sp_active a)" using assms(1) by (simp_all add: refines_def)
  have in_chain: "active_pid s \<in> set (sp_chain a (sp_active a))" using ap assms(2) hd_chain by (simp add: sp_running_def)
  then have "active_pid s \<noteq> pid"
    using pid kids_sub_all [of a "sp_active a"] root_pid_cases(4) [of "sp_active a"] by (auto simp: sp_chain_def)
  moreover have "active_pid s \<le> 6" by (rule chain_small(1) [OF ok in_chain])
  moreover have "pid \<le> 6" using pid by auto
  ultimately show ?thesis by (simp add: pcb_addr_small)
qed

lemma pcb_of_fold_other:
  "pcb_addr p \<noteq> pcb_addr pid \<Longrightarrow> pcb_of p (fold (\<lambda>i. upd_pcb pid (g i)) is w) = pcb_of p w"
  by (induction "is" arbitrary: w) (simp_all add: pcb_of_upd_pcb)

text \<open>C4: Executing a program and halting it is a round trip. With fewer than six processes, the checks passed, the new program gets a process number from 4 to 6 that no living process has (the pool never refuses), and is entered; when it halts with a status, execution goes on in the caller with exactly the stack and frame pointer saved by execute and the status as the result, and the pool, the process count, the running process and every terminal's process are as before.\<close>

theorem execute_halt_round_trip:
  assumes "refines a s" and "sp_started a (sp_active a)" and "process_count s \<noteq> MAX_NUM_PROCESSES"
  shows "\<exists>pc s1 s2. start_process fd esp ebp s = Enter_user pc USER_STACK_BASE_ADDRESS s1
    \<and> active_pid s1 \<in> {4, 5, 6} \<and> processes s ! unat (active_pid s1) = 0
    \<and> syscall_halt status s1 = Resume esp ebp (ucast status) s2 \<and> refines a s2
    \<and> processes s2 = processes s \<and> process_count s2 = process_count s
    \<and> active_pid s2 = active_pid s \<and> tss_esp0 s2 = kernel_stack_top (active_pid s)"
proof -
  have c: "process_count s \<noteq> 6" using assms(3) by (simp add: MAX_NUM_PROCESSES_def)
  obtain pid where pid: "pid \<in> {4, 5, 6} - set (sp_all a)"
    and st: "start_process fd esp ebp s = context_switch_execute (launched fd pid esp ebp s)"
    and r: "refines (spec_execute pid a) (launched fd pid esp ebp s)"
    using start_process_refines [OF assms(1,2) c, of fd esp ebp] by (elim exE conjE) (rule that)
  define s1 where "s1 = sti (launched fd pid esp ebp s)"
  have e: "start_process fd esp ebp s = Enter_user (entry_point (launched fd pid esp ebp s)) USER_STACK_BASE_ADDRESS s1"
    by (simp add: st context_switch_execute_def s1_def)
  have r1: "refines (spec_execute pid a) s1"
    using r refines_proc_view [of s1 "launched fd pid esp ebp s"] by (simp add: s1_def)
  obtain u where pcb: "pcbs s1 = pcbs (upd_pcb (active_pid s) (\<lambda>p. p\<lparr>current_esp := esp, current_ebp := ebp\<rparr>) (upd_pcb pid (new_pcb pid u) s))"
    using launched_frame(1) [of s fd pid esp ebp] by (auto simp: s1_def)
  have ap: "active_pid s = sp_running a (sp_active a)" using assms(1) by (simp add: refines_def)
  have p1: "active_pid s1 = pid" using r1 assms(2) by (simp add: refines_def sp_running_def sp_chain_def)
  then have "active_pid s1 \<notin> {1, 2, 3}" using pid by auto
  from syscall_halt_child [OF this, of status]
  have h: "syscall_halt status s1 = Resume (current_esp (pcb_of (active_pid (halted s1)) (halted s1)))
      (current_ebp (pcb_of (active_pid (halted s1)) (halted s1))) (ucast status) (halted s1)" .
  define s2 where "s2 = halted s1"
  have v: "proc_view s2 = proc_view (drop_process s1)" and k: "tss_esp0 s2 = kernel_stack_top (active_pid s2)"
    and p2: "pcbs s2 = pcbs (close_all (active_pid s1) s1)"
    by (simp_all only: s2_def halted_frame)
  have "refines (spec_halt (spec_execute pid a)) (drop_process s1)"
    by (rule drop_process_refines [OF r1]) simp
  then have r2: "refines a s2" using refines_proc_view [OF v] by (simp add: spec_halt_execute)
  then have a2: "active_pid s2 = active_pid s" using ap by (simp add: refines_def)
  have neq: "pcb_addr (active_pid s) \<noteq> pcb_addr pid" by (rule child_pcb_apart [OF assms(1,2) pid])
  have "pcb_of (active_pid s) s2 = pcb_of (active_pid s) s1"
    using pcb_of_fold_other [OF neq] p2 p1 by (simp add: pcb_of_def close_all_def)
  also have "\<dots> = (pcb_of (active_pid s) s)\<lparr>current_esp := esp, current_ebp := ebp\<rparr>"
    using pcb neq by (simp add: pcb_of_def upd_pcb_def)
  finally have "syscall_halt status s1 = Resume esp ebp (ucast status) s2"
    using h a2 by (simp add: s2_def)
  moreover have "processes s ! unat pid = 0"
    using assms(1) pid by (auto simp: refines_def pool_of_def)
  ultimately show ?thesis
    using e pid p1 r2 a2 k assms(1) by (auto simp: refines_def)
qed

theorem execute_halt_round_trip_witness:
  "\<exists>s s1 s2 pc. start_process 5 0x7fdf00 0x7fdf20 s = Enter_user pc USER_STACK_BASE_ADDRESS s1
    \<and> syscall_halt 42 s1 = Resume 0x7fdf00 0x7fdf20 42 s2 \<and> active_pid s2 = active_pid s"
proof -
  obtain s a where r: "refines a s" and st: "\<forall>t. sp_started a t" and "sp_all a = []"
    using boot_ticks [OF sample_booted_refines] by blast
  then have "process_count s \<noteq> MAX_NUM_PROCESSES" by (simp add: refines_def MAX_NUM_PROCESSES_def)
  with r st execute_halt_round_trip [of a s 5 "0x7fdf00" "0x7fdf20" 42] show ?thesis by auto
qed

end
