(* ===== verification/Kernel.thy ===== *)
theory Kernel
  imports Process_Tree
begin

text \<open>
  The kernel as one transition system: its steps are the timer, keyboard and clock interrupts, the system calls
  of the running process and the memory accesses of user code. \<open>kernel_ok\<close> is the invariant of the whole kernel:
  terminals, line buffers and page tables are well formed, the process structure refines the abstract
  processes, and the descriptor tables of all living processes are well formed. Every step keeps it and is
  matched by a step of the abstract processes.
\<close>

section \<open>Screens, keyboards and page tables\<close>

text \<open>What the invariant of the terminals depends on.\<close>

definition term_core :: "terminal_t \<Rightarrow> int \<times> int \<times> int \<times> byte list \<times> int \<times> int \<times> addr" where
  "term_core t = (terminal_id t, screen_x t, screen_y t, key_buf t, keyboard_buffer_size t, overflow t, video_address t)"

definition screen_view where
  "screen_view s = (pages s, (\<lambda>t. term_core (terminals s t)), current_terminal s, active_terminal s, shift_pressed s, caps_lock s)"

lemma keyboard_ok_view:
  assumes "screen_view s' = screen_view s"
  shows "keyboard_ok s' \<longleftrightarrow> keyboard_ok s"
proof -
  have eq: "pages s' = pages s" "current_terminal s' = current_terminal s" "active_terminal s' = active_terminal s"
    "shift_pressed s' = shift_pressed s" "caps_lock s' = caps_lock s"
    and t: "\<And>t. term_core (terminals s' t) = term_core (terminals s t)"
    using assms by (auto simp: screen_view_def fun_eq_iff)
  have f: "terminal_id (terminals s' t) = terminal_id (terminals s t)"
    "video_address (terminals s' t) = video_address (terminals s t)"
    "cursor_ok (terminals s' t) = cursor_ok (terminals s t)" "line_ok (terminals s' t) = line_ok (terminals s t)" for t
    using t [of t] by (simp_all add: term_core_def cursor_ok_def line_ok_def)
  show ?thesis unfolding keyboard_ok_def video_ok_def low_frame_def shown_frame_def eq f by (rule refl)
qed

lemma screen_view_fields [simp]:
  "screen_view (s\<lparr>pmem := m\<rparr>) = screen_view s" "screen_view (s\<lparr>io_log := l\<rparr>) = screen_view s"
  "screen_view (s\<lparr>iflag := b\<rparr>) = screen_view s" "screen_view (s\<lparr>rtc_read_flag := c\<rparr>) = screen_view s"
  "screen_view (s\<lparr>physical_rate := i\<rparr>) = screen_view s" "screen_view (s\<lparr>tss_esp0 := w\<rparr>) = screen_view s"
  "screen_view (s\<lparr>arg_buf := bs\<rparr>) = screen_view s" "screen_view (s\<lparr>argument_exist := c\<rparr>) = screen_view s"
  "screen_view (s\<lparr>active_pid := p\<rparr>) = screen_view s" "screen_view (s\<lparr>process_count := i\<rparr>) = screen_view s"
  "screen_view (s\<lparr>processes := ps\<rparr>) = screen_view s" "screen_view (upd_pcb p f s) = screen_view s"
  by (simp_all add: screen_view_def upd_pcb_def)

lemma screen_view_machine [simp]:
  "screen_view (outb v p s) = screen_view s" "screen_view (cli s) = screen_view s" "screen_view (sti s) = screen_view s"
  "screen_view (vstore a b s) = screen_view s" "screen_view (send_eoi n s) = screen_view s"
  by (simp_all add: outb_def cli_def sti_def vstore_def send_eoi_def send_eoi_master_def split: option.split)

lemma screen_view_vstore_bytes [simp]: "screen_view (vstore_bytes a bs s) = screen_view s"
  by (induction bs arbitrary: a s) simp_all

lemma screen_view_upd_terminal:
  "term_core (f (terminals s t)) = term_core (terminals s t) \<Longrightarrow> screen_view (upd_terminal t f s) = screen_view s"
  by (auto simp: screen_view_def fun_eq_iff)

lemma screen_view_fold: "(\<And>x s. screen_view (f x s) = screen_view s) \<Longrightarrow> screen_view (fold f xs s) = screen_view s"
  by (induction xs arbitrary: s) simp_all

lemma keyboard_ok_becomes:
  assumes "keyboard_ok s" and c: "console_becomes (active_terminal s) (low_frame VIDEO s) s k s'"
    and cur: "cursor_ok (terminals s' (active_terminal s))"
  shows "keyboard_ok s'"
proof -
  have v: "video_ok s" using assms by (simp add: keyboard_ok_def)
  note fr = console_becomes_frame [OF c]
  have "line_ok (terminals s' u)" for u
    using fr(10) fr(8) [of u] assms(1) by (cases "u = active_terminal s") (auto simp: keyboard_ok_def line_ok_def)
  moreover have "video_ok s'" by (rule becomes_screens(1) [OF v c video_bases(1) [OF v] cur])
  ultimately show ?thesis using fr(21,22) assms(1) by (simp add: keyboard_ok_def)
qed

lemma keyboard_ok_putc:
  assumes "keyboard_ok s"
  shows "keyboard_ok (putc c s)"
proof -
  have v: "video_ok s" using assms by (simp add: keyboard_ok_def)
  note b = video_bases [OF v]
  show ?thesis
    unfolding putc_def
    by (rule keyboard_ok_becomes [OF assms putc_at_spec [OF b(3,5,4) refl] putc_at_cursor_ok [OF b(3,5,4)]])
qed

lemma keyboard_ok_fold:
  "(\<And>x s. keyboard_ok s \<Longrightarrow> keyboard_ok (f x s)) \<Longrightarrow> keyboard_ok s \<Longrightarrow> keyboard_ok (fold f xs s)"
  by (induction xs arbitrary: s) simp_all

lemma keyboard_ok_kprint: "keyboard_ok s \<Longrightarrow> keyboard_ok (kprint m s)"
  by (simp add: kprint_def printf_def keyboard_ok_fold [of putc, OF keyboard_ok_putc] split: option.split)

lemma keyboard_ok_devices:
  assumes "keyboard_ok s" and "h \<in> device_handlers"
  shows "keyboard_ok (h s)"
proof -
  have "keyboard_ok (keyboard_handler s)"
    using send_eoi_effect [OF keyboard_input_effect [OF assms(1)]] by (simp add: keyboard_handler_def key_effect_def)
  moreover have "screen_view (rtc_handler s) = screen_view s"
    by (simp add: rtc_handler_def count_down_def Let_def screen_view_upd_terminal term_core_def)
  then have "keyboard_ok (rtc_handler s)" using keyboard_ok_view assms(1) by metis
  ultimately show ?thesis using assms(2) by (auto simp: device_handlers_def)
qed

text \<open>Remapping the program page and the video page for a terminal and a process.\<close>

lemma keyboard_ok_remap:
  assumes "keyboard_ok s" and "pid \<le> 6" and "screen_view u = screen_view (s\<lparr>active_terminal := t\<rparr>)"
  shows "keyboard_ok (paging_video_memory (paging_execute pid u))"
proof -
  have wf: "wf_pages (pages s)" and ter: "\<forall>t. terminal_id (terminals s t) = int (term_rank t)"
    using assms(1) by (simp_all add: keyboard_ok_def video_ok_def)
  have eq: "pages u = pages s" "\<And>t. term_core (terminals u t) = term_core (terminals s t)"
    "shift_pressed u = shift_pressed s" "caps_lock u = caps_lock s"
    using assms(3) by (auto simp: screen_view_def fun_eq_iff)
  let ?v = "paging_execute pid u"
  have f: "terminal_id (terminals u t) = terminal_id (terminals s t)"
    "video_address (terminals u t) = video_address (terminals s t)"
    "cursor_ok (terminals u t) = cursor_ok (terminals s t)" "line_ok (terminals u t) = line_ok (terminals s t)" for t
    using eq(2) [of t] by (simp_all add: term_core_def cursor_ok_def line_ok_def)
  have wv: "wf_pages (pages ?v)" using wf_set_user_page [OF wf assms(2)] by (simp add: paging_execute_def eq)
  have tv: "\<forall>t. terminal_id (terminals ?v t) = int (term_rank t)" using ter f by (simp add: paging_execute_def)
  note p = pvm_video [OF wv tv]
  have "shown_frame (active_terminal ?v) (paging_video_memory ?v) = shown_frame (active_terminal ?v) ?v"
    by (simp add: shown_frame_def)
  then show ?thesis
    using p assms(1) f eq by (simp add: keyboard_ok_def video_ok_def paging_execute_def paging_video_memory_def Let_def)
qed


section \<open>The invariant\<close>

text \<open>The descriptor tables of the living processes.\<close>

definition tables_ok :: "proc_spec \<Rightarrow> kstate \<Rightarrow> bool" where
  "tables_ok a s \<longleftrightarrow> (\<forall>t. \<forall>p\<in>set (sp_chain a t). fd_table_ok (pcb_of p s))"

definition kernel_ok :: "kstate \<Rightarrow> bool" where
  "kernel_ok s \<longleftrightarrow> keyboard_ok s \<and> (\<exists>a. refines a s \<and> tables_ok a s)"

text \<open>The steps of the abstract processes: a tick, a program starts, the running program ends, or nothing.\<close>

inductive spec_step :: "proc_spec \<Rightarrow> proc_spec \<Rightarrow> bool" where
  tick: "spec_step a (spec_tick a)"
| execute: "pid \<in> {4, 5, 6} \<Longrightarrow> pid \<notin> set (sp_all a) \<Longrightarrow> spec_step a (spec_execute pid a)"
| halt: "spec_step a (spec_halt a)"
| stay: "spec_step a a"

text \<open>The obligation for one step of the kernel.\<close>

definition simulates :: "kstate \<Rightarrow> kstate \<Rightarrow> bool" where
  "simulates s s' \<longleftrightarrow> (\<forall>a. refines a s \<and> tables_ok a s
     \<longrightarrow> (\<exists>a'. spec_step a a' \<and> refines a' s' \<and> tables_ok a' s'))"

lemma kernel_okI: "kernel_ok s \<Longrightarrow> keyboard_ok s' \<Longrightarrow> simulates s s' \<Longrightarrow> kernel_ok s'"
  unfolding kernel_ok_def simulates_def by blast

lemma fd_table_ok_array: "file_descriptor_array p = file_descriptor_array q \<Longrightarrow> fd_table_ok p = fd_table_ok q"
  by (simp add: fd_table_ok_def)

lemma tables_ok_pcbs: "pcbs s' = pcbs s \<Longrightarrow> tables_ok a s' = tables_ok a s"
  by (simp add: tables_ok_def pcb_of_def)

text \<open>A step that changes neither the process structure nor the process control blocks.\<close>

lemma simulates_quiet:
  assumes "proc_view s' = proc_view s" and "pcbs s' = pcbs s"
  shows "simulates s s'"
  unfolding simulates_def using refines_proc_view [OF assms(1)] tables_ok_pcbs [OF assms(2)] spec_step.stay by blast

lemma tables_ok_upd_pcb:
  assumes "tables_ok a s" and "fd_table_ok (pcb_of q s) \<Longrightarrow> fd_table_ok (f (pcb_of q s))"
  shows "tables_ok a (upd_pcb q f s)"
  unfolding tables_ok_def
proof (intro allI ballI)
  fix t p
  assume "p \<in> set (sp_chain a t)"
  then have p: "fd_table_ok (pcb_of p s)" using assms(1) by (simp add: tables_ok_def)
  show "fd_table_ok (pcb_of p (upd_pcb q f s))"
  proof (cases "pcb_addr p = pcb_addr q")
    case True
    then show ?thesis using p assms(2) by (simp add: upd_pcb_def pcb_of_def)
  next
    case False
    then show ?thesis using p by (simp add: pcb_of_upd_pcb)
  qed
qed

text \<open>A step that changes the blocks without breaking a table.\<close>

lemma simulates_upd_pcb:
  assumes "proc_view s' = proc_view s" and "pcbs s' = pcbs (upd_pcb q f s)"
    and "fd_table_ok (pcb_of q s) \<Longrightarrow> fd_table_ok (f (pcb_of q s))"
  shows "simulates s s'"
  unfolding simulates_def
proof (intro allI impI)
  fix a
  assume a: "refines a s \<and> tables_ok a s"
  have "tables_ok a (upd_pcb q f s)" by (rule tables_ok_upd_pcb) (use a assms(3) in auto)
  then have "tables_ok a s'" using tables_ok_pcbs [OF assms(2)] by simp
  moreover have "refines a s'" using refines_proc_view [OF assms(1)] a by simp
  ultimately show "\<exists>a'. spec_step a a' \<and> refines a' s' \<and> tables_ok a' s'" using spec_step.stay by blast
qed

section \<open>The timer\<close>

lemma screen_view_active:
  "screen_view u = screen_view (s\<lparr>active_terminal := x\<rparr>)
     \<Longrightarrow> screen_view (u\<lparr>active_terminal := t\<rparr>) = screen_view (s\<lparr>active_terminal := t\<rparr>)"
  by (simp add: screen_view_def)

lemma keyboard_ok_boot_enter:
  assumes "keyboard_ok s" and "pid \<le> 6" and "screen_view u = screen_view (s\<lparr>active_terminal := x\<rparr>)"
    and "boot_enter t pid u = Enter_user pc sp s'"
  shows "keyboard_ok s'"
proof -
  let ?u = "upd_terminal t (\<lambda>T. T\<lparr>current_process_id := pid\<rparr>) (u\<lparr>active_terminal := t, active_pid := pid\<rparr>)"
  let ?v = "paging_video_memory (paging_execute pid ?u)"
  have "screen_view ?u = screen_view (u\<lparr>active_terminal := t\<rparr>)"
    by (subst screen_view_upd_terminal) (simp_all add: term_core_def)
  then have "keyboard_ok ?v"
    using keyboard_ok_remap [OF assms(1,2), of ?u t] screen_view_active [OF assms(3)] by simp
  moreover have "active_pid ?v = pid" "active_pid ?u = pid" by (simp_all add: paging_execute_def)
  then have "s' = sti (?v\<lparr>tss_esp0 := kernel_stack_top pid\<rparr>)"
    using assms(4) by (simp add: boot_enter_def context_switch_execute_def Let_def)
  then have "screen_view s' = screen_view ?v" by simp
  ultimately show ?thesis using keyboard_ok_view by metis
qed

lemma keyboard_ok_schedule:
  assumes "keyboard_ok s" and "refines a s" and "after (schedule esp ebp s) = Some s'"
  shows "keyboard_ok s'"
proof -
  let ?t = "next_terminal (active_terminal s)" and ?u = "tick_base esp ebp s"
  let ?p = "current_process_id (terminals s ?t)"
  have p: "?p \<le> 6" using assms(2) running_small by (simp add: refines_def)
  have u: "screen_view ?u = screen_view (s\<lparr>active_terminal := ?t\<rparr>)"
    by (simp add: tick_base_def save_stack_def Let_def)
  show ?thesis
  proof (cases "?p = 0")
    case True
    obtain pc sp where "boot_enter ?t (root_pid ?t) ?u = Enter_user pc sp s'"
      using assms(3) True boot_enter_view [of ?t "root_pid ?t" ?u] by (auto simp: schedule_split Let_def after_def)
    then show ?thesis by (rule keyboard_ok_boot_enter [OF assms(1) root_pid_cases(3) u])
  next
    case False
    let ?v = "paging_video_memory (paging_execute ?p (?u\<lparr>tss_esp0 := kernel_stack_top ?p\<rparr>))"
    have "s' = sti ?v" using assms(3) False by (simp add: schedule_split Let_def after_def)
    moreover have "keyboard_ok ?v" by (rule keyboard_ok_remap [OF assms(1) p, where t = ?t]) (simp add: u)
    ultimately show ?thesis using keyboard_ok_view [of s' ?v] by simp
  qed
qed

lemma tables_ok_tick:
  assumes "tables_ok a s" and "pcbs s' = pcbs (tick_base esp ebp s)"
  shows "tables_ok (spec_tick a) s'"
proof -
  have "tables_ok a (upd_pcb (tick_saves s) (\<lambda>p. p\<lparr>current_esp := esp, current_ebp := ebp\<rparr>) s)"
    by (rule tables_ok_upd_pcb [OF assms(1)]) (simp add: fd_table_ok_def)
  moreover have "pcbs s' = pcbs (upd_pcb (tick_saves s) (\<lambda>p. p\<lparr>current_esp := esp, current_ebp := ebp\<rparr>) s)"
    using assms(2) by (simp add: tick_base_pcbs upd_pcb_def)
  ultimately have "tables_ok a s'" using tables_ok_pcbs by blast
  then show ?thesis by (simp add: tables_ok_def sp_chain_def)
qed

lemma schedule_simulates:
  assumes "after (schedule esp ebp s) = Some s'"
  shows "simulates s s'"
  unfolding simulates_def
proof (intro allI impI)
  fix a
  assume a: "refines a s \<and> tables_ok a s"
  have "refines (spec_tick a) s' \<and> pcbs s' = pcbs (tick_base esp ebp s)"
  proof (cases "sp_started a (next_terminal (sp_active a))")
    case True
    then show ?thesis using schedule_switch [of a s esp ebp] a assms by (auto simp: after_def)
  next
    case False
    then show ?thesis using schedule_start [of a s esp ebp] a assms by (auto simp: after_def)
  qed
  then show "\<exists>a'. spec_step a a' \<and> refines a' s' \<and> tables_ok a' s'"
    using tables_ok_tick a spec_step.tick by blast
qed

text \<open>Quiet changes before and after a step do not matter.\<close>

lemma simulates_trans_quiet:
  assumes "simulates s1 s2" and "proc_view s1 = proc_view s" "pcbs s1 = pcbs s"
    and "proc_view s' = proc_view s2" "pcbs s' = pcbs s2"
  shows "simulates s s'"
  unfolding simulates_def
proof (intro allI impI)
  fix a
  assume "refines a s \<and> tables_ok a s"
  then have "refines a s1 \<and> tables_ok a s1"
    using refines_proc_view [OF assms(2)] tables_ok_pcbs [OF assms(3)] by simp
  then obtain a' where "spec_step a a'" "refines a' s2" "tables_ok a' s2" using assms(1) unfolding simulates_def by blast
  then show "\<exists>a'. spec_step a a' \<and> refines a' s' \<and> tables_ok a' s'"
    using refines_proc_view [OF assms(4)] tables_ok_pcbs [OF assms(5)] by auto
qed

lemma pit_handler_ok:
  assumes "kernel_ok s" and "after (pit_handler esp ebp s) = Some s'"
  shows "keyboard_ok s'" and "simulates s s'"
proof -
  let ?s = "send_eoi 0 (cli s)"
  obtain a where a: "refines a s" "keyboard_ok s" using assms(1) by (auto simp: kernel_ok_def)
  obtain u where u: "after (schedule esp ebp ?s) = Some u" "s' = u \<or> s' = sti u"
    using assms(2) by (auto simp: pit_handler_def after_def split: outcome.splits)
  have "keyboard_ok ?s" using a(2) keyboard_ok_view [of ?s s] by simp
  then have "keyboard_ok u" by (rule keyboard_ok_schedule [OF _ _ u(1)]) (use a(1) refines_eoi in auto)
  then show "keyboard_ok s'" using u(2) keyboard_ok_view [of "sti u" u] by auto
  show "simulates s s'" by (rule simulates_trans_quiet [OF schedule_simulates [OF u(1)]]) (use u(2) in auto)
qed

section \<open>halt and execute\<close>

lemma screen_view_close_all [simp]: "screen_view (close_all p s) = screen_view s"
  unfolding close_all_def by (rule screen_view_fold) simp

lemma tables_ok_close_all: "tables_ok a s \<Longrightarrow> tables_ok a (close_all p s)"
proof -
  have "tables_ok a (fold (\<lambda>i. upd_pcb p (\<lambda>q. snd (file_descriptor_table_close (int i) q))) is s)"
    if "tables_ok a s" for "is"
    using that by (induction "is" arbitrary: s) (simp_all add: tables_ok_upd_pcb close_table_ok)
  then show "tables_ok a s \<Longrightarrow> tables_ok a (close_all p s)" unfolding close_all_def by blast
qed

lemma syscall_halt_ok:
  assumes "kernel_ok s" and "active_pid s \<noteq> 0" and "after (syscall_halt status s) = Some s'"
  shows "keyboard_ok s'" and "simulates s s'"
proof -
  have ko: "keyboard_ok s" using assms(1) by (simp add: kernel_ok_def)
  have small: "active_pid s \<le> 6" if "refines a s" for a using that running_small by (simp add: refines_def)
  have root: "keyboard_ok s' \<and> pcbs s' = pcbs s" if "active_pid s \<in> {1, 2, 3}"
  proof -
    obtain t m where "syscall_halt status s = boot_enter t (root_pid t) (kprint m s)"
      using \<open>active_pid s \<in> {1, 2, 3}\<close> by (auto simp: syscall_halt_def boot_enters)
    then obtain pc sp where b: "boot_enter t (root_pid t) (kprint m s) = Enter_user pc sp s'"
      using assms(3) boot_enter_view [of t "root_pid t" "kprint m s"] by (auto simp: after_def)
    have "screen_view (kprint m s) = screen_view ((kprint m s)\<lparr>active_terminal := active_terminal (kprint m s)\<rparr>)"
      by simp
    from keyboard_ok_boot_enter [OF keyboard_ok_kprint [OF ko] root_pid_cases(3) this b]
    show ?thesis using b boot_enter_view [of t "root_pid t" "kprint m s"] by auto
  qed
  have child: "s' = halted s" if "active_pid s \<notin> {1, 2, 3}"
    using assms(3) by (simp add: syscall_halt_child [OF that] after_def)
  show "simulates s s'" unfolding simulates_def
  proof (intro allI impI)
    fix a
    assume a: "refines a s \<and> tables_ok a s"
    then have "sp_started a (sp_active a)" using assms(2) running_zero [of a] by (auto simp: refines_def)
    then have r: "refines (spec_halt a) s'" using syscall_halt_refines [of a s status] a assms(3) by auto
    have "tables_ok a s'"
      using root child tables_ok_close_all a halted_frame(4) [of s] by (metis tables_ok_pcbs)
    moreover have "set (sp_chain (spec_halt a) t) \<subseteq> set (sp_chain a t)" for t
      by (cases "sp_kids a t") (auto simp: sp_chain_def)
    ultimately have "tables_ok (spec_halt a) s'" unfolding tables_ok_def by blast
    then show "\<exists>a'. spec_step a a' \<and> refines a' s' \<and> tables_ok a' s'" using r spec_step.halt by blast
  qed
  then obtain a' where a': "refines a' s'" using assms(1) unfolding simulates_def kernel_ok_def by blast
  show "keyboard_ok s'"
  proof (cases "active_pid s \<in> {1, 2, 3}")
    case False
    let ?q = "parent_pid (pcb_of (active_pid s) s)"
    have "?q \<le> 6" using a' running_small [of a'] child [OF False] halted_frame(2) [of s] by (simp add: refines_def)
    moreover have "screen_view ((activate t q (close_all p (s\<lparr>process_count := n, processes := ps\<rparr>)))\<lparr>tss_esp0 := k\<rparr>)
        = screen_view (s\<lparr>active_terminal := t\<rparr>)" for t q p n ps k
    proof -
      have "screen_view (activate t q w) = screen_view (w\<lparr>active_terminal := t\<rparr>)" for w
        unfolding activate_def by (subst screen_view_upd_terminal) (simp_all add: term_core_def)
      moreover have "screen_view ((close_all p w)\<lparr>active_terminal := t\<rparr>) = screen_view (w\<lparr>active_terminal := t\<rparr>)" for w
        using screen_view_close_all [of p w] by (simp add: screen_view_def)
      ultimately show ?thesis by (simp add: screen_view_def)
    qed
    ultimately show ?thesis
      unfolding child [OF False] halted_def Let_def using keyboard_ok_remap [OF ko] by blast
  qed (use root in blast)
qed

lemma launched_tables:
  assumes "tables_ok a s"
  shows "tables_ok (spec_execute pid a) (launched fd pid esp ebp s)"
proof -
  obtain u where p: "pcbs (launched fd pid esp ebp s) = pcbs (upd_pcb (active_pid s)
      (\<lambda>p. p\<lparr>current_esp := esp, current_ebp := ebp\<rparr>) (upd_pcb pid (new_pcb pid u) s))"
    using launched_frame(1) [of s fd pid esp ebp] by blast
  have new: "fd_table_ok (new_pcb pid u q)" for q
    using table_init_ok [of q] fd_table_ok_array [of "new_pcb pid u q" "snd (file_descriptor_table_init q)"]
    by (simp add: new_pcb_def)
  have esp: "fd_table_ok q \<Longrightarrow> fd_table_ok (q\<lparr>current_esp := e, current_ebp := b\<rparr>)" for q e b
    by (simp add: fd_table_ok_def)
  have "tables_ok a (upd_pcb pid (new_pcb pid u) s)" by (rule tables_ok_upd_pcb [OF assms]) (rule new)
  then have "tables_ok a (upd_pcb (active_pid s) (\<lambda>p. p\<lparr>current_esp := esp, current_ebp := ebp\<rparr>) (upd_pcb pid (new_pcb pid u) s))"
    by (rule tables_ok_upd_pcb) (rule esp)
  then have "tables_ok a (launched fd pid esp ebp s)" using tables_ok_pcbs [OF p] by simp
  moreover have "fd_table_ok (pcb_of pid (launched fd pid esp ebp s))"
    unfolding pcb_of_def p using new esp by (simp add: upd_pcb_def pcb_of_def)
  ultimately show ?thesis by (simp add: tables_ok_def sp_chain_def)
qed

lemma keyboard_ok_launched:
  assumes "keyboard_ok s" and "pid \<le> 6"
  shows "keyboard_ok (launched fd pid esp ebp s)"
proof -
  let ?u = "s\<lparr>process_count := process_count s + 1, processes := snd (pool_acquire (processes s))\<rparr>"
  let ?v = "upd_terminal (active_terminal s) (\<lambda>t. t\<lparr>current_process_id := pid\<rparr>) (upd_pcb pid (new_pcb pid ?u) ?u)"
  have "screen_view ?v = screen_view (s\<lparr>active_terminal := active_terminal s\<rparr>)"
    by (subst screen_view_upd_terminal) (simp_all add: term_core_def)
  then have "keyboard_ok (paging_video_memory (paging_execute pid ?v))" by (rule keyboard_ok_remap [OF assms])
  moreover have "screen_view (launched fd pid esp ebp s) = screen_view (paging_video_memory (paging_execute pid ?v))"
    by (simp add: launched_def Let_def load_program_def)
  ultimately show ?thesis using keyboard_ok_view by metis
qed

lemma start_process_ok:
  assumes "kernel_ok s" and "active_pid s \<noteq> 0" and "process_count s \<noteq> 6"
    and "after (start_process fd esp ebp s) = Some s'"
  shows "keyboard_ok s'" and "simulates s s'"
proof -
  have one: "\<exists>pid. pid \<in> {4, 5, 6} - set (sp_all a) \<and> s' = sti (launched fd pid esp ebp s)
      \<and> refines (spec_execute pid a) s'" if r: "refines a s" for a
  proof -
    have "sp_started a (sp_active a)" using assms(2) r running_zero [of a] by (auto simp: refines_def)
    from start_process_refines [OF r this assms(3), of fd esp ebp] obtain pid
      where pid: "pid \<in> {4, 5, 6} - set (sp_all a)"
        and st: "start_process fd esp ebp s = context_switch_execute (launched fd pid esp ebp s)"
        and l: "refines (spec_execute pid a) (launched fd pid esp ebp s)"
      by (elim exE conjE) (rule that)
    have e: "s' = sti (launched fd pid esp ebp s)" using assms(4) by (simp add: st context_switch_execute_def after_def)
    then have "refines (spec_execute pid a) s'" using l refines_proc_view [of s' "launched fd pid esp ebp s"] by simp
    then show ?thesis using pid e by (intro exI conjI)
  qed
  show "simulates s s'" unfolding simulates_def
  proof (intro allI impI)
    fix a
    assume a: "refines a s \<and> tables_ok a s"
    then obtain pid where p: "pid \<in> {4, 5, 6} - set (sp_all a)" "s' = sti (launched fd pid esp ebp s)"
      "refines (spec_execute pid a) s'" using one by blast
    have "tables_ok (spec_execute pid a) s'"
      using launched_tables [of a s pid fd esp ebp] a p(2) tables_ok_pcbs [of s' "launched fd pid esp ebp s"] by simp
    moreover have "spec_step a (spec_execute pid a)" using p(1) by (intro spec_step.execute) auto
    ultimately show "\<exists>a'. spec_step a a' \<and> refines a' s' \<and> tables_ok a' s'" using p(3) by blast
  qed
  obtain a where "refines a s" and ko: "keyboard_ok s" using assms(1) by (auto simp: kernel_ok_def)
  then obtain pid where p: "pid \<in> {4, 5, 6} - set (sp_all a)" "s' = sti (launched fd pid esp ebp s)" using one by blast
  have "pid \<le> 6" using p(1) by auto
  from keyboard_ok_launched [OF ko this, of fd esp ebp] show "keyboard_ok s'"
    using p(2) keyboard_ok_view [of s' "launched fd pid esp ebp s"] by simp
qed

lemma syscall_execute_cases:
  assumes "after (syscall_execute command esp ebp junk s) = Some s'"
  shows "(\<exists>m b x. s' = kprint m s \<or> s' = s\<lparr>argument_exist := x\<rparr> \<or> s' = kprint m (s\<lparr>argument_exist := x\<rparr>)
      \<or> s' = s\<lparr>argument_exist := x, arg_buf := b\<rparr>)
    \<or> process_count s \<noteq> 6 \<and> (\<exists>fd b x. after (start_process fd esp ebp (s\<lparr>argument_exist := x, arg_buf := b\<rparr>)) = Some s')"
proof (cases "process_count s = 6")
  case True
  then show ?thesis using assms by (auto simp: syscall_execute_def MAX_NUM_PROCESSES_def after_def)
next
  case False
  have swap: "u\<lparr>argument_exist := y, arg_buf := b, argument_exist := x\<rparr> = u\<lparr>argument_exist := x, arg_buf := b\<rparr>" for u :: kstate and b x y
    by (cases u) simp
  show ?thesis
    using assms False unfolding syscall_execute_def Let_def MAX_NUM_PROCESSES_def swap
    by (auto simp: after_def split: option.splits if_splits prod.splits) (blast+)?
qed

section \<open>The other system calls\<close>

lemma keyboard_ok_size:
  assumes "keyboard_ok s"
  shows "keyboard_ok (upd_terminal t (\<lambda>T. T\<lparr>keyboard_buffer_size := 0\<rparr>) s)"
proof -
  have "video_ok (upd_terminal t (\<lambda>T. T\<lparr>keyboard_buffer_size := 0\<rparr>) s)"
    using assms by (intro video_ok_upd_terminal) (simp_all add: keyboard_ok_def)
  then show ?thesis using assms by (simp add: keyboard_ok_def line_ok_def)
qed

lemma keyboard_ok_read_loop:
  "keyboard_ok s \<Longrightarrow> keyboard_ok (snd (terminal_read_loop i n buf s))"
proof (induction i n buf s rule: terminal_read_loop.induct)
  case (1 index n buf s)
  have st: "keyboard_ok (vstore a b s)" for a b using "1.prems" keyboard_ok_view [of "vstore a b s" s] by simp
  then show ?case
    using 1 by (subst terminal_read_loop.simps) (simp add: line_done_def Let_def keyboard_ok_size)
qed

lemma keyboard_ok_spin:
  "spin_until c es s = Some s' \<Longrightarrow> set es \<subseteq> device_handlers \<Longrightarrow> keyboard_ok s \<Longrightarrow> keyboard_ok s'"
  by (erule spin_invariant) (auto intro: keyboard_ok_devices)

lemma keyboard_ok_read:
  assumes r: "file_descriptor_table_read es pid fd buf n s = Some (v, s')" and es: "set es \<subseteq> device_handlers"
    and ok: "keyboard_ok s"
  shows "keyboard_ok s'"
proof -
  have en: "screen_view (upd_terminal t (\<lambda>T. T\<lparr>keyboard_buffer_enable := 1\<rparr>) s) = screen_view s" for t
    by (rule screen_view_upd_terminal) (simp add: term_core_def)
  have t: "keyboard_ok s'" if r: "terminal_read es buf n s = Some (v, s')"
  proof (cases "buf = 0 \<or> n = 0")
    case True
    then show ?thesis using r ok by (auto simp: terminal_read_def split: if_splits)
  next
    case False
    then obtain s1 m where sp: "spin_until (\<lambda>s. keyboard_buffer_enable (terminals s (active_terminal s)) \<noteq> 1) es
        (upd_terminal (active_terminal s) (\<lambda>t. t\<lparr>keyboard_buffer_enable := 1\<rparr>) s) = Some s1"
      and l: "terminal_read_loop 0 m buf s1 = (v, s')"
      using r by (auto simp: terminal_read_def Let_def split: option.splits if_splits)
    have "keyboard_ok s1" using keyboard_ok_spin [OF sp es] keyboard_ok_view [OF en] ok by simp
    then show ?thesis using keyboard_ok_read_loop [of s1 0 m buf] l by simp
  qed
  have c: "keyboard_ok s'" if r: "rtc_read es s = Some (v, s')"
  proof -
    have "screen_view (rtc_read_start s) = screen_view s"
      unfolding rtc_read_start_def by (rule screen_view_upd_terminal) (simp add: term_core_def)
    then have "keyboard_ok (rtc_read_start s)" using keyboard_ok_view [of "rtc_read_start s" s] ok by simp
    then show ?thesis using r keyboard_ok_spin [OF _ es] by (auto simp: rtc_read_def split: option.splits)
  qed
  have f: "keyboard_ok (upd_pcb pid (set_pos k pos) (vstore_bytes a bs s))" for k pos a bs
    using ok keyboard_ok_view [of "upd_pcb pid (set_pos k pos) (vstore_bytes a bs s)" s] by simp
  show ?thesis
    using r t c f ok
    by (auto simp: file_descriptor_table_read_def Let_def split: if_splits file_ops_ptr.splits prod.splits)
qed

lemma simulates_read:
  assumes r: "file_descriptor_table_read es pid fd buf n s = Some (v, s')" and es: "set es \<subseteq> device_handlers"
  shows "simulates s s'"
proof -
  have pv: "proc_view s' = proc_view s" by (rule proc_view_read [OF assms])
  have "pcbs s' = pcbs s \<or> nat fd < 8 \<and> (\<exists>pos. pcbs s' = pcbs (upd_pcb pid (set_pos (nat fd) pos) s))
      \<and> file_ops (file_descriptor_array (pcb_of pid s) ! nat fd) \<in> {Ops_file, Ops_dir}"
    using r blocks.obs_terminal_read [OF _ es] blocks.obs_rtc_read [OF _ es]
    by (auto simp: file_descriptor_table_read_def Let_def upd_pcb_def pcb_of_def MAX_NUM_FILES_def nat_less_iff
        split: if_splits file_ops_ptr.splits prod.splits)
  then show ?thesis
  proof
    assume "pcbs s' = pcbs s"
    then show ?thesis by (rule simulates_quiet [OF pv])
  next
    assume "nat fd < 8 \<and> (\<exists>pos. pcbs s' = pcbs (upd_pcb pid (set_pos (nat fd) pos) s))
      \<and> file_ops (file_descriptor_array (pcb_of pid s) ! nat fd) \<in> {Ops_file, Ops_dir}"
    then obtain k pos where k: "k < 8" "pcbs s' = pcbs (upd_pcb pid (set_pos k pos) s)"
      "file_ops (file_descriptor_array (pcb_of pid s) ! k) \<in> {Ops_file, Ops_dir}" by blast
    show ?thesis
    proof (rule simulates_upd_pcb [OF pv k(2)])
      assume ok: "fd_table_ok (pcb_of pid s)"
      have "k \<noteq> 0" "k \<noteq> 1" using ok k(3) by (auto simp: fd_table_ok_def Let_def)
      then have k2: "2 \<le> k" by linarith
      moreover have "flags (file_descriptor_array (pcb_of pid s) ! k) \<noteq> 0"
        using ok k(1,3) k2 by (auto simp: fd_table_ok_def Let_def MAX_NUM_FILES_def)
      ultimately show "fd_table_ok (set_pos k pos (pcb_of pid s))"
        unfolding set_pos_def using k(1,3) by (intro table_update_ok [OF ok]) auto
    qed
  qed
qed

lemma keyboard_ok_write:
  assumes "keyboard_ok s"
  shows "keyboard_ok (snd (file_descriptor_table_write pid fd buf n s))"
proof -
  have t: "keyboard_ok (snd (terminal_write buf n s))"
    using assms keyboard_ok_fold [of "\<lambda>index s. putc (vload s (buf + of_nat index)) s", OF keyboard_ok_putc]
    by (simp add: terminal_write_def)
  have "screen_view (snd (rtc_write_loop i rate s)) = screen_view s" for i rate
  proof (induction i rate s rule: rtc_write_loop.induct)
    case (1 i rate s)
    then show ?case
      by (subst rtc_write_loop.simps) (simp add: Let_def screen_view_upd_terminal term_core_def)
  qed
  then have "keyboard_ok (snd (rtc_write_loop i rate s))" for i rate using assms keyboard_ok_view by metis
  then have "keyboard_ok (snd (rtc_write buf s))" using assms by (simp add: rtc_write_def Let_def)
  then show ?thesis
    using t assms by (simp add: file_descriptor_table_write_def Let_def split: file_ops_ptr.splits)
qed

lemma open_pcb_frame:
  assumes "file_descriptor_table_open M bbp f p = Some (v, p')"
  shows "parent_pid p' = parent_pid p" and "pcb_terminal p' = pcb_terminal p"
  using assms
  by (auto simp: file_descriptor_table_open_def mark_fd_def set_fd_def Let_def split: option.splits if_splits)

lemma keyboard_ok_vidmap:
  assumes "keyboard_ok s"
  shows "keyboard_ok (syscall_enable_vidmap_paging s)"
proof -
  have "low_frame VIDEO (syscall_enable_vidmap_paging s) = low_frame VIDEO s"
    by (simp add: low_frame_def syscall_enable_vidmap_paging_def enable_vidmap_def)
  then show ?thesis
    using assms wf_enable_vidmap
    by (simp add: keyboard_ok_def video_ok_def syscall_enable_vidmap_paging_def shown_frame_def)
qed

lemma small_calls_ok:
  assumes "kernel_ok s"
  shows "after (syscall_open f s) = Some s' \<Longrightarrow> keyboard_ok s' \<and> simulates s s'"
    and "after (syscall_close fd s) = Some s' \<Longrightarrow> keyboard_ok s' \<and> simulates s s'"
    and "after (syscall_getargs f n s) = Some s' \<Longrightarrow> keyboard_ok s' \<and> simulates s s'"
    and "after (syscall_vidmap f s) = Some s' \<Longrightarrow> keyboard_ok s' \<and> simulates s s'"
proof -
  have ok: "keyboard_ok s" using assms by (simp add: kernel_ok_def)
  have view: "keyboard_ok u" if "screen_view u = screen_view s" for u using keyboard_ok_view [OF that] ok by simp
  show "keyboard_ok s' \<and> simulates s s'" if c: "after (syscall_open f s) = Some s'"
  proof -
    obtain v p where o: "file_descriptor_table_open (view s) (boot_block_pointer s)
        (if f = 0 then None else Some (at (view s) f)) (pcb_of (active_pid s) s) = Some (v, p)"
      and s': "s' = upd_pcb (active_pid s) (\<lambda>_. p) s"
      using c by (auto simp: syscall_open_def Let_def after_def split: option.splits)
    have "simulates s s'"
      unfolding s' by (rule simulates_upd_pcb [OF _ refl])
        (use open_pcb_frame [OF o] open_table_ok [OF _ o] in \<open>auto simp: proc_view_upd_pcb\<close>)
    then show ?thesis using view [of s'] s' by simp
  qed
  show "keyboard_ok s' \<and> simulates s s'" if c: "after (syscall_close fd s) = Some s'"
  proof -
    let ?c = "snd (file_descriptor_table_close (sint fd) (pcb_of (active_pid s) s))"
    have s': "s' = upd_pcb (active_pid s) (\<lambda>_. ?c) s"
      using c by (auto simp: syscall_close_def Let_def after_def split: prod.splits)
    have "simulates s s'"
      unfolding s' by (rule simulates_upd_pcb [OF _ refl])
        (auto simp: proc_view_upd_pcb proc_view_close close_table_ok)
    then show ?thesis using view [of s'] s' by simp
  qed
  show "keyboard_ok s' \<and> simulates s s'" if c: "after (syscall_getargs f n s) = Some s'"
  proof -
    have "s' = s \<or> (\<exists>bs. s' = vstore_bytes f bs s)"
      using c by (auto simp: syscall_getargs_def Let_def after_def split: if_splits)
    then show ?thesis using view [of s'] by (auto intro: simulates_quiet)
  qed
  show "keyboard_ok s' \<and> simulates s s'" if c: "after (syscall_vidmap f s) = Some s'"
  proof (cases "s' = s")
    case False
    let ?u = "upd_pcb (active_pid s) (\<lambda>p. p\<lparr>vidmap_flag := 1\<rparr>) s"
    have s': "s' = vstore_bytes f (word_bytes vidmap_address) (syscall_enable_vidmap_paging ?u)"
      using c False by (auto simp: syscall_vidmap_def Let_def after_def split: if_splits)
    have "keyboard_ok (syscall_enable_vidmap_paging ?u)" by (rule keyboard_ok_vidmap [OF view]) simp
    then have "keyboard_ok s'" using s' keyboard_ok_view [of s' "syscall_enable_vidmap_paging ?u"] by simp
    moreover have "simulates s s'"
      by (rule simulates_upd_pcb [of _ _ "active_pid s" "\<lambda>p. p\<lparr>vidmap_flag := 1\<rparr>"])
        (auto simp: s' proc_view_upd_pcb fd_table_ok_def)
    ultimately show ?thesis by blast
  qed (use ok in \<open>auto intro: simulates_quiet\<close>)
qed

lemma syscall_dispatch_ok:
  assumes "kernel_ok s" and "active_pid s \<noteq> 0" and "set es \<subseteq> device_handlers"
    and "after (syscall_dispatch es esp ebp junk eax ebx ecx edx s) = Some s'"
  shows "keyboard_ok s' \<and> simulates s s'"
proof -
  have ok: "keyboard_ok s" using assms(1) by (simp add: kernel_ok_def)
  have same: "keyboard_ok s \<and> simulates s s" using ok by (auto intro: simulates_quiet)
  have rd: "keyboard_ok s' \<and> simulates s s'" if "after (syscall_read es ebx ecx edx s) = Some s'"
    using that keyboard_ok_read [OF _ assms(3) ok] simulates_read [OF _ assms(3)]
    by (auto simp: syscall_read_def as_outcome_def after_def split: option.splits)
  have wr: "keyboard_ok s' \<and> simulates s s'" if w: "after (syscall_write ebx ecx edx s) = Some s'"
  proof -
    have "s' = snd (file_descriptor_table_write (active_pid s) (sint ebx) ecx edx s)"
      using w by (auto simp: syscall_write_def Let_def after_def split: prod.splits)
    then show ?thesis using keyboard_ok_write [OF ok] proc.obs_write blocks.obs_write by (auto intro: simulates_quiet)
  qed
  have ex: "keyboard_ok s' \<and> simulates s s'" if x: "after (syscall_execute ebx esp ebp junk s) = Some s'"
  proof -
    have "keyboard_ok (kprint m s) \<and> simulates s (kprint m s)" for m
      using keyboard_ok_kprint [OF ok] by (auto intro: simulates_quiet)
    moreover have q: "keyboard_ok u \<and> simulates s u" if "screen_view u = screen_view s" "proc_view u = proc_view s" "pcbs u = pcbs s" for u
      using that ok keyboard_ok_view [of u s] by (auto intro: simulates_quiet)
    moreover have "keyboard_ok (kprint m (s\<lparr>argument_exist := y\<rparr>)) \<and> simulates s (kprint m (s\<lparr>argument_exist := y\<rparr>))" for m y
      using keyboard_ok_kprint [of "s\<lparr>argument_exist := y\<rparr>" m] q [of "s\<lparr>argument_exist := y\<rparr>"] by (auto intro: simulates_quiet)
    moreover have "keyboard_ok s' \<and> simulates s s'"
      if n: "process_count s \<noteq> 6" and st: "after (start_process fd esp ebp (s\<lparr>argument_exist := y, arg_buf := b\<rparr>)) = Some s'" for fd y b
    proof -
      let ?u = "s\<lparr>argument_exist := y, arg_buf := b\<rparr>"
      have u: "proc_view ?u = proc_view s" "pcbs ?u = pcbs s" "keyboard_ok ?u" using q [of ?u] by simp_all
      then have "kernel_ok ?u"
        using assms(1) refines_proc_view [OF u(1)] tables_ok_pcbs [OF u(2)] by (auto simp: kernel_ok_def)
      from start_process_ok [OF this _ _ st] show ?thesis
        using simulates_trans_quiet [OF _ u(1,2) refl refl] assms(2) n by simp
    qed
    ultimately show ?thesis using syscall_execute_cases [OF x] by auto
  qed
  have ht: "keyboard_ok s' \<and> simulates s s'" if "after (syscall_halt (ucast ebx) s) = Some s'"
    using syscall_halt_ok [OF assms(1,2) that] by blast
  have no: "keyboard_ok s' \<and> simulates s s'" if "after (Return v s) = Some s'" for v
    using that same by (simp add: after_def)
  show ?thesis
    using assms(4) rd wr ex ht no small_calls_ok [OF assms(1)]
    unfolding syscall_dispatch_def syscall_set_handler_def syscall_sigreturn_def by (simp split: if_splits)
qed

end
