(* ===== verification/Kernel_Memory.thy ===== *)
theory Kernel_Memory
  imports Kernel
begin

text \<open>
  What the kernel writes. Apart from its own variables, which are the other fields of the state, the kernel's
  4 MB of physical memory hold its code and the file system image; \<open>kernel_memory\<close> is their contents. The
  operations write the video pages and the program pages only, as long as the buffers that a process
  hands to the system calls lie in its program page; the kernel does not check that they do.
\<close>

section \<open>The kernel's memory\<close>

definition kernel_frame :: "20 word \<Rightarrow> bool" where
  "kernel_frame f \<longleftrightarrow> 0x400 \<le> f \<and> f < 0x800"

definition kernel_memory :: "kstate \<Rightarrow> 20 word \<Rightarrow> (12 word \<Rightarrow> byte) option" where
  "kernel_memory s f = (if kernel_frame f then Some (pmem s f) else None)"

lemma kernel_memoryI: "(\<And>f. kernel_frame f \<Longrightarrow> pmem s' f = pmem s f) \<Longrightarrow> kernel_memory s' = kernel_memory s"
  by (auto simp: kernel_memory_def)

lemma kernel_memory_pmem: "pmem s' = pmem s \<Longrightarrow> kernel_memory s' = kernel_memory s"
  by (rule kernel_memoryI) simp

lemma video_not_kernel: "f \<in> video_frames \<Longrightarrow> \<not> kernel_frame f"
  by (auto simp: video_frames_def kernel_frame_def word_le_nat_alt)

lemma program_not_kernel:
  assumes "p \<le> 6"
  shows "\<not> kernel_frame (0x800 + p * 0x400 + (x AND 0x003FF))"
  using pid_frame(2) [OF assms, of x] by (simp add: kernel_frame_def word_less_nat_alt)

text \<open>Where the kernel's own accesses go, outside its 4 MB page.\<close>

lemma xlate_not_kernel:
  assumes wf: "wf_pages pt" and d: "dir_index va \<noteq> 1" and x: "xlate u pt va = Some (f, off)"
  shows "\<not> kernel_frame f"
proof -
  let ?e = "page_dir pt (dir_index va)"
  have en: "paging_enabled pt" and pe: "pde_present ?e = 1"
    using x wf by (auto simp: xlate_def wf_pages_def Let_def bit_cases split: if_splits)
  have absent: "\<forall>i. i \<noteq> 0 \<and> i \<noteq> 1 \<and> i \<noteq> 32 \<and> i \<noteq> 33 \<longrightarrow> pde_present (page_dir pt i) = 0"
    "\<forall>i. i \<noteq> 0xB7 \<and> i \<noteq> 0xB8 \<and> i \<noteq> 0xB9 \<and> i \<noteq> 0xBA \<and> i \<noteq> 0xBB \<longrightarrow> pte_present (pg_tab_1 pt i) = 0"
    using wf unfolding wf_pages_def by blast+
  have "dir_index va = 0 \<or> dir_index va = 32 \<or> dir_index va = 33"
    using absent(1) [rule_format, of "dir_index va"] d pe by (metis zero_neq_one)
  then consider "dir_index va = 0" | "dir_index va = 32" | "dir_index va = 33" by blast
  then show ?thesis
  proof cases
    case 1
    then have "table_entry pt (pde_address ?e) (page_index va) = Some (pg_tab_1 pt (page_index va))"
      "pde_page_size ?e = 0"
      using wf by (auto simp: wf_pages_def table_entry_def)
    then have p: "pte_present (pg_tab_1 pt (page_index va)) = 1" "f = pte_address (pg_tab_1 pt (page_index va))"
      using x en pe by (auto simp: xlate_def Let_def bit_cases split: if_splits)
    have "pte_present (pg_tab_1 pt (page_index va)) \<noteq> 0" using p(1) by simp
    then have i: "page_index va \<in> {0xB7, 0xB8, 0xB9, 0xBA, 0xBB}"
      using absent(2) [rule_format, of "page_index va"] by blast
    have "pte_address (pg_tab_1 pt 0xB7) \<in> video_frames" "pte_address (pg_tab_1 pt 0xB8) \<in> video_frames"
      "pte_address (pg_tab_1 pt 0xB9) \<in> video_frames" "pte_address (pg_tab_1 pt 0xBA) \<in> video_frames"
      "pte_address (pg_tab_1 pt 0xBB) \<in> video_frames"
      using wf by (simp_all add: wf_pages_def video_frames_def)
    then have "f \<in> video_frames" using i unfolding p(2) by (elim insertE emptyE) simp_all
    then show ?thesis by (rule video_not_kernel)
  next
    case 2
    then obtain p where p: "p \<le> 6" "pde_address ?e = 0x800 + p * 0x400" and "pde_page_size ?e = 1"
      using wf pe by (auto simp: wf_pages_def)
    then have "f = ((0x800 + p * 0x400) AND 0xFFC00) OR (frame_of va AND 0x003FF)"
      using x en pe by (auto simp: xlate_def Let_def split: if_splits)
    then show ?thesis using pid_frame(1) [OF p(1)] program_not_kernel [OF p(1)] by simp
  next
    case 3
    then have "table_entry pt (pde_address ?e) (page_index va) = Some (vidmap_pg_tab_1 pt (page_index va))"
      and "pde_page_size ?e = 0"
      using wf pe by (auto simp: wf_pages_def table_entry_def)
    then have p: "pte_present (vidmap_pg_tab_1 pt (page_index va)) = 1"
      "f = pte_address (vidmap_pg_tab_1 pt (page_index va))"
      using x en pe by (auto simp: xlate_def Let_def bit_cases split: if_splits)
    moreover have "\<forall>i. i \<noteq> 0 \<longrightarrow> pte_present (vidmap_pg_tab_1 pt i) = 0"
      and "pte_present (vidmap_pg_tab_1 pt 0) = 1 \<longrightarrow> pte_address (vidmap_pg_tab_1 pt 0) \<in> video_frames"
      using wf unfolding wf_pages_def by blast+
    ultimately have "f \<in> video_frames" by (cases "page_index va = 0") auto
    then show ?thesis by (rule video_not_kernel)
  qed
qed

lemma kernel_memory_vstore:
  assumes "wf_pages (pages s)" and "dir_index va \<noteq> 1"
  shows "kernel_memory (vstore va b s) = kernel_memory s"
proof (rule kernel_memoryI)
  fix f
  assume "kernel_frame f"
  then show "pmem (vstore va b s) f = pmem s f"
    using xlate_not_kernel [OF assms] by (auto simp: vstore_def split: option.split)
qed

lemma pages_vstore [simp]: "pages (vstore va b s) = pages s"
  by (simp add: vstore_def split: option.split)

text \<open>The addresses from 128 MB to the end of the page of the video mapping.\<close>

definition user_addr :: "addr \<Rightarrow> bool" where
  "user_addr a \<longleftrightarrow> 0x08000000 \<le> a \<and> a < 0x08800000"

lemma user_addr_dir: "user_addr a \<Longrightarrow> dir_index a \<noteq> 1"
proof -
  assume "user_addr a"
  then have "0x08000000 \<le> unat a" "unat a < 0x08800000"
    by (simp_all add: user_addr_def word_le_nat_alt word_less_nat_alt)
  then have "32 \<le> unat (drop_bit 22 a)" "unat (drop_bit 22 a) \<le> 33"
    by (simp_all add: unat_drop_bit_div)
  then have "unat (drop_bit 22 a) \<in> {32, 33}" by auto
  then have "drop_bit 22 a \<in> {32, 33}" by (auto simp: word_unat_eq_iff)
  then show ?thesis by (auto simp: dir_index_def)
qed

definition user_range :: "addr \<Rightarrow> nat \<Rightarrow> bool" where
  "user_range a n \<longleftrightarrow> 0x08000000 < unat a \<and> unat a + n \<le> 0x08800000"

lemma user_range_addr: "user_range a n \<Longrightarrow> k < n \<Longrightarrow> user_addr (a + of_nat k)"
  unfolding user_range_def user_addr_def
  by (simp add: word_le_nat_alt word_less_nat_alt unat_word_ariths unat_of_nat)

lemma kernel_memory_vstore_bytes:
  assumes "wf_pages (pages s)" and "user_range a (length bs)"
  shows "kernel_memory (vstore_bytes a bs s) = kernel_memory s"
  using assms
proof (induction bs arbitrary: a s)
  case (Cons b bs)
  have u: "user_addr a" using user_range_addr [OF Cons.prems(2), of 0] by simp
  show ?case
  proof (cases bs)
    case Nil
    then show ?thesis using kernel_memory_vstore [OF Cons.prems(1) user_addr_dir [OF u]] by simp
  next
    case (Cons c cs)
    then have "user_range (a + 1) (length bs)"
      using Cons.prems(2) by (simp add: user_range_def unat_word_ariths)
    then show ?thesis
      using Cons.IH [of "vstore a b s" "a + 1"] Cons.prems(1) kernel_memory_vstore [OF _ user_addr_dir [OF u]] by simp
  qed
qed simp

section \<open>The operations\<close>

lemma kernel_memory_fields [simp]:
  "kernel_memory (s\<lparr>io_log := l\<rparr>) = kernel_memory s" "kernel_memory (s\<lparr>iflag := b\<rparr>) = kernel_memory s"
  "kernel_memory (s\<lparr>tss_esp0 := w\<rparr>) = kernel_memory s" "kernel_memory (s\<lparr>active_pid := p\<rparr>) = kernel_memory s"
  "kernel_memory (s\<lparr>active_terminal := t\<rparr>) = kernel_memory s" "kernel_memory (s\<lparr>arg_buf := bs\<rparr>) = kernel_memory s"
  "kernel_memory (s\<lparr>argument_exist := c\<rparr>) = kernel_memory s" "kernel_memory (s\<lparr>process_count := i\<rparr>) = kernel_memory s"
  "kernel_memory (s\<lparr>processes := ps\<rparr>) = kernel_memory s" "kernel_memory (s\<lparr>pages := pt\<rparr>) = kernel_memory s"
  "kernel_memory (s\<lparr>rtc_read_flag := c\<rparr>) = kernel_memory s" "kernel_memory (s\<lparr>alt_pressed := w\<rparr>) = kernel_memory s"
  "kernel_memory (s\<lparr>ctrl_pressed := w\<rparr>) = kernel_memory s" "kernel_memory (s\<lparr>shift_pressed := w\<rparr>) = kernel_memory s"
  "kernel_memory (s\<lparr>caps_lock := w\<rparr>) = kernel_memory s"
  "kernel_memory (upd_pcb p f s) = kernel_memory s" "kernel_memory (upd_terminal t g s) = kernel_memory s"
  "kernel_memory (cli s) = kernel_memory s" "kernel_memory (sti s) = kernel_memory s"
  "kernel_memory (send_eoi n s) = kernel_memory s"
  "kernel_memory (paging_execute p s) = kernel_memory s" "kernel_memory (paging_video_memory s) = kernel_memory s"
  "kernel_memory (syscall_enable_vidmap_paging s) = kernel_memory s"
  by (rule kernel_memory_pmem, simp add: cli_def sti_def send_eoi_def send_eoi_master_def outb_def paging_execute_def
      syscall_enable_vidmap_paging_def)+

text \<open>What the kernel reads in its own page.\<close>

lemma view_kernel:
  assumes "wf_pages (pages u)" and "dir_index va = 1"
  shows "view u va = the (kernel_memory u (0x400 + (frame_of va AND 0x003FF))) (ucast va)"
proof -
  let ?f = "0x400 + (frame_of va AND 0x003FF) :: 20 word"
  have "unat ?f = 0x400 + unat (frame_of va AND 0x003FF)"
    using low_bits_bound [of "frame_of va"] by (simp add: unat_word_ariths)
  then have "kernel_frame ?f"
    using low_bits_bound [of "frame_of va"] by (simp add: kernel_frame_def word_le_nat_alt word_less_nat_alt)
  then show ?thesis using xlate_kernel(1) [OF assms] by (simp add: view_def vload_def kernel_memory_def)
qed

lemma kernel_memory_becomes:
  assumes "console_becomes t f s k s'" and "f \<in> video_frames"
  shows "kernel_memory s' = kernel_memory s"
proof (rule kernel_memoryI)
  fix h
  assume "kernel_frame h"
  then have "h \<noteq> f" using video_not_kernel [OF assms(2)] by blast
  then show "pmem s' h = pmem s h" by (rule console_becomes_frame(9) [OF assms(1)])
qed

lemma video_targets:
  assumes "video_ok s"
  shows "low_frame VIDEO s \<in> video_frames" and "low_frame VIDEO_DIRECT s \<in> video_frames"
  using assms low_frames(1) [of s] shown_frame_video [of "active_terminal s" s]
  by (simp_all add: video_ok_def VIDEO_DIRECT_def video_frames_def)

lemma kernel_memory_putc:
  assumes "keyboard_ok s"
  shows "kernel_memory (putc c s) = kernel_memory s"
proof -
  have v: "video_ok s" using assms by (simp add: keyboard_ok_def)
  note b = video_bases [OF v]
  show ?thesis
    unfolding putc_def by (rule kernel_memory_becomes [OF putc_at_spec [OF b(3,5,4) refl] video_targets(1) [OF v]])
qed

lemma kernel_memory_fold:
  assumes "\<And>x s. keyboard_ok s \<Longrightarrow> keyboard_ok (f x s) \<and> kernel_memory (f x s) = kernel_memory s" and "keyboard_ok s"
  shows "kernel_memory (fold f xs s) = kernel_memory s"
  using assms by (induction xs arbitrary: s) simp_all

lemma kernel_memory_kprint: "keyboard_ok s \<Longrightarrow> kernel_memory (kprint m s) = kernel_memory s"
  by (simp add: kprint_def printf_def kernel_memory_fold [of putc] keyboard_ok_putc kernel_memory_putc split: option.split)

lemma kernel_memory_echo:
  assumes "video_ok s"
  shows "kernel_memory (current_terminal_putc c s) = kernel_memory s"
    and "kernel_memory (current_terminal_back_putc s) = kernel_memory s"
    and "kernel_memory (current_terminal_clear s) = kernel_memory s"
  using current_becomes [OF assms] kernel_memory_becomes [OF _ video_targets(2) [OF assms]] by blast+

lemma kernel_memory_switch:
  assumes "video_ok s"
  shows "kernel_memory (switch_to_terminal t s) = kernel_memory s"
proof (cases "t = current_terminal s")
  case True
  then show ?thesis using switch_same by simp
next
  case False
  have "\<not> kernel_frame 0xB8" "\<not> kernel_frame (saved_frame u)" for u
    using video_not_kernel [of "0xB8"] video_not_kernel [of "saved_frame u"]
    by (cases u; simp add: video_frames_def saved_frames)+
  then have "kernel_memory (swapped t s) = kernel_memory s"
    by (intro kernel_memoryI) (auto simp: swapped_def)
  then show ?thesis using switch_to_terminal_spec [OF assms False] by auto
qed

lemma kernel_memory_devices:
  assumes "keyboard_ok s" and "h \<in> device_handlers"
  shows "kernel_memory (h s) = kernel_memory s"
proof -
  have v: "video_ok s" using assms(1) by (simp add: keyboard_ok_def)
  have c: "kernel_memory (character_key k s) = kernel_memory s" for k
    using kernel_memory_echo(1) [OF v] kernel_memory_echo(3) [OF echo_writer.op_ok [OF v]]
    by (simp add: character_key_def Let_def)
  have "video_ok (upd_terminal t (\<lambda>T. T\<lparr>keyboard_buffer_size := keyboard_buffer_size T - 1\<rparr>) s)" for t
    by (rule video_ok_upd_terminal [OF v]) simp_all
  then have b: "kernel_memory (backspace_key s) = kernel_memory s"
    by (simp add: backspace_key_def Let_def kernel_memory_echo(2))
  have "kernel_memory (keyboard_handler s) = kernel_memory s"
    using kernel_memory_switch [OF v, of Terminal_1] kernel_memory_switch [OF v, of Terminal_2]
      kernel_memory_switch [OF v, of Terminal_3]
    by (simp add: keyboard_handler_def keyboard_input_def c b switch_to_terminal_def)
  moreover have "kernel_memory (rtc_handler s) = kernel_memory s"
    by (simp add: rtc_handler_def count_down_def outb_def Let_def)
  ultimately show ?thesis using assms(2) by (auto simp: device_handlers_def)
qed

lemma kernel_memory_spin:
  assumes "spin_until c es s = Some s'" and "set es \<subseteq> device_handlers" and "keyboard_ok s"
  shows "kernel_memory s' = kernel_memory s"
proof -
  have "keyboard_ok s' \<and> kernel_memory s' = kernel_memory s"
    by (rule spin_invariant [OF assms(1,2)]) (auto simp: keyboard_ok_devices kernel_memory_devices assms(3))
  then show ?thesis by blast
qed

lemma kernel_memory_read_loop:
  assumes "keyboard_ok s" and "user_range buf n"
  shows "kernel_memory (snd (terminal_read_loop i n buf s)) = kernel_memory s"
  using assms
proof (induction i n buf s rule: terminal_read_loop.induct)
  case (1 index n buf s)
  have wf: "wf_pages (pages s)" using "1.prems"(1) by (simp add: keyboard_ok_def video_ok_def)
  have st: "kernel_memory (vstore a b s) = kernel_memory s" if "user_addr a" for a b
    by (rule kernel_memory_vstore [OF wf user_addr_dir [OF that]])
  have ok: "keyboard_ok (vstore a b s)" for a b using "1.prems"(1) keyboard_ok_view [of "vstore a b s" s] by simp
  have last: "user_addr (buf + (of_nat n - 1))"
  proof (cases n)
    case 0
    have "buf \<noteq> 0" using "1.prems"(2) by (auto simp: user_range_def)
    then show ?thesis
      using "1.prems"(2) 0 unat_diff_1 [of buf] by (auto simp: user_range_def user_addr_def word_le_nat_alt word_less_nat_alt)
  next
    case (Suc m)
    then show ?thesis using user_range_addr [OF "1.prems"(2), of m] by simp
  qed
  show ?case
  proof (cases "index < n")
    case True
    then have "user_addr (buf + of_nat index)" by (rule user_range_addr [OF "1.prems"(2)])
    then show ?thesis
      using True 1 st ok by (subst terminal_read_loop.simps) (simp add: line_done_def Let_def)
  next
    case False
    then show ?thesis
      using st [OF last] by (subst terminal_read_loop.simps) (simp add: line_done_def)
  qed
qed

lemma kernel_memory_terminal_read:
  assumes "terminal_read es buf n s = Some (v, s')" and "set es \<subseteq> device_handlers" and "keyboard_ok s"
    and "user_range buf (unat n)"
  shows "kernel_memory s' = kernel_memory s"
proof (cases "buf = 0 \<or> n = 0")
  case True
  then show ?thesis using assms(1) by (auto simp: terminal_read_def split: if_splits)
next
  case False
  then obtain s1 m where sp: "spin_until (\<lambda>s. keyboard_buffer_enable (terminals s (active_terminal s)) \<noteq> 1) es
      (upd_terminal (active_terminal s) (\<lambda>t. t\<lparr>keyboard_buffer_enable := 1\<rparr>) s) = Some s1"
    and l: "terminal_read_loop 0 (unat m) buf s1 = (v, s')" and m: "m \<le> n"
    using assms(1) by (auto simp: terminal_read_def Let_def split: option.splits if_splits)
  let ?e = "upd_terminal (active_terminal s) (\<lambda>t. t\<lparr>keyboard_buffer_enable := 1\<rparr>) s"
  have "screen_view ?e = screen_view s" by (rule screen_view_upd_terminal) (simp add: term_core_def)
  then have e: "keyboard_ok ?e" using keyboard_ok_view assms(3) by blast
  have s1: "keyboard_ok s1" "kernel_memory s1 = kernel_memory s"
    using keyboard_ok_spin [OF sp assms(2) e] kernel_memory_spin [OF sp assms(2) e] by simp_all
  have "user_range buf (unat m)" using assms(4) m by (simp add: user_range_def word_le_nat_alt)
  from kernel_memory_read_loop [OF s1(1) this, of 0] show ?thesis using l s1(2) by simp
qed

lemma length_read_data: "length (snd (read_data M bbp i off buf n)) \<le> unat n"
proof (cases "valid_inode M bbp i \<and> buf \<noteq> 0")
  case True
  then show ?thesis using read_data_valid [of M bbp i buf off n] by (simp add: Let_def)
next
  case False
  then show ?thesis using read_data_invalid [of M bbp i buf off n] by simp
qed

lemma length_file_read: "file_read M bbp i buf n pos = (v, bs, pos') \<Longrightarrow> length bs \<le> unat n"
  using length_read_data [of M bbp i pos buf n]
  by (auto simp: file_read_def Let_def split: if_splits prod.splits)

lemma length_dir_read: "dir_read M bbp i buf n pos = (v, bs, pos') \<Longrightarrow> length bs \<le> unat n"
  by (auto simp: dir_read_def Let_def split: if_splits)

lemma user_range_le: "user_range a n \<Longrightarrow> m \<le> n \<Longrightarrow> user_range a m"
  by (simp add: user_range_def)

lemma kernel_memory_read:
  assumes r: "file_descriptor_table_read es pid fd buf n s = Some (v, s')" and es: "set es \<subseteq> device_handlers"
    and ok: "keyboard_ok s" and u: "user_range buf (unat n)"
  shows "kernel_memory s' = kernel_memory s"
proof -
  have wf: "wf_pages (pages s)" using ok by (simp add: keyboard_ok_def video_ok_def)
  have st: "kernel_memory (vstore_bytes buf bs s) = kernel_memory s" if "length bs \<le> unat n" for bs
    by (rule kernel_memory_vstore_bytes [OF wf user_range_le [OF u that]])
  have c: "kernel_memory s' = kernel_memory s" if q: "rtc_read es s = Some (v, s')"
  proof -
    have "screen_view (rtc_read_start s) = screen_view s"
      unfolding rtc_read_start_def by (rule screen_view_upd_terminal) (simp add: term_core_def)
    then have "keyboard_ok (rtc_read_start s)" using keyboard_ok_view ok by blast
    moreover have "spin_until (\<lambda>s. virtual_count (terminals s (active_terminal s)) = 0) es (rtc_read_start s) = Some s'"
      using q by (auto simp: rtc_read_def split: option.splits)
    ultimately have "kernel_memory s' = kernel_memory (rtc_read_start s)" using kernel_memory_spin [OF _ es] by blast
    then show ?thesis by (simp add: rtc_read_start_def)
  qed
  show ?thesis
    using r kernel_memory_terminal_read [OF _ es ok u] c st length_file_read length_dir_read
    by (auto simp: file_descriptor_table_read_def Let_def split: if_splits file_ops_ptr.splits prod.splits)
qed

lemma kernel_memory_write:
  assumes "keyboard_ok s"
  shows "kernel_memory (snd (file_descriptor_table_write pid fd buf n s)) = kernel_memory s"
proof -
  have t: "kernel_memory (snd (terminal_write buf n s)) = kernel_memory s"
    using assms kernel_memory_fold [of "\<lambda>index s. putc (vload s (buf + of_nat index)) s"]
    by (simp add: terminal_write_def keyboard_ok_putc kernel_memory_putc)
  have "kernel_memory (snd (rtc_write_loop i rate s)) = kernel_memory s" for i rate
  proof (induction i rate s rule: rtc_write_loop.induct)
    case (1 i rate s)
    then show ?case by (subst rtc_write_loop.simps) (simp add: Let_def)
  qed
  then have "kernel_memory (snd (rtc_write buf s)) = kernel_memory s" by (simp add: rtc_write_def Let_def)
  then show ?thesis using t by (simp add: file_descriptor_table_write_def Let_def split: file_ops_ptr.splits)
qed

section \<open>The steps of the kernel\<close>

lemma kernel_memory_boot_enter:
  "boot_enter t pid s = Enter_user pc sp s' \<Longrightarrow> kernel_memory s' = kernel_memory s"
  by (auto simp: boot_enter_def context_switch_execute_def Let_def)

lemma kernel_memory_schedule:
  assumes "after (schedule esp ebp s) = Some s'"
  shows "kernel_memory s' = kernel_memory s"
proof -
  have b: "kernel_memory (tick_base esp ebp s) = kernel_memory s" by (simp add: tick_base_def save_stack_def Let_def)
  show ?thesis
  proof (cases "current_process_id (terminals s (next_terminal (active_terminal s))) = 0")
    case True
    let ?t = "next_terminal (active_terminal s)"
    obtain pc sp where e: "boot_enter ?t (root_pid ?t) (tick_base esp ebp s) = Enter_user pc sp s'"
      using assms True boot_enter_view [of ?t "root_pid ?t" "tick_base esp ebp s"]
      by (auto simp: schedule_split Let_def after_def)
    show ?thesis using kernel_memory_boot_enter [OF e] b by simp
  next
    case False
    then show ?thesis using assms b by (auto simp: schedule_split Let_def after_def)
  qed
qed

lemma kernel_memory_load_program:
  assumes "wf_pages (pages s)"
  shows "kernel_memory (load_program fd s) = kernel_memory s"
proof -
  have "unat (MAX_FILE_SIZE) = 258048" by (simp add: MAX_FILE_SIZE_def)
  then have "length (snd (read_data (view s) (boot_block_pointer s) fd 0 VIRTUAL_ADDRESS_PROGRAM_START MAX_FILE_SIZE)) \<le> 258048"
    using length_read_data [of "view s" "boot_block_pointer s" fd 0 VIRTUAL_ADDRESS_PROGRAM_START MAX_FILE_SIZE] by simp
  then show ?thesis
    unfolding load_program_def
    by (intro kernel_memory_vstore_bytes [OF assms]) (simp add: user_range_def VIRTUAL_ADDRESS_PROGRAM_START_def)
qed

lemma kernel_memory_launched:
  assumes "keyboard_ok s" and "pid \<le> 6"
  shows "kernel_memory (launched fd pid esp ebp s) = kernel_memory s"
proof -
  let ?u = "s\<lparr>process_count := process_count s + 1, processes := snd (pool_acquire (processes s))\<rparr>"
  let ?v = "upd_terminal (active_terminal s) (\<lambda>t. t\<lparr>current_process_id := pid\<rparr>) (upd_pcb pid (new_pcb pid ?u) ?u)"
  let ?w = "paging_video_memory (paging_execute pid ?v)"
  have "screen_view ?v = screen_view (s\<lparr>active_terminal := active_terminal s\<rparr>)"
    by (subst screen_view_upd_terminal) (simp_all add: term_core_def)
  then have "keyboard_ok ?w" by (rule keyboard_ok_remap [OF assms])
  then have "kernel_memory (load_program fd ?w) = kernel_memory ?w"
    by (intro kernel_memory_load_program) (simp add: keyboard_ok_def video_ok_def)
  then show ?thesis by (simp add: launched_def Let_def)
qed

text \<open>
  A process hands these buffers to \<open>read\<close>, \<open>getargs\<close> and \<open>vidmap\<close>; the kernel writes to them without a check
  that they belong to the process.
\<close>

definition user_buffers :: "u32 \<Rightarrow> u32 \<Rightarrow> u32 \<Rightarrow> u32 \<Rightarrow> bool" where
  "user_buffers eax ebx ecx edx \<longleftrightarrow>
     (eax = 3 \<longrightarrow> user_range ecx (unat edx)) \<and> (eax = 7 \<longrightarrow> user_range ebx (unat ecx + 1)) \<and> (eax = 8 \<longrightarrow> user_range ebx 4)"

text \<open>
  The steps: a timer tick, with the stack pointers \<open>esp\<close> and \<open>ebp\<close> of the code it interrupts; a keyboard or
  clock interrupt; a system call of the running process, during which such interrupts may happen; a store
  of user code. Calls that spin without end or run into undefined behaviour make no step.
\<close>

inductive kernel_step :: "kstate \<Rightarrow> kstate \<Rightarrow> bool" where
  timer: "after (pit_handler esp ebp s) = Some s' \<Longrightarrow> kernel_step s s'"
| device: "h \<in> device_handlers \<Longrightarrow> kernel_step s (h s)"
| call: "active_pid s \<noteq> 0 \<Longrightarrow> set es \<subseteq> device_handlers \<Longrightarrow> user_buffers eax ebx ecx edx
    \<Longrightarrow> after (syscall_dispatch es esp ebp junk eax ebx ecx edx s) = Some s' \<Longrightarrow> kernel_step s s'"
| user_store: "active_pid s \<noteq> 0 \<Longrightarrow> xlate True (pages s) va = Some (f, off)
    \<Longrightarrow> kernel_step s (s\<lparr>pmem := (pmem s)(f := (pmem s f)(off := b))\<rparr>)"

text \<open>What every step does: it keeps the invariant and is matched by an abstract step.\<close>

lemma kernel_step_ok:
  assumes "kernel_step s s'" and "kernel_ok s"
  shows "keyboard_ok s' \<and> simulates s s'"
  using assms
proof cases
  case (timer esp ebp)
  then show ?thesis using pit_handler_ok [OF assms(2)] by blast
next
  case (device h)
  have "keyboard_ok s" using assms(2) by (simp add: kernel_ok_def)
  moreover have "proc_view (h s) = proc_view s" "pcbs (h s) = pcbs s" using device(2) by (auto simp: device_handlers_def)
  ultimately show ?thesis using device keyboard_ok_devices simulates_quiet by blast
next
  case (call es eax ebx ecx edx esp ebp junk)
  then show ?thesis using syscall_dispatch_ok [OF assms(2)] by blast
next
  case (user_store va f off b)
  have "keyboard_ok s" using assms(2) by (simp add: kernel_ok_def)
  then show ?thesis using user_store(1) keyboard_ok_view [of s' s] by (auto intro!: simulates_quiet)
qed

interpretation kernel: step_invariant kernel_step kernel_ok
  by unfold_locales (use kernel_step_ok kernel_okI in blast)

section \<open>The image is kept\<close>

text \<open>Neither the file system pointer nor the kernel's memory changes.\<close>

definition image_kept :: "kstate \<Rightarrow> kstate \<Rightarrow> bool" where
  "image_kept s s' \<longleftrightarrow> boot_block_pointer s' = boot_block_pointer s \<and> kernel_memory s' = kernel_memory s"

lemma image_kept_refl: "image_kept s s"
  by (simp add: image_kept_def)

lemma image_kept_trans: "image_kept s s' \<Longrightarrow> image_kept s' s'' \<Longrightarrow> image_kept s s''"
  by (simp add: image_kept_def)

lemma bbp_process [simp]:
  "boot_block_pointer (save_stack p e b s) = boot_block_pointer s"
  "boot_block_pointer (activate t p s) = boot_block_pointer s"
  "boot_block_pointer (tick_base e b s) = boot_block_pointer s"
  "boot_block_pointer (launched fd p e b s) = boot_block_pointer s"
  by (simp_all add: save_stack_def activate_def tick_base_def launched_def Let_def)

lemma image_kept_pit:
  assumes "after (pit_handler esp ebp s) = Some s'"
  shows "image_kept s s'"
proof -
  let ?s = "send_eoi 0 (cli s)"
  obtain u where u: "after (schedule esp ebp ?s) = Some u" "s' = u \<or> s' = sti u"
    using assms by (auto simp: pit_handler_def after_def split: outcome.splits)
  have "boot_block_pointer u = boot_block_pointer ?s"
    using u(1) by (auto simp: schedule_split boot_enter_def context_switch_execute_def Let_def after_def split: if_splits)
  then show ?thesis
    using kernel_memory_schedule [OF u(1)] u(2) by (auto simp: image_kept_def)
qed

lemma image_kept_halt:
  assumes "kernel_ok s" and "after (syscall_halt status s) = Some s'"
  shows "image_kept s s'"
proof (cases "active_pid s \<in> {1, 2, 3}")
  case True
  have ko: "keyboard_ok s" using assms(1) by (simp add: kernel_ok_def)
  obtain t m where e: "syscall_halt status s = boot_enter t (root_pid t) (kprint m s)"
    using True by (auto simp: syscall_halt_def boot_enters)
  obtain pc sp where b: "boot_enter t (root_pid t) (kprint m s) = Enter_user pc sp s'"
    using assms(2) e boot_enter_view [of t "root_pid t" "kprint m s"] by (auto simp: after_def)
  have "boot_block_pointer s' = boot_block_pointer s"
    using b by (auto simp: boot_enter_def context_switch_execute_def Let_def)
  then show ?thesis
    using kernel_memory_boot_enter [OF b] kernel_memory_kprint [OF ko] by (simp add: image_kept_def)
next
  case False
  have c: "kernel_memory (close_all p u) = kernel_memory u \<and> boot_block_pointer (close_all p u) = boot_block_pointer u" for p u
  proof -
    have "kernel_memory (fold (\<lambda>i. upd_pcb p (g i)) is u) = kernel_memory u
        \<and> boot_block_pointer (fold (\<lambda>i. upd_pcb p (g i)) is u) = boot_block_pointer u"
      for g :: "nat \<Rightarrow> pcb_t \<Rightarrow> pcb_t" and "is"
      by (induction "is" arbitrary: u) simp_all
    from this [of "\<lambda>i p. snd (file_descriptor_table_close (int i) p)"] show ?thesis unfolding close_all_def by blast
  qed
  have "s' = halted s" using assms(2) by (simp add: syscall_halt_child [OF False] after_def)
  then show ?thesis using c by (simp add: image_kept_def halted_def activate_def Let_def)
qed

lemma image_kept_execute:
  assumes "kernel_ok s" and "active_pid s \<noteq> 0" and x: "after (syscall_execute command esp ebp junk s) = Some s'"
  shows "image_kept s s'"
proof -
  have ko: "keyboard_ok s" using assms(1) by (simp add: kernel_ok_def)
  have ke: "keyboard_ok (s\<lparr>argument_exist := y\<rparr>)" for y using keyboard_ok_view [of "s\<lparr>argument_exist := y\<rparr>" s] ko by simp
  have p: "image_kept s (kprint m s)" "image_kept s (kprint m (s\<lparr>argument_exist := y\<rparr>))" for m y
    using kernel_memory_kprint [OF ko] kernel_memory_kprint [OF ke] by (simp_all add: image_kept_def)
  have q: "image_kept s (s\<lparr>argument_exist := y, arg_buf := b\<rparr>)" "image_kept s (s\<lparr>argument_exist := y\<rparr>)" for y b
    by (simp_all add: image_kept_def)
  have l: "image_kept s s'"
    if n: "process_count s \<noteq> 6" and st: "after (start_process fd esp ebp (s\<lparr>argument_exist := y, arg_buf := b\<rparr>)) = Some s'" for fd y b
  proof -
    let ?u = "s\<lparr>argument_exist := y, arg_buf := b\<rparr>"
    have "keyboard_ok ?u" using keyboard_ok_view [of ?u s] ko by simp
    obtain a where a: "refines a s" using assms(1) by (auto simp: kernel_ok_def)
    have r: "refines a ?u" using a refines_proc_view [of ?u s] by simp
    have "sp_started a (sp_active a)" using assms(2) a running_zero [of a] by (auto simp: refines_def)
    from start_process_refines [OF r this, of fd esp ebp] n obtain pid
      where pid: "pid \<in> {4, 5, 6} - set (sp_all a)" and e: "start_process fd esp ebp ?u = context_switch_execute (launched fd pid esp ebp ?u)"
      by auto
    have "pid \<le> 6" using pid by auto
    then have "kernel_memory (launched fd pid esp ebp ?u) = kernel_memory ?u" by (rule kernel_memory_launched [OF \<open>keyboard_ok ?u\<close>])
    moreover have "s' = sti (launched fd pid esp ebp ?u)" using st e by (simp add: context_switch_execute_def after_def)
    ultimately show ?thesis by (simp add: image_kept_def)
  qed
  show ?thesis using syscall_execute_cases [OF x] p q l by auto
qed

lemma image_kept_call:
  assumes "kernel_ok s" and "active_pid s \<noteq> 0" and es: "set es \<subseteq> device_handlers" and ub: "user_buffers eax ebx ecx edx"
    and d: "after (syscall_dispatch es esp ebp junk eax ebx ecx edx s) = Some s'"
  shows "image_kept s s'"
proof -
  have ok: "keyboard_ok s" and wf: "wf_pages (pages s)" using assms(1) by (simp_all add: kernel_ok_def keyboard_ok_def video_ok_def)
  have rd: "image_kept s s'" if r: "after (syscall_read es ebx ecx edx s) = Some s'" and u: "user_range ecx (unat edx)"
  proof -
    obtain v where q: "file_descriptor_table_read es (active_pid s) (sint ebx) ecx edx s = Some (v, s')"
      using r by (auto simp: syscall_read_def as_outcome_def after_def split: option.splits)
    have "boot_block_pointer s' = boot_block_pointer s" by (rule image_at.obs_read [OF q es]) simp
    then show ?thesis using kernel_memory_read [OF q es ok u] by (simp add: image_kept_def)
  qed
  have wr: "image_kept s s'" if w: "after (syscall_write ebx ecx edx s) = Some s'"
  proof -
    have "s' = snd (file_descriptor_table_write (active_pid s) (sint ebx) ecx edx s)"
      using w by (auto simp: syscall_write_def Let_def after_def split: prod.splits)
    then show ?thesis using kernel_memory_write [OF ok] image_at.obs_write by (simp add: image_kept_def)
  qed
  have op: "image_kept s s'" if "after (syscall_open ebx s) = Some s'"
    using that by (auto simp: syscall_open_def Let_def after_def image_kept_def split: option.splits)
  have cl: "image_kept s s'" if "after (syscall_close ebx s) = Some s'"
    using that by (auto simp: syscall_close_def Let_def after_def image_kept_def split: prod.splits)
  have ga: "image_kept s s'" if g: "after (syscall_getargs ebx ecx s) = Some s'" and u: "user_range ebx (unat ecx + 1)"
  proof (cases "s' = s")
    case False
    let ?str = "takeWhile (\<lambda>b. b \<noteq> 0) (pcb_arg_buf (pcb_of (active_pid s) s))"
    have s': "s' = vstore_bytes ebx (?str @ [0]) s" and len: "int (length ?str) \<le> sint ecx"
      using g False by (auto simp: syscall_getargs_def Let_def after_def split: if_splits)
    have "sint ecx \<le> uint ecx" by (rule ord_eq_le_trans [OF sint_cases]) simp
    then have "int (length ?str) \<le> uint ecx" using len by linarith
    then have "length ?str \<le> unat ecx" by (simp only: uint_nat of_nat_le_iff)
    then have "kernel_memory s' = kernel_memory s"
      unfolding s' by (intro kernel_memory_vstore_bytes [OF wf] user_range_le [OF u]) simp
    then show ?thesis by (simp add: image_kept_def s')
  qed (simp add: image_kept_refl)
  have vm: "image_kept s s'" if g: "after (syscall_vidmap ebx s) = Some s'" and u: "user_range ebx 4"
  proof (cases "s' = s")
    case False
    let ?u = "syscall_enable_vidmap_paging (upd_pcb (active_pid s) (\<lambda>p. p\<lparr>vidmap_flag := 1\<rparr>) s)"
    have s': "s' = vstore_bytes ebx (word_bytes vidmap_address) ?u"
      using g False by (auto simp: syscall_vidmap_def Let_def after_def split: if_splits)
    have "wf_pages (pages ?u)" using wf_enable_vidmap [OF wf] by (simp add: syscall_enable_vidmap_paging_def)
    then have "kernel_memory s' = kernel_memory ?u"
      unfolding s' by (rule kernel_memory_vstore_bytes) (use u in \<open>simp add: word_bytes_def user_range_def\<close>)
    then show ?thesis by (simp add: image_kept_def s')
  qed (simp add: image_kept_refl)
  have no: "image_kept s s'" if "after (Return v s) = Some s'" for v
    using that by (simp add: after_def image_kept_refl)
  show ?thesis
    using d ub rd wr op cl ga vm no image_kept_halt [OF assms(1)] image_kept_execute [OF assms(1,2)]
    unfolding syscall_dispatch_def syscall_set_handler_def syscall_sigreturn_def user_buffers_def
    by (simp split: if_splits)
qed

lemma kernel_step_image:
  assumes "kernel_step s s'" and "kernel_ok s"
  shows "image_kept s s'"
  using assms
proof cases
  case (timer esp ebp)
  then show ?thesis using image_kept_pit by blast
next
  case (device h)
  have "keyboard_ok s" using assms(2) by (simp add: kernel_ok_def)
  then show ?thesis using device kernel_memory_devices [of s h] by (auto simp: image_kept_def device_handlers_def)
next
  case (call es eax ebx ecx edx esp ebp junk)
  then show ?thesis using image_kept_call [OF assms(2)] by blast
next
  case (user_store va f off b)
  have wf: "wf_pages (pages s)" using assms(2) by (simp add: kernel_ok_def keyboard_ok_def video_ok_def)
  have "f \<in> video_frames \<or> (\<exists>p\<le>6. f = 0x800 + p * 0x400 + (frame_of va AND 0x003FF))"
    using xlate_user [OF wf user_store(3)] by blast
  then have "\<not> kernel_frame f" using video_not_kernel program_not_kernel by blast
  then have "kernel_memory s' = kernel_memory s" by (intro kernel_memoryI) (auto simp: user_store(1))
  then show ?thesis by (simp add: image_kept_def user_store(1))
qed

interpretation image: step_relation kernel_step kernel_ok image_kept
  by unfold_locales (use image_kept_refl image_kept_trans kernel_step_image in blast)+

end
