(* ===== verification/Kernel_Isolation.thy ===== *)
theory Kernel_Isolation
  imports Kernel_Memory
begin

text \<open>
  The running process sees its own program page: in every state in which a process runs, the entry of the
  program page maps the 4 MB of its number. With the invariant of the page tables this confines every access
  of user code to the memory of the process that makes it and the video pages, in all reachable states.
\<close>

section \<open>The program page of the running process\<close>

definition program_view :: "kstate \<Rightarrow> u32 \<times> pde" where
  "program_view s = (active_pid s, page_dir (pages s) (dir_index VIRTUAL_ADDRESS_PROGRAM_START))"

interpretation program: kernel_view program_view
  by unfold_locales (simp_all add: program_view_def)

definition program_mapped :: "kstate \<Rightarrow> bool" where
  "program_mapped s \<longleftrightarrow> (active_pid s \<noteq> 0
     \<longrightarrow> page_dir (pages s) (dir_index VIRTUAL_ADDRESS_PROGRAM_START) = user_pde (0x00400 + 0x00400 + active_pid s * 0x00400))"

lemma program_mapped_view: "program_view s' = program_view s \<Longrightarrow> program_mapped s' = program_mapped s"
  by (simp add: program_mapped_def program_view_def)

lemma program_view_fields [simp]:
  "program_view (s\<lparr>tss_esp0 := w\<rparr>) = program_view s" "program_view (s\<lparr>arg_buf := bs\<rparr>) = program_view s"
  "program_view (s\<lparr>argument_exist := c\<rparr>) = program_view s" "program_view (upd_pcb p f s) = program_view s"
  by (simp_all add: program_view_def)

lemma program_mapped_execute:
  assumes "program_view s' = program_view (paging_execute (active_pid s') u)"
  shows "program_mapped s'"
  using assms by (simp add: program_mapped_def program_view_def paging_execute_def set_user_page_def)

lemma program_mapped_boot_enter:
  assumes "boot_enter t pid s = Enter_user pc sp s'"
  shows "program_mapped s'"
proof -
  let ?u = "upd_terminal t (\<lambda>T. T\<lparr>current_process_id := pid\<rparr>) (s\<lparr>active_terminal := t, active_pid := pid\<rparr>)"
  have "s' = sti ((paging_video_memory (paging_execute pid ?u))\<lparr>tss_esp0 := kernel_stack_top pid\<rparr>)"
    using assms by (simp add: boot_enter_def context_switch_execute_def paging_execute_def Let_def)
  then have "program_view s' = program_view (paging_execute pid ?u)" by simp
  moreover from this have "active_pid s' = pid" by (simp add: program_view_def paging_execute_def)
  ultimately show ?thesis using program_mapped_execute [of s' ?u] by simp
qed

lemma program_mapped_pit:
  assumes "after (pit_handler esp ebp s) = Some s'"
  shows "program_mapped s'"
proof -
  let ?s = "send_eoi 0 (cli s)"
  obtain u where u: "after (schedule esp ebp ?s) = Some u" "s' = u \<or> s' = sti u"
    using assms by (auto simp: pit_handler_def after_def split: outcome.splits)
  let ?t = "next_terminal (active_terminal ?s)" and ?b = "tick_base esp ebp ?s"
  let ?p = "current_process_id (terminals ?s ?t)"
  have "program_mapped u"
  proof (cases "?p = 0")
    case True
    obtain pc sp where "boot_enter ?t (root_pid ?t) ?b = Enter_user pc sp u"
      using u(1) True boot_enter_view [of ?t "root_pid ?t" ?b] unfolding schedule_split Let_def after_def by auto
    then show ?thesis by (rule program_mapped_boot_enter)
  next
    case False
    let ?w = "?b\<lparr>tss_esp0 := kernel_stack_top ?p\<rparr>"
    have e: "u = sti (paging_video_memory (paging_execute ?p ?w))"
      using u(1) False unfolding schedule_split Let_def after_def by simp
    have "active_pid ?w = ?p" by (simp add: tick_base_def Let_def)
    then have "active_pid u = ?p" unfolding e by (simp add: sti_def paging_execute_def)
    moreover have "program_view u = program_view (paging_execute ?p ?w)" unfolding e by simp
    ultimately show ?thesis using program_mapped_execute [of u ?w] by simp
  qed
  then show ?thesis using u(2) program_mapped_view [of "sti u" u] by auto
qed

lemma program_mapped_halt:
  assumes "after (syscall_halt status s) = Some s'"
  shows "program_mapped s'"
proof (cases "active_pid s \<in> {1, 2, 3}")
  case True
  obtain t m where e: "syscall_halt status s = boot_enter t (root_pid t) (kprint m s)"
    using True by (auto simp: syscall_halt_def boot_enters)
  obtain pc sp where "boot_enter t (root_pid t) (kprint m s) = Enter_user pc sp s'"
    using assms e boot_enter_view [of t "root_pid t" "kprint m s"] by (auto simp: after_def)
  then show ?thesis by (rule program_mapped_boot_enter)
next
  case False
  have s': "s' = halted s" using assms by (simp add: syscall_halt_child [OF False] after_def)
  then obtain u where "program_view s' = program_view (paging_execute (active_pid s') u)"
    using halted_frame(2) [of s] by (auto simp: halted_def Let_def)
  then show ?thesis by (rule program_mapped_execute)
qed

lemma program_mapped_launched: "program_mapped (launched fd pid esp ebp s)"
proof -
  let ?u = "s\<lparr>process_count := process_count s + 1, processes := snd (pool_acquire (processes s))\<rparr>"
  let ?v = "upd_terminal (active_terminal s) (\<lambda>t. t\<lparr>current_process_id := pid\<rparr>) (upd_pcb pid (new_pcb pid ?u) ?u)"
  let ?w = "load_program fd (paging_video_memory (paging_execute pid ?v))"
  have "program_view ?w = program_view (paging_execute pid ?v)" by simp
  then have "page_dir (pages ?w) (dir_index VIRTUAL_ADDRESS_PROGRAM_START) = user_pde (0x00400 + 0x00400 + pid * 0x00400)"
    by (simp add: program_view_def paging_execute_def set_user_page_def)
  then show ?thesis by (simp add: launched_def Let_def program_mapped_def)
qed

lemma program_mapped_execute_call:
  assumes "kernel_ok s" and "active_pid s \<noteq> 0" and m: "program_mapped s"
    and x: "after (syscall_execute command esp ebp junk s) = Some s'"
  shows "program_mapped s'"
proof -
  have v: "program_mapped u" if "program_view u = program_view s" for u using program_mapped_view [OF that] m by simp
  have l: "program_mapped s'"
    if n: "process_count s \<noteq> 6" and st: "after (start_process fd esp ebp (s\<lparr>argument_exist := y, arg_buf := b\<rparr>)) = Some s'" for fd y b
  proof -
    let ?u = "s\<lparr>argument_exist := y, arg_buf := b\<rparr>"
    obtain a where a: "refines a s" using assms(1) by (auto simp: kernel_ok_def)
    have r: "refines a ?u" using a refines_proc_view [of ?u s] by simp
    have "sp_started a (sp_active a)" using assms(2) a running_zero [of a] by (auto simp: refines_def)
    from start_process_refines [OF r this, of fd esp ebp] n obtain pid
      where e: "start_process fd esp ebp ?u = context_switch_execute (launched fd pid esp ebp ?u)" by auto
    have "s' = sti (launched fd pid esp ebp ?u)" using st e by (simp add: context_switch_execute_def after_def)
    then show ?thesis using program_mapped_launched program_mapped_view [of s' "launched fd pid esp ebp ?u"] by simp
  qed
  show ?thesis using syscall_execute_cases [OF x] v l by auto
qed

lemma program_mapped_call:
  assumes "kernel_ok s" and "active_pid s \<noteq> 0" and m: "program_mapped s" and es: "set es \<subseteq> device_handlers"
    and d: "after (syscall_dispatch es esp ebp junk eax ebx ecx edx s) = Some s'"
  shows "program_mapped s'"
proof -
  have v: "program_mapped u" if "program_view u = program_view s" for u using program_mapped_view [OF that] m by simp
  have rd: "program_mapped s'" if r: "after (syscall_read es ebx ecx edx s) = Some s'"
  proof -
    obtain w where q: "file_descriptor_table_read es (active_pid s) (sint ebx) ecx edx s = Some (w, s')"
      using r by (auto simp: syscall_read_def as_outcome_def after_def split: option.splits)
    show ?thesis by (rule v, rule program.obs_read [OF q es]) simp
  qed
  have wr: "program_mapped s'" if w: "after (syscall_write ebx ecx edx s) = Some s'"
  proof -
    have "s' = snd (file_descriptor_table_write (active_pid s) (sint ebx) ecx edx s)"
      using w by (auto simp: syscall_write_def Let_def after_def split: prod.splits)
    then show ?thesis using v program.obs_write by simp
  qed
  have op: "program_mapped s'" if "after (syscall_open ebx s) = Some s'"
    using that v by (auto simp: syscall_open_def Let_def after_def split: option.splits)
  have cl: "program_mapped s'" if "after (syscall_close ebx s) = Some s'"
    using that v by (auto simp: syscall_close_def Let_def after_def split: prod.splits)
  have ga: "program_mapped s'" if "after (syscall_getargs ebx ecx s) = Some s'"
    using that v by (auto simp: syscall_getargs_def Let_def after_def split: if_splits)
  have vm: "program_mapped s'" if "after (syscall_vidmap ebx s) = Some s'"
    using that v by (auto simp: syscall_vidmap_def Let_def after_def split: if_splits)
  have no: "program_mapped s'" if "after (Return w s) = Some s'" for w
    using that m by (simp add: after_def)
  show ?thesis
    using d rd wr op cl ga vm no program_mapped_halt program_mapped_execute_call [OF assms(1-3)]
    unfolding syscall_dispatch_def syscall_set_handler_def syscall_sigreturn_def
    by (simp split: if_splits)
qed

lemma kernel_step_mapped:
  assumes "kernel_step s s'" and "kernel_ok s" and "program_mapped s"
  shows "program_mapped s'"
  using assms(1)
proof cases
  case (timer esp ebp)
  then show ?thesis using program_mapped_pit by blast
next
  case (device h)
  then show ?thesis using assms(3) program_mapped_view [of s' s] by (auto simp: device_handlers_def)
next
  case (call es eax ebx ecx edx esp ebp junk)
  then show ?thesis using program_mapped_call [OF assms(2) _ assms(3)] by blast
next
  case (user_store va f off b)
  then show ?thesis using assms(3) program_mapped_view [of s' s] by simp
qed

interpretation isolated: step_invariant kernel_step "\<lambda>s. kernel_ok s \<and> program_mapped s"
  by unfold_locales (use kernel.trans_inv kernel_step_mapped in blast)

interpretation processes_of: simulation kernel_step kernel_ok spec_step "\<lambda>a s. refines a s \<and> tables_ok a s"
  by unfold_locales (use kernel_step_ok in \<open>unfold simulates_def, blast\<close>)

section \<open>A concrete execution\<close>

lemma sample_booted_ok: "kernel_ok sample_booted"
proof -
  have "screen_view sample_booted = screen_view ready_state" by (simp add: sample_booted_def screen_view_def)
  then have "keyboard_ok sample_booted" using keyboard_ok_view ready_state_ok by blast
  moreover have "fd_table_ok (pcb_of p sample_booted)" for p
    using table_init_ok [of empty_pcb] fd_table_ok_array by (simp add: sample_booted_def pcb_of_def fd_table_ok_def)
  ultimately show ?thesis using sample_booted_refines by (auto simp: kernel_ok_def tables_ok_def)
qed

lemma sample_booted_mapped: "program_mapped sample_booted"
  using sample_booted_refines by (simp add: program_mapped_def refines_def spec_boot_def sp_running_def)

section \<open>What holds in every reachable state\<close>

text \<open>The 4 MB of physical memory that belong to a process.\<close>

definition program_frame :: "u32 \<Rightarrow> 20 word \<Rightarrow> bool" where
  "program_frame pid f \<longleftrightarrow> 0x800 + unat pid * 0x400 \<le> unat f \<and> unat f < 0x800 + (unat pid + 1) * 0x400"

text \<open>What the running process can reach.\<close>

lemma running_access_confined:
  assumes "kernel_ok s'" and "program_mapped s'" and "active_pid s' \<noteq> 0"
    and "xlate True (pages s') va = Some (f, off)"
  shows "(program_frame (active_pid s') f \<or> f \<in> video_frames) \<and> \<not> kernel_frame f
    \<and> (\<forall>q. q \<noteq> active_pid s' \<longrightarrow> \<not> program_frame q f)"
proof -
  have wf: "wf_pages (pages s')" using assms(1) by (simp add: kernel_ok_def keyboard_ok_def video_ok_def)
  have p6: "active_pid s' \<le> 6" using assms(1) running_small by (auto simp: kernel_ok_def refines_def)
  let ?p = "ucast (active_pid s') :: 20 word"
  note up = ucast_pid_frame [OF p6]
  consider "dir_index va = 32" | "f \<in> video_frames" using xlate_user [OF wf assms(4)] by blast
  then show ?thesis
  proof cases
    case 1
    have "page_dir (pages s') 32 = user_pde (0x00400 + 0x00400 + active_pid s' * 0x00400)"
      using assms(2,3) by (simp add: program_mapped_def)
    then have "f = ((0x800 + ?p * 0x400) AND 0xFFC00) OR (frame_of va AND 0x003FF)"
      using assms(4) 1 wf up(1) by (simp add: xlate_def wf_pages_def user_pde_def)
    then have f: "f = 0x800 + ?p * 0x400 + (frame_of va AND 0x003FF)" using pid_frame(1) [OF up(2)] by simp
    then have u: "unat f = 0x800 + unat (active_pid s') * 0x400 + unat (frame_of va AND 0x003FF)"
      using pid_frame(2) [OF up(2), of "frame_of va"] up(3) by simp
    then have b: "0x800 + unat (active_pid s') * 0x400 \<le> unat f" "unat f < 0x800 + (unat (active_pid s') + 1) * 0x400"
      using low_bits_bound [of "frame_of va"] by simp_all
    have "\<not> program_frame q f" if "q \<noteq> active_pid s'" for q
    proof -
      have "unat q \<noteq> unat (active_pid s')" using that by (simp add: word_unat_eq_iff)
      then show ?thesis using b by (cases "unat q < unat (active_pid s')") (auto simp: program_frame_def)
    qed
    moreover have "\<not> kernel_frame f" using program_not_kernel [OF up(2)] f by simp
    ultimately show ?thesis using b by (simp add: program_frame_def)
  next
    case 2
    then have "unat f < 0x800" by (auto simp: video_frames_def)
    then show ?thesis using 2 video_not_kernel by (simp add: program_frame_def)
  qed
qed

lemma reachable_isolation:
  assumes "kernel_step\<^sup>*\<^sup>* s s'" and "kernel_ok s" and "program_mapped s" and "active_pid s' \<noteq> 0"
    and "xlate True (pages s') va = Some (f, off)"
  shows "(program_frame (active_pid s') f \<or> f \<in> video_frames) \<and> \<not> kernel_frame f
    \<and> (\<forall>q. q \<noteq> active_pid s' \<longrightarrow> \<not> program_frame q f)"
  using isolated.reachable_inv [OF assms(1)] assms(2,3) running_access_confined [OF _ _ assms(4,5)] by blast

lemma kernel_refines_processes:
  assumes "kernel_step\<^sup>*\<^sup>* s s'" and "kernel_ok s" and "refines a s \<and> tables_ok a s"
  shows "\<exists>a'. spec_step\<^sup>*\<^sup>* a a' \<and> refines a' s' \<and> tables_ok a' s'"
  using processes_of.reachable_simulated [OF assms] .

text \<open>The file system as the kernel sees it.\<close>

lemma image_kept_view:
  assumes "kernel_ok s" and "kernel_ok s'" and "image_kept s s'"
  shows "boot_block_pointer s' = boot_block_pointer s \<and> kernel_memory s' = kernel_memory s
    \<and> (\<forall>va. dir_index va = 1 \<longrightarrow> view s' va = view s va)"
proof -
  have "view s' va = view s va" if d: "dir_index va = 1" for va
  proof -
    have wf: "wf_pages (pages s)" "wf_pages (pages s')"
      using assms(1,2) by (simp_all add: kernel_ok_def keyboard_ok_def video_ok_def)
    have "kernel_memory s' = kernel_memory s" using assms(3) by (simp add: image_kept_def)
    then show ?thesis by (simp add: view_kernel [OF wf(1) d] view_kernel [OF wf(2) d])
  qed
  then show ?thesis using assms(3) by (simp add: image_kept_def)
qed

lemma image_never_changes:
  assumes "kernel_step\<^sup>*\<^sup>* s s'" and "kernel_ok s"
  shows "boot_block_pointer s' = boot_block_pointer s \<and> kernel_memory s' = kernel_memory s
    \<and> (\<forall>va. dir_index va = 1 \<longrightarrow> view s' va = view s va)"
  by (rule image_kept_view [OF assms(2) kernel.reachable_inv [OF assms] image.reachable_rel [OF assms]])

text \<open>The pool and the counts.\<close>

lemma process_table_ok:
  assumes "kernel_ok s'"
  shows "3 \<le> process_count s' \<and> process_count s' \<le> MAX_NUM_PROCESSES
    \<and> process_count s' + 1 = int (card {i. i < length (processes s') \<and> processes s' ! i \<noteq> 0})
    \<and> length (processes s') = 7 \<and> take 4 (processes s') = [1, 1, 1, 1]
    \<and> processes s' ! unat (active_pid s') = 1 \<and> (\<forall>t. processes s' ! unat (current_process_id (terminals s' t)) = 1)"
proof -
  obtain a where r: "refines a s'" using assms by (auto simp: kernel_ok_def)
  then have ok: "spec_ok a" and pr: "processes s' = pool_of (sp_all a)" and pc: "process_count s' = 3 + int (length (sp_all a))"
    by (simp_all add: refines_def)
  have len: "length (sp_all a) = card (set (sp_all a))" and sub: "set (sp_all a) \<subseteq> {4, 5, 6}"
    using ok by (simp_all add: spec_ok_def distinct_card)
  have used: "processes s' ! unat (sp_running a t) = 1" for t
  proof -
    have "sp_running a t \<in> {0, 1, 2, 3} \<union> set (sp_all a)"
      using hd_chain [of a t] kids_sub_all [of a t] root_pid_cases(1) [of t] by (auto simp: sp_running_def sp_chain_def)
    then show ?thesis using sub by (auto simp: pr pool_of_def)
  qed
  have "card (set (sp_all a)) \<le> card {4, 5, 6 :: u32}" using sub by (intro card_mono) auto
  then have "length (sp_all a) \<le> 3" using len by simp
  moreover have "card {i. i < length (processes s') \<and> processes s' ! i \<noteq> 0} = 4 + length (sp_all a)"
  proof -
    let ?in = "filter (\<lambda>p. p \<in> set (sp_all a)) [4, 5, 6]"
    have "set ?in = {p \<in> {4, 5, 6}. p \<in> set (sp_all a)}" unfolding set_filter by simp
    also have "\<dots> = set (sp_all a)" using sub by blast
    finally have "set ?in = set (sp_all a)" .
    moreover have "distinct ?in" by simp
    ultimately have "length ?in = length (sp_all a)" using len by (metis distinct_card)
    moreover have "length (filter (\<lambda>x. x \<noteq> 0) (pool_of (sp_all a))) = 4 + length ?in" by (simp add: pool_of_def)
    ultimately show ?thesis
      using length_filter_conv_card [of "\<lambda>x. x \<noteq> 0" "pool_of (sp_all a)"] unfolding pr by simp
  qed
  ultimately show ?thesis
    using pc used r by (simp add: pr pool_of_def refines_def MAX_NUM_PROCESSES_def)
qed

lemma process_table_bounds:
  assumes "kernel_step\<^sup>*\<^sup>* s s'" and "kernel_ok s"
  shows "3 \<le> process_count s' \<and> process_count s' \<le> MAX_NUM_PROCESSES
    \<and> process_count s' + 1 = int (card {i. i < length (processes s') \<and> processes s' ! i \<noteq> 0})
    \<and> length (processes s') = 7 \<and> take 4 (processes s') = [1, 1, 1, 1]
    \<and> processes s' ! unat (active_pid s') = 1 \<and> (\<forall>t. processes s' ! unat (current_process_id (terminals s' t)) = 1)"
  by (rule process_table_ok [OF kernel.reachable_inv [OF assms]])

end
