(* ===== verification/Program_Memory.thy ===== *)
theory Program_Memory
  imports Kernel_Isolation
begin

text \<open>
  The memory of the running program as the kernel and the program see it: addresses of the program page are
  mapped, distinct addresses are distinct bytes, and what is stored there is read back.
\<close>

section \<open>Loads and stores in the program page\<close>

definition program_range :: "addr \<Rightarrow> nat \<Rightarrow> bool" where
  "program_range a n \<longleftrightarrow> 0x08000000 < unat a \<and> unat a + n \<le> 0x08400000"

definition program_page :: "kstate \<Rightarrow> bool" where
  "program_page s \<longleftrightarrow> wf_pages (pages s) \<and> (\<exists>p\<le>6. page_dir (pages s) 32 = user_pde (0x00400 + 0x00400 + p * 0x00400))"

lemma program_range_dir: "program_range a n \<Longrightarrow> k < n \<Longrightarrow> dir_index (a + of_nat k) = 32"
proof -
  assume r: "program_range a n" and k: "k < n"
  then have "unat (a + of_nat k) = unat a + k"
    by (simp add: program_range_def unat_word_ariths unat_of_nat)
  then have "unat (drop_bit 22 (a + of_nat k)) = 32"
    using r k by (auto simp: unat_drop_bit_div program_range_def intro!: div_nat_eqI)
  then have "drop_bit 22 (a + of_nat k) = 32" by (simp add: word_unat_eq_iff)
  then show ?thesis by (simp add: dir_index_def)
qed

lemma address_parts:
  assumes "dir_index a = dir_index b" and "frame_of a AND 0x003FF = frame_of b AND 0x003FF"
    and "(ucast a :: 12 word) = ucast b"
  shows "a = b"
proof (rule bit_word_eqI)
  fix n
  assume n: "n < LENGTH(32)"
  have m: "(0x3FF :: 20 word) = mask 10" by (simp add: mask_eq_exp_minus_1)
  consider "n < 12" | "12 \<le> n" "n < 22" | "22 \<le> n" by linarith
  then show "bit a n = bit b n"
  proof cases
    case 1
    have "bit (ucast a :: 12 word) n = bit (ucast b :: 12 word) n" using assms(3) by simp
    then show ?thesis using 1 by (simp add: bit_simps)
  next
    case 2
    have "bit (frame_of a AND 0x003FF) (n - 12) = bit (frame_of b AND 0x003FF) (n - 12)" using assms(2) by simp
    moreover have "n - 12 < 10" using 2 by linarith
    ultimately show ?thesis using 2 by (simp add: frame_of_def m bit_simps)
  next
    case 3
    have "bit (dir_index a) (n - 22) = bit (dir_index b) (n - 22)" using assms(1) by simp
    moreover have "n - 22 < 10" using 3 n by simp
    ultimately show ?thesis using 3 by (simp add: dir_index_def bit_simps)
  qed
qed

lemma xlate_program:
  assumes "program_page s"
  shows "\<exists>p\<le>6. \<forall>va. dir_index va = 32
    \<longrightarrow> xlate False (pages s) va = Some (0x800 + p * 0x400 + (frame_of va AND 0x003FF), ucast va)"
proof -
  obtain p :: u32 where p: "p \<le> 6" and e: "page_dir (pages s) 32 = user_pde (0x00400 + 0x00400 + p * 0x00400)"
    and en: "paging_enabled (pages s)"
    using assms by (auto simp: program_page_def wf_pages_def)
  have "xlate False (pages s) va = Some (0x800 + ucast p * 0x400 + (frame_of va AND 0x003FF), ucast va)"
    if "dir_index va = 32" for va
    using that e en pid_frame(1) [OF ucast_pid_frame(2) [OF p], of "frame_of va"] ucast_pid_frame(1) [OF p]
    by (simp add: xlate_def user_pde_def)
  then show ?thesis using ucast_pid_frame(2) [OF p] by blast
qed

lemma view_vstore:
  assumes "program_page s" and "dir_index a = 32" and "dir_index va = 32"
  shows "view (vstore a b s) va = (if va = a then b else view s va)"
proof -
  obtain p where p: "p \<le> 6" and x: "\<And>va. dir_index va = 32
    \<Longrightarrow> xlate False (pages s) va = Some (0x800 + p * 0x400 + (frame_of va AND 0x003FF), ucast va)"
    using xlate_program [OF assms(1)] by blast
  have "0x800 + p * 0x400 + (frame_of va AND 0x003FF) = 0x800 + p * 0x400 + (frame_of a AND 0x003FF)
      \<and> (ucast va :: 12 word) = ucast a \<longleftrightarrow> va = a"
    using address_parts [of va a] assms by auto
  then show ?thesis
    using x [OF assms(2)] x [OF assms(3)] by (auto simp: view_def vload_def vstore_def)
qed

lemma program_page_pages: "pages s' = pages s \<Longrightarrow> program_page s' = program_page s"
  by (simp add: program_page_def)

lemma pages_vstore_bytes [simp]: "pages (vstore_bytes a bs s) = pages s"
  by (induction bs arbitrary: a s) simp_all

lemma view_vstore_bytes:
  assumes "program_page s" and "program_range a (length bs)" and "dir_index va = 32"
  shows "view (vstore_bytes a bs s) va = store_bytes (view s) a bs va"
  using assms
proof (induction bs arbitrary: a s)
  case (Cons b bs)
  have d: "dir_index a = 32" using program_range_dir [OF Cons.prems(2), of 0] by simp
  have "unat (a + 1) = unat a + 1" using Cons.prems(2) by (simp add: program_range_def unat_word_ariths)
  then have r: "program_range (a + 1) (length bs)" using Cons.prems(2) by (simp add: program_range_def)
  have "view (vstore_bytes (a + 1) bs (vstore a b s)) va = store_bytes (view (vstore a b s)) (a + 1) bs va"
    by (rule Cons.IH) (use Cons.prems r program_page_pages [of "vstore a b s" s] in simp_all)
  also have "\<dots> = store_bytes ((view s)(a := b)) (a + 1) bs va"
    using r view_vstore [OF Cons.prems(1) d Cons.prems(3)]
    by (simp add: store_bytes_nth program_range_def)
  finally show ?case by simp
qed simp

lemma load_vstore_bytes:
  assumes "program_page s" and "program_range a (length bs)"
  shows "load_bytes (view (vstore_bytes a bs s)) a (length bs) = bs"
proof -
  have "load_bytes (view (vstore_bytes a bs s)) a (length bs) = load_bytes (store_bytes (view s) a bs) a (length bs)"
    by (rule nth_equalityI) (use view_vstore_bytes [OF assms] program_range_dir [OF assms(2)] in \<open>auto simp: nth_load_bytes\<close>)
  then show ?thesis using assms(2) by (simp add: load_store_bytes program_range_def)
qed

end
