(* ===== verification/Line_Discipline.thy ===== *)
theory Line_Discipline
  imports Kernel_Frames
begin

text \<open>
  The line buffer of a terminal as an abstract editor, and the refinement of \<open>keyboard_input\<close> to it: whatever the
  scan code and the modifiers, a key changes the line of the terminal on the screen exactly as the editor
  says and no other line. \<open>terminal_read\<close> is cut into the part before the busy wait, the condition of the wait
  and the part after it, so that other things can happen while a process waits.
\<close>

section \<open>The abstract line\<close>

text \<open>
  What a key means for the line: a character (also the codes without one, which enter a zero byte), the
  backspace key, the control key with L, or nothing.
\<close>

datatype line_key = Char byte | Backspace | Clear_line | No_line_key

definition key_meaning :: "byte \<Rightarrow> kstate \<Rightarrow> line_key" where
  "key_meaning input s =
     (if input = 0x0E then Backspace
      else if char_code input then
        let key = scancode (shift_pressed s OR caps_lock s) input
        in if (key = 108 \<or> key = 76) \<and> ctrl_pressed s \<noteq> 0 then Clear_line else Char key
      else No_line_key)"

text \<open>The text, whether a process waits for the line to end, and the newlines that did not fit.\<close>

record line_spec =
  line_text :: "byte list"
  line_wanted :: bool
  line_excess :: int

text \<open>
  A line holds 128 characters. The newline that ends a full line replaces its last character; any other
  character typed into a full line overwrites the count and cuts the line down to as many characters as its
  code says, plus one. Without a waiting process characters are ignored, but backspace and clear are not.
\<close>

definition type_char :: "byte \<Rightarrow> line_spec \<Rightarrow> line_spec" where
  "type_char c L =
     (if \<not> line_wanted L then L
      else if c = newline then
        if length (line_text L) < 128 then L\<lparr>line_text := line_text L @ [newline], line_wanted := False\<rparr>
        else L\<lparr>line_text := take 127 (line_text L) @ [newline], line_wanted := False, line_excess := line_excess L + 1\<rparr>
      else if length (line_text L) < 128 then L\<lparr>line_text := line_text L @ [c]\<rparr>
      else L\<lparr>line_text := take (unat c + 1) (line_text L)\<rparr>)"

primrec type_key :: "line_key \<Rightarrow> line_spec \<Rightarrow> line_spec" where
  "type_key (Char c) L = type_char c L"
| "type_key Backspace L =
     (if 0 < line_excess L then L\<lparr>line_excess := line_excess L - 1\<rparr> else L\<lparr>line_text := butlast (line_text L)\<rparr>)"
| "type_key Clear_line L = L\<lparr>line_text := []\<rparr>"
| "type_key No_line_key L = L"

definition line_state :: "terminal_t \<Rightarrow> line_spec" where
  "line_state t = \<lparr>line_text = line_of t, line_wanted = (keyboard_buffer_enable t \<noteq> 0), line_excess = overflow t\<rparr>"

section \<open>The keyboard refines it\<close>

lemma same_line_state: "same_line t t' \<Longrightarrow> line_state t' = line_state t"
  by (simp add: line_state_def same_line_of same_line_fields)

lemma length_line_of: "line_ok t \<Longrightarrow> int (length (line_of t)) = keyboard_buffer_size t"
  by (auto simp: line_ok_def line_of_def)

lemma line_state_buffer_key:
  assumes ok: "line_ok t" and key: "uint key < 127"
  shows "line_state (buffer_key key t) = type_char key (line_state t)"
proof -
  let ?n = "keyboard_buffer_size t"
  have n: "0 \<le> ?n" "?n \<le> 128" "length (key_buf t) = 128" and len: "int (length (line_of t)) = ?n"
    using ok length_line_of [OF ok] by (auto simp: line_ok_def)
  consider "keyboard_buffer_enable t = 0" | "keyboard_buffer_enable t \<noteq> 0" "?n < 128"
    | "keyboard_buffer_enable t \<noteq> 0" "?n = 128" using n(2) by linarith
  then show ?thesis
  proof cases
    case 1
    then show ?thesis by (simp add: buffer_key_def line_state_def type_char_def)
  next
    case 2
    have "overflow (buffer_key key t) = overflow t"
      using 2 by (simp add: buffer_key_def store_key_def KEYBOARD_BUFFER_SIZE_def Let_def)
    then show ?thesis
      using 2 buffer_key_char [OF ok 2, of key] len by (simp add: line_state_def type_char_def)
  next
    case 3
    have l: "length (line_of t) = 128" "line_of t = key_buf t"
      using 3 len n by (simp_all add: line_of_def)
    show ?thesis
    proof (cases "key = newline")
      case True
      have "take 128 ((key_buf t)[127 := newline]) = take 127 (key_buf t) @ [newline]"
        using n(3) take_Suc_conv_app_nth [of 127 "(key_buf t)[127 := newline]"] by simp
      then show ?thesis
        using 3 True l by (simp add: line_state_def type_char_def buffer_key_def store_key_def KEYBOARD_BUFFER_SIZE_def line_of_def)
    next
      case False
      have "nat (uint key + 1) = unat key + 1" by (simp add: nat_add_distrib)
      then show ?thesis
        using 3 False l
        by (simp add: line_state_def type_char_def buffer_key_def store_key_def KEYBOARD_BUFFER_SIZE_def Let_def line_of_def)
    qed
  qed
qed

lemma line_state_character_key:
  assumes ok: "keyboard_ok s" and key: "uint key < 127"
  shows "line_state (terminals (character_key key s) (current_terminal s))
    = (if (key = 108 \<or> key = 76) \<and> ctrl_pressed s \<noteq> 0 then type_key Clear_line else type_char key)
        (line_state (terminals s (current_terminal s)))"
proof -
  have v: "video_ok s" using ok by (simp add: keyboard_ok_def)
  let ?c = "current_terminal s" and ?s = "current_terminal_putc key s"
  obtain k where b: "console_becomes ?c (low_frame VIDEO_DIRECT s) s k ?s"
    using current_becomes(1) [OF v] by blast
  note fr = current_op_frame [OF b]
  have "video_ok ?s" by (rule echo_writer.op_ok [OF v])
  then obtain k' where b': "console_becomes (current_terminal ?s) (low_frame VIDEO_DIRECT ?s) ?s k' (current_terminal_clear ?s)"
    using current_becomes(3) by blast
  note fr' = current_op_frame [OF b']
  have ok': "line_ok (terminals ?s ?c)"
    using same_line_fields(5) [OF fr(2)] ok by (simp add: keyboard_ok_def)
  have e: "line_state (terminals ?s ?c) = line_state (terminals s ?c)" by (rule same_line_state [OF fr(2)])
  have "line_state (terminals (current_terminal_clear ?s) ?c) = line_state (terminals s ?c)"
    using same_line_state [OF fr'(2), of ?c] e by simp
  then have "line_state (terminals (upd_terminal ?c (\<lambda>t. t\<lparr>keyboard_buffer_size := 0\<rparr>) (current_terminal_clear ?s)) ?c)
      = type_key Clear_line (line_state (terminals s ?c))"
    by (simp add: line_state_def line_of_def)
  moreover have "line_state (terminals (upd_terminal ?c (buffer_key key) ?s) ?c) = type_char key (line_state (terminals s ?c))"
    using line_state_buffer_key [OF ok' key] e by simp
  ultimately show ?thesis using fr by (simp add: character_key_def Let_def)
qed

lemma line_state_backspace_key:
  assumes ok: "keyboard_ok s"
  shows "line_state (terminals (backspace_key s) (current_terminal s))
    = type_key Backspace (line_state (terminals s (current_terminal s)))"
proof -
  let ?c = "current_terminal s"
  let ?T = "terminals s ?c"
  let ?s = "upd_terminal ?c (\<lambda>t. t\<lparr>keyboard_buffer_size := keyboard_buffer_size t - 1\<rparr>) s"
  have lk: "line_ok ?T" using ok by (simp add: keyboard_ok_def)
  consider "0 < overflow ?T" | "\<not> 0 < overflow ?T" "0 < keyboard_buffer_size ?T"
    | "\<not> 0 < overflow ?T" "keyboard_buffer_size ?T = 0"
    using lk by (force simp: line_ok_def)
  then show ?thesis
  proof cases
    case 1
    then show ?thesis by (simp add: backspace_key_def line_state_def line_of_def Let_def)
  next
    case 2
    have "video_ok ?s" using ok by (intro video_ok_upd_terminal) (simp_all add: keyboard_ok_def)
    then obtain k where b: "console_becomes (current_terminal ?s) (low_frame VIDEO_DIRECT ?s) ?s k (current_terminal_back_putc ?s)"
      using current_becomes(2) by blast
    have "nat (keyboard_buffer_size ?T - 1) = nat (keyboard_buffer_size ?T) - 1" by simp
    moreover have "nat (keyboard_buffer_size ?T) \<le> length (key_buf ?T)" using lk by (auto simp: line_ok_def)
    ultimately have "line_of (terminals ?s ?c) = butlast (line_of ?T)"
      by (simp add: line_of_def butlast_take)
    then have "line_state (terminals ?s ?c) = type_key Backspace (line_state ?T)"
      using 2 by (simp add: line_state_def)
    then show ?thesis
      using 2 same_line_state [OF current_op_frame(2) [OF b, of ?c]] by (simp add: backspace_key_def Let_def)
  next
    case 3
    then show ?thesis by (simp add: backspace_key_def line_state_def line_of_def Let_def)
  qed
qed

lemma line_state_send_eoi [simp]: "terminals (send_eoi n s) = terminals s"
  by (simp add: send_eoi_def send_eoi_master_def outb_def)

lemma line_state_key:
  assumes ok: "keyboard_ok s"
  shows "line_state (terminals (keyboard_input input s) u)
    = (if u = current_terminal s then type_key (key_meaning input s) (line_state (terminals s u))
       else line_state (terminals s u))"
proof (cases "u = current_terminal s")
  case False
  then show ?thesis using keyboard_input_effect [OF ok, of input] by (simp add: key_effect_def)
next
  case True
  let ?key = "scancode (shift_pressed s OR caps_lock s) input"
  consider "input = 0x0E" | "char_code input" "input \<noteq> 0x0E" | "\<not> char_code input" "input \<noteq> 0x0E" by blast
  then show ?thesis
  proof cases
    case 1
    then show ?thesis
      using True line_state_backspace_key [OF ok] by (simp add: keyboard_input_def key_meaning_def)
  next
    case 2
    have "uint ?key < 127" by (rule scancode_ascii) (use 2 in \<open>simp add: char_code_def\<close>)
    then show ?thesis
      using True 2 line_state_character_key [OF ok, of ?key]
      by (simp add: keyboard_input_char key_meaning_def Let_def)
  next
    case 3
    have v: "video_ok s" using ok by (simp add: keyboard_ok_def)
    have sw: "terminals (switch_to_terminal t s) = terminals s" for t
      using switch_screens [OF v, where t = t] by (simp add: fun_eq_iff)
    have "terminals (keyboard_input input s) = terminals s"
      using 3 sw [of Terminal_1] sw [of Terminal_2] sw [of Terminal_3]
      by (auto simp: keyboard_input_def char_code_def switch_to_terminal_def)
    then show ?thesis using 3 True by (simp add: key_meaning_def)
  qed
qed


section \<open>A read in two parts\<close>

text \<open>
  \<open>terminal_read\<close> up to its busy wait is \<open>start_line\<close>; \<open>line_ready\<close> is the negated condition of the wait,
  \<open>finish_line\<close> what follows it.
\<close>

definition line_ready :: "kstate \<Rightarrow> bool" where
  "line_ready s \<longleftrightarrow> keyboard_buffer_enable (terminals s (active_terminal s)) \<noteq> 1"

definition finish_line :: "addr \<Rightarrow> u32 \<Rightarrow> kstate \<Rightarrow> int \<times> kstate" where
  "finish_line buf n s =
     (let size = of_int (keyboard_buffer_size (terminals s (active_terminal s)));
          n = (if size < n then size else n)
      in terminal_read_loop 0 (unat n) buf s)"

lemma terminal_read_parts:
  "terminal_read interrupts buf n s =
     (if buf = NULL then Some (-1, s) else if n = 0 then Some (0, s)
      else map_option (finish_line buf n) (spin_until line_ready interrupts (start_line s)))"
  by (simp add: terminal_read_def finish_line_def start_line_def line_ready_def [abs_def] Let_def split: option.split)

lemma rtc_read_parts:
  "rtc_read interrupts s
     = map_option (Pair 0) (spin_until (\<lambda>s. virtual_count (terminals s (active_terminal s)) = 0) interrupts (rtc_read_start s))"
  by (simp add: rtc_read_def split: option.split)

text \<open>Without interrupts a wait makes no progress.\<close>

lemma terminal_read_at_once:
  "terminal_read [] buf n s = Some (v, s') \<Longrightarrow> s' = s"
  by (auto simp: terminal_read_parts line_ready_def start_line_def split: if_splits)

text \<open>
  The copying loop: with the count \<open>m\<close> of the characters to copy, all mapped, it stores the line up to its newline;
  a text without newline loses its last character to one.
\<close>

lemma read_loop_no_newline:
  assumes "\<forall>j<m. mapped s (buf + of_nat j)" and "i + length xs = m" and "m \<le> length K"
    and "K = key_buf (terminals s (active_terminal s))"
    and "\<forall>j<m. K ! j \<noteq> newline" and "xs = drop i (take m K)"
  shows "terminal_read_loop i m buf s
    = (int m, line_done (vstore (buf + (of_nat m - 1)) newline (vstore_bytes (buf + of_nat i) xs s)))"
  using assms
proof (induction xs arbitrary: i s)
  case Nil
  then show ?case by (subst terminal_read_loop.simps) simp
next
  case (Cons x xs)
  let ?s = "vstore (buf + of_nat i) (K ! i) s"
  have i: "i < m" using Cons.prems(2) by simp
  have "drop i (take m K) = take m K ! i # drop (Suc i) (take m K)"
    by (rule Cons_nth_drop_Suc [symmetric]) (use i Cons.prems(3) in simp)
  then have x: "x = K ! i" "xs = drop (Suc i) (take m K)" using Cons.prems(6) i by simp_all
  have "vload ?s (buf + of_nat i) = K ! i" by (rule vload_vstore) (use Cons.prems i in auto)
  then have "terminal_read_loop i m buf s = terminal_read_loop (Suc i) m buf ?s"
    using i Cons.prems by (subst terminal_read_loop.simps) (simp add: Let_def)
  also have "\<dots> = (int m, line_done (vstore (buf + (of_nat m - 1)) newline (vstore_bytes (buf + of_nat (Suc i)) xs ?s)))"
    by (rule Cons.IH) (use Cons.prems x in \<open>auto simp: mapped_def\<close>)
  finally show ?case using x by (simp add: ac_simps)
qed

lemma finish_count:
  fixes n :: u32
  assumes "line_ok T" and "length (line_of T) \<le> unat n"
  shows "unat (if of_int (keyboard_buffer_size T) < n then of_int (keyboard_buffer_size T) else n) = length (line_of T)"
proof -
  have len: "keyboard_buffer_size T = int (length (line_of T))" "length (line_of T) \<le> 128"
    using length_line_of [OF assms(1)] assms(1) by (auto simp: line_ok_def)
  have "unat (of_int (keyboard_buffer_size T) :: u32) = length (line_of T)"
    using len(2) by (simp add: len(1) unat_of_nat)
  then show ?thesis using assms(2) by (auto simp: word_less_nat_alt)
qed

text \<open>A whole line that fits is delivered.\<close>

lemma finish_line_whole:
  fixes s defines "T \<equiv> terminals s (active_terminal s)"
  assumes ok: "line_ok T" and line: "line_of T = xs @ [newline]" and nl: "newline \<notin> set xs"
    and fits: "length xs < unat n" and m: "\<forall>j<unat n. mapped s (buf + of_nat j)"
  shows "finish_line buf n s = (int (length xs) + 1, line_done (vstore_bytes buf (xs @ [newline]) s))"
proof -
  have size: "keyboard_buffer_size T = int (length xs) + 1" using length_line_of [OF ok] line by simp
  have len: "length xs < length (key_buf T)" using ok size by (simp add: line_ok_def)
  note K = line_prefix [OF line size len]
  have u: "unat (if of_int (keyboard_buffer_size T) < n then of_int (keyboard_buffer_size T) else n) = Suc (length xs)"
    using finish_count [OF ok, of n] line fits by simp
  have "terminal_read_loop 0 (Suc (length xs)) buf s
      = (int (length xs) + 1, line_done (vstore_bytes (buf + of_nat 0) (xs @ [newline]) s))"
  proof (rule terminal_read_loop_line [where K = "key_buf T"])
    show "\<forall>j<length xs. key_buf T ! j \<noteq> newline" using K(3) nl by (metis nth_mem)
  qed (use m fits K len T_def in auto)
  then show ?thesis unfolding finish_line_def Let_def T_def [symmetric] u by simp
qed

text \<open>A line whose end was taken away again is delivered without its last character.\<close>

lemma finish_line_cut:
  fixes s defines "T \<equiv> terminals s (active_terminal s)"
  assumes ok: "line_ok T" and nl: "newline \<notin> set (line_of T)"
    and fits: "length (line_of T) \<le> unat n" and m: "\<forall>j<unat n. mapped s (buf + of_nat j)"
  shows "finish_line buf n s = (int (length (line_of T)),
    line_done (vstore (buf + (of_nat (length (line_of T)) - 1)) newline (vstore_bytes buf (line_of T) s)))"
proof -
  let ?m = "length (line_of T)"
  have u: "unat (if of_int (keyboard_buffer_size T) < n then of_int (keyboard_buffer_size T) else n) = ?m"
    by (rule finish_count [OF ok fits])
  have size: "keyboard_buffer_size T = int ?m" using length_line_of [OF ok] by simp
  then have K: "line_of T = take ?m (key_buf T)" "?m \<le> length (key_buf T)" using ok by (simp_all add: line_of_def line_ok_def)
  have "terminal_read_loop 0 ?m buf s
      = (int ?m, line_done (vstore (buf + (of_nat ?m - 1)) newline (vstore_bytes (buf + of_nat 0) (line_of T) s)))"
  proof (rule read_loop_no_newline [where K = "key_buf T"])
    show "\<forall>j<?m. key_buf T ! j \<noteq> newline" using K(1) nl by (metis nth_mem nth_take)
    show "line_of T = drop 0 (take ?m (key_buf T))" using K(1) by simp
  qed (use m fits K(2) T_def in auto)
  then show ?thesis unfolding finish_line_def Let_def T_def [symmetric] u by simp
qed

end
