(* ===== verification/Multitasking.thy ===== *)
theory Multitasking
  imports Program_Memory Line_Discipline
begin

text \<open>
  The kernel while processes wait. A process that reads from its terminal or from the clock spins in the kernel, with
  interrupts enabled; the timer then hands the processor to the processes of the other terminals, which make
  their own calls, and the wait goes on when the terminal's turn comes again. \<open>system\<close> adds to the kernel's
  state what each terminal's process waits for; a waiting read is two steps, its beginning and its end, and
  anything else can happen between them.
\<close>

section \<open>Waiting reads\<close>

datatype wait = Line_wait addr u32 | Clock_wait

text \<open>What a \<open>read\<close> system call of the running process would wait for.\<close>

definition read_wait :: "u32 \<Rightarrow> addr \<Rightarrow> u32 \<Rightarrow> kstate \<Rightarrow> wait option" where
  "read_wait fd buf n s =
     (if sint fd < 0 \<or> int MAX_NUM_FILES \<le> sint fd then None
      else case file_ops (file_descriptor_array (pcb_of (active_pid s) s) ! nat (sint fd)) of
             Ops_stdin \<Rightarrow> if buf = NULL \<or> n = 0 then None else Some (Line_wait buf n)
           | Ops_rtc \<Rightarrow> Some Clock_wait
           | _ \<Rightarrow> None)"

text \<open>The code before the busy wait, the condition that ends it, and the code behind it.\<close>

primrec start_wait :: "wait \<Rightarrow> kstate \<Rightarrow> kstate" where
  "start_wait (Line_wait buf n) s = start_line s"
| "start_wait Clock_wait s = rtc_read_start s"

primrec wait_ready :: "wait \<Rightarrow> kstate \<Rightarrow> bool" where
  "wait_ready (Line_wait buf n) s \<longleftrightarrow> line_ready s"
| "wait_ready Clock_wait s \<longleftrightarrow> virtual_count (terminals s (active_terminal s)) = 0"

primrec finish_wait :: "wait \<Rightarrow> kstate \<Rightarrow> int \<times> kstate" where
  "finish_wait (Line_wait buf n) s = finish_line buf n s"
| "finish_wait Clock_wait s = (0, s)"

lemma syscall_read_parts:
  assumes "read_wait fd buf n s = Some r"
  shows "syscall_read es fd buf n s
    = as_outcome (map_option (finish_wait r) (spin_until (wait_ready r) es (start_wait r s)))"
proof -
  have c: "wait_ready Clock_wait = (\<lambda>s. virtual_count (terminals s (active_terminal s)) = 0)"
    and l: "wait_ready (Line_wait a m) = line_ready" for a m
    by (simp_all add: fun_eq_iff)
  have f: "finish_wait Clock_wait = Pair 0" "finish_wait (Line_wait a m) = finish_line a m" for a m
    by (simp_all add: fun_eq_iff)
  show ?thesis
    using assms
    by (auto simp: read_wait_def syscall_read_def file_descriptor_table_read_def terminal_read_parts rtc_read_parts c l f
        Let_def split: if_splits file_ops_ptr.splits)
qed

section \<open>The system\<close>

record system =
  sys_kernel :: kstate
  sys_waits :: "term_ptr \<Rightarrow> wait option"

text \<open>
  The events: the timer, the clock, a key (the terminal on the screen and what the key means for its line), a
  system call of the running process that does not wait, a store of user code, and the beginning and the end
  of a waiting read with its result. The calls are those whose buffers lie in the user part of the address space
  (\<open>user_buffers\<close>, \<open>user_range\<close>) and whose C code is defined (\<open>after\<close>).
\<close>

datatype event =
    Timer
  | Clock_tick
  | Key term_ptr line_key
  | Call term_ptr
  | Store term_ptr
  | Begin_read term_ptr wait
  | End_read term_ptr wait int

inductive system_step :: "system \<Rightarrow> event \<Rightarrow> system \<Rightarrow> bool" where
  timer: "after (pit_handler esp ebp s) = Some s'
    \<Longrightarrow> system_step \<lparr>sys_kernel = s, sys_waits = W\<rparr> Timer \<lparr>sys_kernel = s', sys_waits = W\<rparr>"
| clock: "system_step \<lparr>sys_kernel = s, sys_waits = W\<rparr> Clock_tick \<lparr>sys_kernel = rtc_handler s, sys_waits = W\<rparr>"
| key: "system_step \<lparr>sys_kernel = s, sys_waits = W\<rparr> (Key (current_terminal s) (key_meaning (inb 0x60 s) s))
    \<lparr>sys_kernel = keyboard_handler s, sys_waits = W\<rparr>"
| call: "active_pid s \<noteq> 0 \<Longrightarrow> W (active_terminal s) = None \<Longrightarrow> user_buffers eax ebx ecx edx
    \<Longrightarrow> after (syscall_dispatch [] esp ebp junk eax ebx ecx edx s) = Some s'
    \<Longrightarrow> system_step \<lparr>sys_kernel = s, sys_waits = W\<rparr> (Call (active_terminal s)) \<lparr>sys_kernel = s', sys_waits = W\<rparr>"
| store: "active_pid s \<noteq> 0 \<Longrightarrow> W (active_terminal s) = None \<Longrightarrow> xlate True (pages s) va = Some (f, off)
    \<Longrightarrow> system_step \<lparr>sys_kernel = s, sys_waits = W\<rparr> (Store (active_terminal s))
      \<lparr>sys_kernel = s\<lparr>pmem := (pmem s)(f := (pmem s f)(off := b))\<rparr>, sys_waits = W\<rparr>"
| begin_read: "active_pid s \<noteq> 0 \<Longrightarrow> W (active_terminal s) = None \<Longrightarrow> user_range buf (unat n)
    \<Longrightarrow> read_wait fd buf n s = Some r
    \<Longrightarrow> system_step \<lparr>sys_kernel = s, sys_waits = W\<rparr> (Begin_read (active_terminal s) r)
      \<lparr>sys_kernel = start_wait r s, sys_waits = W(active_terminal s := Some r)\<rparr>"
| end_read: "active_pid s \<noteq> 0 \<Longrightarrow> W (active_terminal s) = Some r \<Longrightarrow> wait_ready r s
    \<Longrightarrow> system_step \<lparr>sys_kernel = s, sys_waits = W\<rparr> (End_read (active_terminal s) r (fst (finish_wait r s)))
      \<lparr>sys_kernel = snd (finish_wait r s), sys_waits = W(active_terminal s := None)\<rparr>"

inductive_cases system_stepE: "system_step w e w'"

inductive system_run :: "system \<Rightarrow> event list \<Rightarrow> system \<Rightarrow> bool" where
  run_nil: "system_run w [] w"
| run_cons: "system_step w e w' \<Longrightarrow> system_run w' es w'' \<Longrightarrow> system_run w (e # es) w''"

inductive_simps system_run_Nil [simp]: "system_run w [] w'"
inductive_simps system_run_Cons: "system_run w (e # es) w'"

lemma system_run_append:
  "system_run w (es @ fs) w' \<longleftrightarrow> (\<exists>u. system_run w es u \<and> system_run u fs w')"
  by (induction es arbitrary: w) (auto simp: system_run_Cons)

section \<open>The invariant\<close>

text \<open>A terminal whose process waits for no line has an empty line and accepts no characters.\<close>

definition wait_ok :: "wait option \<Rightarrow> terminal_t \<Rightarrow> bool" where
  "wait_ok r T \<longleftrightarrow>
     (case r of
        Some (Line_wait buf n) \<Rightarrow> keyboard_buffer_enable T \<in> {0, 1} \<and> buf \<noteq> NULL \<and> n \<noteq> 0 \<and> user_range buf (unat n)
      | _ \<Rightarrow> keyboard_buffer_enable T = 0 \<and> keyboard_buffer_size T = 0)"

definition system_ok :: "system \<Rightarrow> bool" where
  "system_ok w \<longleftrightarrow> kernel_ok (sys_kernel w) \<and> program_mapped (sys_kernel w)
     \<and> (\<forall>t. wait_ok (sys_waits w t) (terminals (sys_kernel w) t))"

text \<open>The steps that are steps of the kernel without waiting.\<close>

definition plain_event :: "event \<Rightarrow> bool" where
  "plain_event e \<longleftrightarrow> (case e of Begin_read t r \<Rightarrow> False | End_read t r v \<Rightarrow> False | _ \<Rightarrow> True)"

lemma plain_step:
  assumes "system_step w e w'" and "plain_event e"
  shows "kernel_step (sys_kernel w) (sys_kernel w') \<and> sys_waits w' = sys_waits w"
  using assms
  by (cases rule: system_step.cases)
    (auto simp: plain_event_def device_handlers_def intro: kernel_step.timer kernel_step.user_store
      kernel_step.device [of rtc_handler] kernel_step.device [of keyboard_handler] kernel_step.call [of _ "[]"])

text \<open>The two steps of a waiting read.\<close>

lemma start_wait_view:
  "screen_view (start_wait r s) = screen_view s" "kernel_memory (start_wait r s) = kernel_memory s"
  "proc_view (start_wait r s) = proc_view s" "pcbs (start_wait r s) = pcbs s"
  "program_view (start_wait r s) = program_view s" "boot_block_pointer (start_wait r s) = boot_block_pointer s"
  by (cases r; simp add: start_line_def rtc_read_start_def screen_view_upd_terminal term_core_def
      proc.obs_upd_terminal program.obs_upd_terminal)+

lemma finish_line_loop: "\<exists>m\<le>unat n. finish_line buf n s = terminal_read_loop 0 m buf s"
  by (rule exI [of _ "unat (if of_int (keyboard_buffer_size (terminals s (active_terminal s))) < n
      then of_int (keyboard_buffer_size (terminals s (active_terminal s))) else n)"])
    (simp add: finish_line_def Let_def word_less_nat_alt)

lemma finish_wait_view:
  "proc_view (snd (finish_wait r s)) = proc_view s" "pcbs (snd (finish_wait r s)) = pcbs s"
  "program_view (snd (finish_wait r s)) = program_view s" "boot_block_pointer (snd (finish_wait r s)) = boot_block_pointer s"
  by (cases r; simp add: finish_line_def Let_def proc.obs_terminal_read_loop blocks.obs_terminal_read_loop
      program.obs_terminal_read_loop image_at.obs_terminal_read_loop)+

lemma finish_wait_keyboard: "keyboard_ok s \<Longrightarrow> keyboard_ok (snd (finish_wait r s))"
  by (cases r) (simp_all add: finish_line_def Let_def keyboard_ok_read_loop)

lemma finish_wait_memory:
  assumes "keyboard_ok s" and "wait_ok (Some r) T"
  shows "kernel_memory (snd (finish_wait r s)) = kernel_memory s"
proof (cases r)
  case (Line_wait buf n)
  obtain m where m: "m \<le> unat n" "finish_line buf n s = terminal_read_loop 0 m buf s" using finish_line_loop by blast
  have "user_range buf m" by (rule user_range_le [OF _ m(1)]) (use assms(2) Line_wait in \<open>simp add: wait_ok_def\<close>)
  then show ?thesis using kernel_memory_read_loop [OF assms(1)] m(2) Line_wait by simp
qed simp

text \<open>What every step does to the kernel's state.\<close>

lemma system_step_kernel:
  assumes "system_step w e w'" and ok: "system_ok w"
  shows "keyboard_ok (sys_kernel w') \<and> simulates (sys_kernel w) (sys_kernel w') \<and> program_mapped (sys_kernel w')
    \<and> image_kept (sys_kernel w) (sys_kernel w')"
proof (cases "plain_event e")
  case True
  have k: "kernel_ok (sys_kernel w)" "program_mapped (sys_kernel w)" using ok by (simp_all add: system_ok_def)
  have "kernel_step (sys_kernel w) (sys_kernel w')" using plain_step [OF assms(1) True] by simp
  then show ?thesis using kernel_step_ok kernel_step_mapped kernel_step_image k by blast
next
  case False
  show ?thesis
    using assms(1)
  proof (cases rule: system_step.cases)
    case (begin_read s W buf n fd r)
    have k: "keyboard_ok s" "program_mapped s" using ok begin_read by (simp_all add: system_ok_def kernel_ok_def)
    have "keyboard_ok (start_wait r s)" using k(1) keyboard_ok_view [OF start_wait_view(1)] by simp
    moreover have "simulates s (start_wait r s)" by (rule simulates_quiet [OF start_wait_view(3,4)])
    ultimately show ?thesis
      using begin_read(1,3) k(2) program_mapped_view [OF start_wait_view(5)] start_wait_view(2,6)
      by (simp add: image_kept_def)
  next
    case (end_read s W r)
    have k: "keyboard_ok s" "program_mapped s" "wait_ok (Some r) (terminals s (active_terminal s))"
      using ok end_read by (auto simp: system_ok_def kernel_ok_def dest: spec [of _ "active_terminal s"])
    have "simulates s (snd (finish_wait r s))" by (rule simulates_quiet [OF finish_wait_view(1,2)])
    then show ?thesis
      using end_read(1,3) k(2) program_mapped_view [OF finish_wait_view(3)] finish_wait_view(4)
        finish_wait_keyboard [OF k(1)] finish_wait_memory [OF k(1,3)]
      by (simp add: image_kept_def)
  qed (use False in \<open>simp_all add: plain_event_def\<close>)
qed

section \<open>What a step does to the lines\<close>

text \<open>The data of the terminals that waiting reads use.\<close>

definition read_data_of :: "terminal_t \<Rightarrow> byte list \<times> int \<times> int \<times> int" where
  "read_data_of T = (key_buf T, keyboard_buffer_size T, keyboard_buffer_enable T, overflow T)"

definition read_view :: "kstate \<Rightarrow> term_ptr \<Rightarrow> (byte list \<times> int \<times> int \<times> int) \<times> int" where
  "read_view s = (\<lambda>t. (read_data_of (terminals s t), virtual_count (terminals s t)))"

lemma cursor_read_data:
  assumes "f T\<lparr>screen_x := 0, screen_y := 0\<rparr> = T\<lparr>screen_x := 0, screen_y := (0 :: int)\<rparr>"
  shows "read_data_of (f T) = read_data_of T \<and> virtual_count (f T) = virtual_count (T :: terminal_t)"
  using assms by (cases T; cases "f T") (simp add: read_data_of_def)

interpretation reads: output_view read_view
proof unfold_locales
  fix f :: "terminal_t \<Rightarrow> terminal_t" and t s
  assume f: "\<And>T. f T\<lparr>screen_x := 0, screen_y := 0\<rparr> = T\<lparr>screen_x := 0, screen_y := 0\<rparr>"
  have "read_data_of (f T) = read_data_of T \<and> virtual_count (f T) = virtual_count T" for T
    by (rule cursor_read_data [OF f])
  then show "read_view (upd_terminal t f s) = read_view s" by (simp add: read_view_def fun_eq_iff)
qed (simp_all add: read_view_def)

lemma read_view_fields [simp]:
  "read_view (s\<lparr>active_pid := p\<rparr>) = read_view s" "read_view (s\<lparr>active_terminal := t\<rparr>) = read_view s"
  "read_view (s\<lparr>process_count := i\<rparr>) = read_view s" "read_view (s\<lparr>processes := ps\<rparr>) = read_view s"
  "read_view (s\<lparr>tss_esp0 := w\<rparr>) = read_view s" "read_view (s\<lparr>arg_buf := bs\<rparr>) = read_view s"
  "read_view (s\<lparr>argument_exist := c\<rparr>) = read_view s" "read_view (s\<lparr>pages := pt\<rparr>) = read_view s"
  "read_view (upd_pcb p f s) = read_view s" "read_view (paging_execute p s) = read_view s"
  "read_view (paging_video_memory s) = read_view s" "read_view (syscall_enable_vidmap_paging s) = read_view s"
  by (simp_all add: read_view_def paging_execute_def paging_video_memory_def syscall_enable_vidmap_paging_def Let_def)

lemma read_view_process [simp]:
  "read_view (upd_terminal t (\<lambda>T. T\<lparr>current_process_id := p\<rparr>) s) = read_view s"
  by (simp add: read_view_def read_data_of_def fun_eq_iff)

lemma read_view_save_stack [simp]: "read_view (save_stack p e b s) = read_view s"
  by (simp add: save_stack_def)

lemma read_view_boot_enter:
  "boot_enter t pid s = Enter_user pc sp s' \<Longrightarrow> read_view s' = read_view s"
  by (auto simp: boot_enter_def context_switch_execute_def Let_def)

lemma read_view_pit:
  assumes "after (pit_handler esp ebp s) = Some s'"
  shows "read_view s' = read_view s"
proof -
  let ?s = "send_eoi 0 (cli s)"
  obtain u where u: "after (schedule esp ebp ?s) = Some u" "s' = u \<or> s' = sti u"
    using assms by (auto simp: pit_handler_def after_def split: outcome.splits)
  let ?t = "next_terminal (active_terminal ?s)" and ?b = "tick_base esp ebp ?s"
  have b: "read_view ?b = read_view s" by (simp add: tick_base_def Let_def)
  have "read_view u = read_view s"
  proof (cases "current_process_id (terminals ?s ?t) = 0")
    case True
    obtain pc sp where e: "boot_enter ?t (root_pid ?t) ?b = Enter_user pc sp u"
      using u(1) True boot_enter_view [of ?t "root_pid ?t" ?b] unfolding schedule_split Let_def after_def by auto
    show ?thesis using read_view_boot_enter [OF e] b by simp
  next
    case False
    then show ?thesis using u(1) b unfolding schedule_split Let_def after_def by auto
  qed
  then show ?thesis using u(2) by auto
qed

lemma read_view_close_all [simp]: "read_view (close_all p s) = read_view s"
  unfolding close_all_def by (rule reads.obs_fold) simp

lemma read_view_activate [simp]: "read_view (activate t p s) = read_view s"
  by (simp add: activate_def Let_def)

lemma read_view_launched [simp]: "read_view (launched fd pid esp ebp s) = read_view s"
  by (simp add: launched_def Let_def)

lemma read_view_halt:
  assumes "after (syscall_halt status s) = Some s'"
  shows "read_view s' = read_view s"
proof (cases "active_pid s \<in> {1, 2, 3}")
  case True
  obtain t m where e: "syscall_halt status s = boot_enter t (root_pid t) (kprint m s)"
    using True by (auto simp: syscall_halt_def boot_enters)
  obtain pc sp where b: "boot_enter t (root_pid t) (kprint m s) = Enter_user pc sp s'"
    using assms e boot_enter_view [of t "root_pid t" "kprint m s"] by (auto simp: after_def)
  show ?thesis using read_view_boot_enter [OF b] by simp
next
  case False
  have "read_view (halted s) = read_view s" by (simp add: halted_def Let_def)
  then show ?thesis using assms by (simp add: syscall_halt_child [OF False] after_def)
qed

lemma read_view_execute:
  assumes "kernel_ok s" and "active_pid s \<noteq> 0" and x: "after (syscall_execute command esp ebp junk s) = Some s'"
  shows "read_view s' = read_view s"
proof -
  have l: "read_view s' = read_view s"
    if n: "process_count s \<noteq> 6" and st: "after (start_process fd esp ebp (s\<lparr>argument_exist := y, arg_buf := b\<rparr>)) = Some s'" for fd y b
  proof -
    let ?u = "s\<lparr>argument_exist := y, arg_buf := b\<rparr>"
    obtain a where a: "refines a s" using assms(1) by (auto simp: kernel_ok_def)
    have r: "refines a ?u" using a refines_proc_view [of ?u s] by simp
    have "sp_started a (sp_active a)" using assms(2) a running_zero [of a] by (auto simp: refines_def)
    from start_process_refines [OF r this, of fd esp ebp] n obtain pid
      where e: "start_process fd esp ebp ?u = context_switch_execute (launched fd pid esp ebp ?u)" by auto
    have "s' = sti (launched fd pid esp ebp ?u)" using st e by (simp add: context_switch_execute_def after_def)
    then show ?thesis by simp
  qed
  show ?thesis using syscall_execute_cases [OF x] l by auto
qed

text \<open>
  A call of one terminal's process leaves the lines of all terminals alone and the clocks of the others.
\<close>

definition reads_kept :: "kstate \<Rightarrow> kstate \<Rightarrow> bool" where
  "reads_kept s s' \<longleftrightarrow> (\<forall>t. read_data_of (terminals s' t) = read_data_of (terminals s t)
     \<and> (t \<noteq> active_terminal s \<longrightarrow> virtual_count (terminals s' t) = virtual_count (terminals s t)))"

lemma reads_kept_view: "read_view s' = read_view s \<Longrightarrow> reads_kept s s'"
  by (auto simp: read_view_def reads_kept_def fun_eq_iff)

lemma reads_kept_clock:
  "reads_kept s (upd_terminal (active_terminal s) (\<lambda>T. T\<lparr>virtual_rate := f T, virtual_count := g T\<rparr>) s)"
  "reads_kept s (rtc_read_start s)"
  by (simp_all add: reads_kept_def read_data_of_def rtc_read_start_def)

lemma reads_kept_rtc_write: "reads_kept s (snd (rtc_write buf s))"
proof -
  have "reads_kept s (snd (rtc_write_loop i rate s))" for i rate
  proof (induction i rate s rule: rtc_write_loop.induct)
    case (1 i rate s)
    then show ?case
      by (subst rtc_write_loop.simps) (simp add: Let_def reads_kept_def read_data_of_def)
  qed
  then show ?thesis by (auto simp: rtc_write_def Let_def intro: reads_kept_view)
qed

lemma reads_kept_read:
  assumes "file_descriptor_table_read [] pid fd buf n s = Some (v, s')"
  shows "reads_kept s s'"
proof -
  have c: "reads_kept s s'" if "rtc_read [] s = Some (v, s')"
    using that reads_kept_clock(2) by (auto simp: rtc_read_parts split: if_splits)
  have t: "reads_kept s s'" if "terminal_read [] buf n s = Some (v, s')"
    using terminal_read_at_once [OF that] by (simp add: reads_kept_view)
  show ?thesis
    using assms c t
    by (auto simp: file_descriptor_table_read_def Let_def intro: reads_kept_view split: if_splits file_ops_ptr.splits prod.splits)
qed

lemma reads_kept_write: "reads_kept s (snd (file_descriptor_table_write pid fd buf n s))"
proof -
  have "read_view (snd (terminal_write buf n s)) = read_view s" by (simp add: terminal_write_def reads.obs_fold)
  then show ?thesis
    using reads_kept_rtc_write [of s buf]
    by (auto simp: file_descriptor_table_write_def Let_def intro: reads_kept_view split: file_ops_ptr.splits)
qed

lemma reads_kept_call:
  assumes "kernel_ok s" and "active_pid s \<noteq> 0"
    and d: "after (syscall_dispatch [] esp ebp junk eax ebx ecx edx s) = Some s'"
  shows "reads_kept s s'"
proof -
  have rd: "reads_kept s s'" if "after (syscall_read [] ebx ecx edx s) = Some s'"
    using that reads_kept_read by (auto simp: syscall_read_def as_outcome_def after_def split: option.splits)
  have wr: "reads_kept s s'" if "after (syscall_write ebx ecx edx s) = Some s'"
  proof -
    have "s' = snd (file_descriptor_table_write (active_pid s) (sint ebx) ecx edx s)"
      using that by (auto simp: syscall_write_def Let_def after_def split: prod.splits)
    then show ?thesis using reads_kept_write by simp
  qed
  have op: "reads_kept s s'" if "after (syscall_open ebx s) = Some s'"
    using that by (auto simp: syscall_open_def Let_def after_def intro!: reads_kept_view split: option.splits)
  have cl: "reads_kept s s'" if "after (syscall_close ebx s) = Some s'"
    using that by (auto simp: syscall_close_def Let_def after_def intro!: reads_kept_view split: prod.splits)
  have ga: "reads_kept s s'" if "after (syscall_getargs ebx ecx s) = Some s'"
    using that by (auto simp: syscall_getargs_def Let_def after_def intro!: reads_kept_view split: if_splits)
  have vm: "reads_kept s s'" if "after (syscall_vidmap ebx s) = Some s'"
    using that by (auto simp: syscall_vidmap_def Let_def after_def intro!: reads_kept_view split: if_splits)
  have no: "reads_kept s s'" if "after (Return v s) = Some s'" for v
    using that by (simp add: after_def reads_kept_view)
  have ex: "reads_kept s s'" if "after (syscall_execute ebx esp ebp junk s) = Some s'"
    by (rule reads_kept_view, rule read_view_execute [OF assms(1,2) that])
  have ht: "reads_kept s s'" if "after (syscall_halt (ucast ebx) s) = Some s'"
    by (rule reads_kept_view, rule read_view_halt [OF that])
  show ?thesis
    using d rd wr op cl ga vm no ex ht
    unfolding syscall_dispatch_def syscall_set_handler_def syscall_sigreturn_def
    by (simp split: if_splits)
qed

section \<open>Lines under interleaving\<close>

text \<open>What an event means for the line of terminal \<open>t\<close>: only keys typed while \<open>t\<close> is on the screen and the reads of
  its own process matter.\<close>

fun line_event :: "term_ptr \<Rightarrow> event \<Rightarrow> line_spec \<Rightarrow> line_spec" where
  "line_event t (Key u k) L = (if u = t then type_key k L else L)"
| "line_event t (Begin_read u (Line_wait buf n)) L = (if u = t then L\<lparr>line_wanted := True\<rparr> else L)"
| "line_event t (End_read u (Line_wait buf n) v) L = (if u = t then L\<lparr>line_text := []\<rparr> else L)"
| "line_event t _ L = L"

abbreviation line_at :: "term_ptr \<Rightarrow> system \<Rightarrow> line_spec" where
  "line_at t w \<equiv> line_state (terminals (sys_kernel w) t)"

abbreviation clock_at :: "term_ptr \<Rightarrow> system \<Rightarrow> int" where
  "clock_at t w \<equiv> virtual_count (terminals (sys_kernel w) t)"

lemma line_state_data: "read_data_of T' = read_data_of T \<Longrightarrow> line_state T' = line_state T"
  by (simp add: read_data_of_def line_state_def line_of_def)

lemma wait_ok_data: "read_data_of T' = read_data_of T \<Longrightarrow> wait_ok r T' = wait_ok r T"
  by (simp add: read_data_of_def wait_ok_def split: option.split wait.split)

lemma read_data_rtc_handler [simp]: "read_data_of (terminals (rtc_handler s) t) = read_data_of (terminals s t)"
proof -
  have c: "read_data_of (terminals (count_down u s) t) = read_data_of (terminals s t)" for u s
    by (simp add: count_down_def read_data_of_def)
  show ?thesis by (simp add: rtc_handler_def Let_def c outb_def)
qed

text \<open>The copying loop clears the line of the active terminal and changes no other data of terminals.\<close>

lemma read_loop_terminals:
  "terminals (snd (terminal_read_loop i n buf s)) =
     (terminals s)(active_terminal s := (terminals s (active_terminal s))\<lparr>keyboard_buffer_size := 0\<rparr>)"
proof (induction i n buf s rule: terminal_read_loop.induct)
  case (1 index n buf s)
  have d: "terminals (line_done u) = (terminals u)(active_terminal u := (terminals u (active_terminal u))\<lparr>keyboard_buffer_size := 0\<rparr>)" for u
    by (simp add: line_done_def upd_terminal_def)
  have v: "terminals (vstore a b u) = terminals u" for a b u by (simp add: vstore_def split: option.split prod.split)
  show ?case using 1 by (subst terminal_read_loop.simps) (simp add: Let_def d v fun_upd_def)
qed

lemma finish_line_terminals:
  "terminals (snd (finish_line buf n s)) =
     (terminals s)(active_terminal s := (terminals s (active_terminal s))\<lparr>keyboard_buffer_size := 0\<rparr>)"
  by (simp add: finish_line_def Let_def read_loop_terminals)

text \<open>The keyboard handler may end a wait; it starts none and leaves the clocks alone.\<close>

definition only_ends :: "kstate \<Rightarrow> kstate \<Rightarrow> bool" where
  "only_ends s s' \<longleftrightarrow> (\<forall>u. virtual_count (terminals s' u) = virtual_count (terminals s u)
     \<and> keyboard_buffer_enable (terminals s' u) \<in> {0, keyboard_buffer_enable (terminals s u)})"

lemma only_ends_view: "read_view s' = read_view s \<Longrightarrow> only_ends s s'"
  by (simp add: only_ends_def read_view_def read_data_of_def fun_eq_iff)

lemma only_ends_upd:
  assumes "only_ends s s'"
    and "\<And>T. virtual_count (h T) = virtual_count T \<and> keyboard_buffer_enable (h T) \<in> {0, keyboard_buffer_enable T}"
  shows "only_ends s (upd_terminal t h s')"
  unfolding only_ends_def
proof (intro allI)
  fix u
  show "virtual_count (terminals (upd_terminal t h s') u) = virtual_count (terminals s u)
    \<and> keyboard_buffer_enable (terminals (upd_terminal t h s') u) \<in> {0, keyboard_buffer_enable (terminals s u)}"
    using assms(1) assms(2) [of "terminals s' u"] by (auto simp: only_ends_def)
qed

lemma only_ends_trans: "only_ends s s' \<Longrightarrow> only_ends s' s'' \<Longrightarrow> only_ends s s''"
  unfolding only_ends_def by fastforce

lemma only_ends_keyboard:
  assumes "keyboard_ok s"
  shows "only_ends s (keyboard_handler s)"
proof -
  have v: "video_ok s" using assms by (simp add: keyboard_ok_def)
  have ch: "only_ends s (character_key key s)" for key
  proof -
    have "virtual_count (buffer_key key T) = virtual_count T
        \<and> keyboard_buffer_enable (buffer_key key T) \<in> {0, keyboard_buffer_enable T}" for T
      by (simp add: buffer_key_def store_key_def Let_def)
    then have "only_ends s (upd_terminal t (buffer_key key) (current_terminal_putc key s))" for t
      by (intro only_ends_upd [OF only_ends_view]) simp_all
    moreover have "only_ends s (upd_terminal t (\<lambda>t. t\<lparr>keyboard_buffer_size := 0\<rparr>)
        (current_terminal_clear (current_terminal_putc key s)))" for t
      by (rule only_ends_upd [OF only_ends_view]) simp_all
    ultimately show ?thesis by (simp add: character_key_def Let_def)
  qed
  have bs: "only_ends s (backspace_key s)"
  proof -
    let ?s = "upd_terminal (current_terminal s) (\<lambda>t. t\<lparr>keyboard_buffer_size := keyboard_buffer_size t - 1\<rparr>) s"
    have 1: "only_ends s ?s" by (rule only_ends_upd [OF only_ends_view]) simp_all
    have "only_ends ?s (current_terminal_back_putc ?s)" by (rule only_ends_view) simp
    then have "only_ends s (current_terminal_back_putc ?s)" by (rule only_ends_trans [OF 1])
    moreover have "only_ends s (upd_terminal t (\<lambda>t. t\<lparr>overflow := overflow t - 1\<rparr>) s)" for t
      by (rule only_ends_upd [OF only_ends_view]) simp_all
    moreover have "only_ends s s" by (rule only_ends_view) simp
    ultimately show ?thesis by (simp add: backspace_key_def Let_def)
  qed
  have sw: "only_ends s (switch_to_terminal t s)" for t
    using switch_screens [OF v, where t = t] by (simp add: only_ends_def)
  have md: "only_ends s (s\<lparr>alt_pressed := a\<rparr>)" "only_ends s (s\<lparr>ctrl_pressed := a\<rparr>)"
    "only_ends s (s\<lparr>shift_pressed := a\<rparr>)" "only_ends s (s\<lparr>caps_lock := a\<rparr>)" "only_ends s s" for a
    by (simp_all add: only_ends_def)
  have "only_ends s (keyboard_input input s)" for input
    using ch bs md sw [of Terminal_1] sw [of Terminal_2] sw [of Terminal_3]
    by (simp add: keyboard_input_def switch_to_terminal_def)
  then show ?thesis by (simp add: keyboard_handler_def only_ends_def)
qed

section \<open>Every step keeps the invariant\<close>

text \<open>The line of each terminal changes as its events say.\<close>

lemma system_step_line:
  assumes "system_step w e w'" and ok: "system_ok w"
  shows "line_at t w' = line_event t e (line_at t w)"
proof -
  have k: "kernel_ok (sys_kernel w)" "keyboard_ok (sys_kernel w)" using ok by (simp_all add: system_ok_def kernel_ok_def)
  show ?thesis
    using assms(1)
  proof (cases rule: system_step.cases)
    case (timer esp ebp s s' W)
    then have "read_data_of (terminals s' t) = read_data_of (terminals s t)"
      using read_view_pit [OF timer(4)] by (simp add: read_view_def fun_eq_iff)
    from line_state_data [OF this] show ?thesis using timer by simp
  next
    case (clock s W)
    then show ?thesis using line_state_data [OF read_data_rtc_handler, of s t] by simp
  next
    case (key s W)
    then show ?thesis using line_state_key [of s "inb 0x60 s" t] k(2) by (auto simp: keyboard_handler_def)
  next
    case (call s W eax ebx ecx edx esp ebp junk s')
    have "reads_kept s s'" using reads_kept_call [OF _ call(4) call(7)] k(1) call(1) by simp
    then have "read_data_of (terminals s' t) = read_data_of (terminals s t)" by (simp add: reads_kept_def)
    from line_state_data [OF this] show ?thesis using call by simp
  next
    case (store s W va f off b)
    then show ?thesis by simp
  next
    case (begin_read s W buf n fd r)
    then show ?thesis
      by (cases r) (auto simp: start_line_def rtc_read_start_def line_state_def line_of_def)
  next
    case (end_read s W r)
    then show ?thesis
      by (cases r) (auto simp: finish_line_terminals line_state_def line_of_def)
  qed
qed

lemma wait_ok_idle: "wait_ok r T \<Longrightarrow> \<forall>buf n. r \<noteq> Some (Line_wait buf n) \<Longrightarrow> wait_ok None T"
  by (auto simp: wait_ok_def split: option.splits wait.splits)

lemma wait_ok_None: "line_ok T \<Longrightarrow> wait_ok None T \<longleftrightarrow> keyboard_buffer_enable T = 0 \<and> line_text (line_state T) = []"
  using length_line_of [of T] by (auto simp: wait_ok_def line_state_def)

lemma wait_ok_key:
  assumes ok: "keyboard_ok s" and w: "wait_ok r (terminals s t)"
  shows "wait_ok r (terminals (keyboard_handler s) t)"
proof (cases "\<exists>buf n. r = Some (Line_wait buf n)")
  case True
  have "keyboard_buffer_enable (terminals (keyboard_handler s) t) \<in> {0, keyboard_buffer_enable (terminals s t)}"
    using only_ends_keyboard [OF ok] by (simp add: only_ends_def)
  then show ?thesis using True w by (auto simp: wait_ok_def)
next
  case False
  then have none: "wait_ok None (terminals s t)" using w wait_ok_idle by blast
  have en: "keyboard_buffer_enable (terminals (keyboard_handler s) t) = 0"
    using only_ends_keyboard [OF ok] none by (auto simp: only_ends_def wait_ok_def dest: spec [of _ t])
  have lk: "line_ok (terminals s t)" using ok by (simp add: keyboard_ok_def)
  have ok': "keyboard_ok (keyboard_handler s)"
    using send_eoi_effect [OF keyboard_input_effect [OF ok]] by (simp add: keyboard_handler_def key_effect_def)
  then have lk': "line_ok (terminals (keyboard_handler s) t)" by (simp add: keyboard_ok_def)
  have "line_text (type_key k (line_state (terminals s t))) = []" for k
    using none wait_ok_None [OF lk] by (cases k) (simp_all add: type_char_def line_state_def)
  then have "line_text (line_state (terminals (keyboard_handler s) t)) = []"
    using line_state_key [OF ok, of "inb 0x60 s" t] none wait_ok_None [OF lk] by (auto simp: keyboard_handler_def)
  then have "wait_ok None (terminals (keyboard_handler s) t)" using en wait_ok_None [OF lk'] by blast
  then show ?thesis using False by (auto simp: wait_ok_def split: option.splits wait.splits)
qed

lemma wait_ok_start:
  assumes "wait_ok None (terminals s (active_terminal s))" and "read_wait fd buf n s = Some r" and "user_range buf (unat n)"
  shows "wait_ok (Some r) (terminals (start_wait r s) (active_terminal s))"
  using assms
  by (auto simp: read_wait_def wait_ok_def start_line_def rtc_read_start_def split: if_splits file_ops_ptr.splits)

lemma wait_ok_finish:
  assumes "wait_ok (Some r) (terminals s (active_terminal s))" and "wait_ready r s"
  shows "wait_ok None (terminals (snd (finish_wait r s)) (active_terminal s))"
  using assms by (cases r) (auto simp: wait_ok_def finish_line_terminals line_ready_def)

lemma wait_terminals_other:
  "t \<noteq> active_terminal s \<Longrightarrow> terminals (start_wait r s) t = terminals s t"
  "t \<noteq> active_terminal s \<Longrightarrow> terminals (snd (finish_wait r s)) t = terminals s t"
  by (cases r; simp add: start_line_def rtc_read_start_def finish_line_terminals)+

lemma system_step_ok:
  assumes "system_ok w" and st: "system_step w e w'"
  shows "system_ok w'"
proof -
  have k: "kernel_ok (sys_kernel w)" "keyboard_ok (sys_kernel w)"
    and wt: "\<And>t. wait_ok (sys_waits w t) (terminals (sys_kernel w) t)"
    using assms(1) by (simp_all add: system_ok_def kernel_ok_def)
  have "wait_ok (sys_waits w' t) (terminals (sys_kernel w') t)" for t
    using st
  proof (cases rule: system_step.cases)
    case (timer esp ebp s s' W)
    have "read_data_of (terminals s' t) = read_data_of (terminals s t)"
      using read_view_pit [OF timer(4)] by (simp add: read_view_def fun_eq_iff)
    from wait_ok_data [OF this] show ?thesis using timer wt [of t] by simp
  next
    case (clock s W)
    then show ?thesis using wait_ok_data [OF read_data_rtc_handler, of "W t" s t] wt [of t] by simp
  next
    case (key s W)
    then show ?thesis using wait_ok_key [OF k(2) wt [of t]] by simp
  next
    case (call s W eax ebx ecx edx esp ebp junk s')
    have "reads_kept s s'" using reads_kept_call [OF _ call(4) call(7)] k(1) call(1) by simp
    then have "read_data_of (terminals s' t) = read_data_of (terminals s t)" by (simp add: reads_kept_def)
    from wait_ok_data [OF this] show ?thesis using call wt [of t] by simp
  next
    case (store s W va f off b)
    then show ?thesis using wt [of t] by simp
  next
    case (begin_read s W buf n fd r)
    have "wait_ok None (terminals s (active_terminal s))" using wt [of "active_terminal s"] begin_read by simp
    then show ?thesis
      using begin_read wait_ok_start [OF _ begin_read(7,6)] wait_terminals_other(1) wt [of t] by auto
  next
    case (end_read s W r)
    have "wait_ok (Some r) (terminals s (active_terminal s))" using wt [of "active_terminal s"] end_read by simp
    then show ?thesis
      using end_read wait_ok_finish [OF _ end_read(6)] wait_terminals_other(2) wt [of t] by auto
  qed
  moreover have "kernel_ok (sys_kernel w')"
    using system_step_kernel [OF st assms(1)] kernel_okI [OF k(1)] by blast
  ultimately show ?thesis using system_step_kernel [OF st assms(1)] by (simp add: system_ok_def)
qed

lemma system_run_ok: "system_run w es w' \<Longrightarrow> system_ok w \<Longrightarrow> system_ok w'"
  by (induction rule: system_run.induct) (auto intro: system_step_ok)

lemma system_run_line:
  "system_run w es w' \<Longrightarrow> system_ok w \<Longrightarrow> line_at t w' = fold (line_event t) es (line_at t w)"
  by (induction rule: system_run.induct) (auto simp: system_step_line intro: system_step_ok)

text \<open>The interfaces of step relations and simulations, for the whole system.\<close>

definition system_next :: "system \<Rightarrow> system \<Rightarrow> bool" where
  "system_next w w' \<longleftrightarrow> (\<exists>e. system_step w e w')"

interpretation sys: step_invariant system_next system_ok
  by unfold_locales (auto simp: system_next_def intro: system_step_ok)

interpretation sys_image: step_relation system_next system_ok "\<lambda>w w'. image_kept (sys_kernel w) (sys_kernel w')"
  by unfold_locales (auto simp: system_next_def image_kept_refl dest: system_step_kernel intro: image_kept_trans)

interpretation sys_processes: simulation system_next system_ok spec_step
  "\<lambda>a w. refines a (sys_kernel w) \<and> tables_ok a (sys_kernel w)"
  by unfold_locales (auto simp: system_next_def simulates_def dest!: system_step_kernel)

end
