(* ===== verification/Waiting_Reads.thy ===== *)
theory Waiting_Reads
  imports Multitasking
begin

text \<open>
  What a waiting process gets: the line typed on its own terminal, whatever the other processes and the timer do in the
  meantime, and the ticks of its own clock; and what goes wrong when a line is changed after its end.
\<close>

section \<open>A read in progress\<close>

primrec keys_to :: "term_ptr \<Rightarrow> event list \<Rightarrow> line_key list" where
  "keys_to t [] = []"
| "keys_to t (e # es) =
     (case e of Key u k \<Rightarrow> if u = t \<and> k \<noteq> No_line_key then k # keys_to t es else keys_to t es | _ \<Rightarrow> keys_to t es)"

definition ends_read :: "term_ptr \<Rightarrow> event \<Rightarrow> bool" where
  "ends_read t e \<longleftrightarrow> (case e of End_read u r v \<Rightarrow> u = t | _ \<Rightarrow> False)"

text \<open>While a read is in progress only keys change the line, and only the clock the countdown.\<close>

lemma waits_step:
  assumes "system_step w e w'" and "sys_waits w t = Some r" and "\<not> ends_read t e"
  shows "sys_waits w' t = Some r"
  using assms by (cases rule: system_step.cases) (auto simp: ends_read_def)

lemma line_step:
  assumes "system_step w e w'" and "system_ok w" and "sys_waits w t = Some r" and "\<not> ends_read t e"
  shows "line_at t w' = fold type_key (keys_to t [e]) (line_at t w)"
proof -
  have nb: "e \<noteq> Begin_read t r'" for r'
    using assms(1,3) by (auto elim: system_step.cases)
  have other: "u \<noteq> t \<Longrightarrow> line_event t (Begin_read u r') L = L" "u \<noteq> t \<Longrightarrow> line_event t (End_read u r' v) L = L" for u r' v L
    by (cases r'; simp)+
  have "line_event t e L = fold type_key (keys_to t [e]) L" for L
    using nb assms(4) other by (cases e) (auto simp: ends_read_def)
  then show ?thesis using system_step_line [OF assms(1,2), of t] by simp
qed

lemma keys_to_append: "keys_to t (es @ fs) = keys_to t es @ keys_to t fs"
  by (induction es) (auto split: event.split)

lemma run_waiting:
  assumes "system_run w es w'" and "system_ok w" and "sys_waits w t = Some r" and "\<forall>e\<in>set es. \<not> ends_read t e"
  shows "sys_waits w' t = Some r" and "line_at t w' = fold type_key (keys_to t es) (line_at t w)"
proof -
  have "sys_waits w' t = Some r \<and> line_at t w' = fold type_key (keys_to t es) (line_at t w)"
    using assms
  proof (induction rule: system_run.induct)
    case (run_cons w e w' es w'')
    have "keys_to t (e # es) = keys_to t [e] @ keys_to t es" using keys_to_append [of t "[e]" es] by simp
    then show ?case
      using run_cons waits_step [of w e w'] line_step [of w e w'] system_step_ok [of w e w'] by simp
  qed simp
  then show "sys_waits w' t = Some r" and "line_at t w' = fold type_key (keys_to t es) (line_at t w)" by auto
qed

text \<open>The line of a read that has just begun.\<close>

lemma begin_line:
  assumes "system_step w (Begin_read t (Line_wait buf n)) w'" and "system_ok w"
  shows "line_at t w' = (line_at t w)\<lparr>line_text := [], line_wanted := True\<rparr>"
    and "sys_waits w' t = Some (Line_wait buf n)"
proof -
  have none: "sys_waits w t = None" and w': "sys_waits w' t = Some (Line_wait buf n)"
    using assms(1) by (auto elim: system_step.cases)
  then have "wait_ok None (terminals (sys_kernel w) t)" using assms(2) by (auto simp: system_ok_def dest: spec [of _ t])
  then have "line_text (line_at t w) = []" by (simp add: wait_ok_def line_state_def line_of_def)
  then show "line_at t w' = (line_at t w)\<lparr>line_text := [], line_wanted := True\<rparr>"
    using system_step_line [OF assms, of t] by (cases "line_at t w") simp
  show "sys_waits w' t = Some (Line_wait buf n)" by (rule w')
qed

lemma type_chars:
  assumes "line_wanted L" and "newline \<notin> set xs" and "length (line_text L) + length xs \<le> 128"
  shows "fold type_key (map Char xs) L = L\<lparr>line_text := line_text L @ xs\<rparr>"
  using assms
proof (induction xs arbitrary: L)
  case (Cons x xs)
  then have "type_key (Char x) L = L\<lparr>line_text := line_text L @ [x]\<rparr>" by (auto simp: type_char_def)
  then show ?case using Cons by simp
qed simp

lemma type_line:
  assumes "line_wanted L" and "line_text L = []" and "newline \<notin> set xs" and "length xs \<le> 127"
  shows "fold type_key (map Char xs @ [Char newline]) L = L\<lparr>line_text := xs @ [newline], line_wanted := False\<rparr>"
  using type_chars [OF assms(1,3)] assms by (simp add: type_char_def)

lemma line_typed:
  assumes "system_run w (Begin_read t (Line_wait buf n) # es) w'" and "system_ok w"
    and "\<forall>e\<in>set es. \<not> ends_read t e"
    and "keys_to t es = map Char xs @ [Char newline] @ ks" and "newline \<notin> set xs" and "length xs \<le> 127"
  shows "sys_waits w' t = Some (Line_wait buf n)"
    and "line_at t w' = fold type_key ks ((line_at t w)\<lparr>line_text := xs @ [newline], line_wanted := False\<rparr>)"
    and "system_ok w'"
proof -
  obtain u where u: "system_step w (Begin_read t (Line_wait buf n)) u" and r: "system_run u es w'"
    using assms(1) by (auto simp: system_run_Cons)
  note b = begin_line [OF u assms(2)]
  have ok: "system_ok u" by (rule system_step_ok [OF assms(2) u])
  note rw = run_waiting [OF r ok b(2) assms(3)]
  show "sys_waits w' t = Some (Line_wait buf n)" by (rule rw(1))
  have "fold type_key (map Char xs @ [Char newline]) (line_at t u)
      = (line_at t w)\<lparr>line_text := xs @ [newline], line_wanted := False\<rparr>"
    unfolding b(1) using type_line [of "(line_at t w)\<lparr>line_text := [], line_wanted := True\<rparr>" xs] assms(5,6) by simp
  then show "line_at t w' = fold type_key ks ((line_at t w)\<lparr>line_text := xs @ [newline], line_wanted := False\<rparr>)"
    unfolding rw(2) assms(4) by simp
  show "system_ok w'" by (rule system_run_ok [OF r ok])
qed

section \<open>The end of a read\<close>

lemma program_page_running:
  assumes "kernel_ok s" and "program_mapped s" and "active_pid s \<noteq> 0"
  shows "program_page s"
proof -
  have "active_pid s \<le> 6" using assms(1) running_small by (auto simp: kernel_ok_def refines_def)
  moreover have "dir_index VIRTUAL_ADDRESS_PROGRAM_START = 32" by (simp add: VIRTUAL_ADDRESS_PROGRAM_START_def dir_index_def)
  ultimately show ?thesis using assms by (auto simp: program_page_def program_mapped_def kernel_ok_def keyboard_ok_def video_ok_def)
qed

lemma program_range_mapped:
  assumes "program_page s" and "program_range a n" and "j < n"
  shows "mapped s (a + of_nat j)"
  using xlate_program [OF assms(1)] program_range_dir [OF assms(2,3)] by (auto simp: mapped_def)

lemma view_line_done [simp]: "view (line_done s) = view s"
  by (simp add: line_done_def view_def vload_def fun_eq_iff split: option.split)

lemma end_stepE:
  assumes "system_step w (End_read t r v) w'"
  obtains s where "sys_kernel w = s" and "active_terminal s = t" and "active_pid s \<noteq> 0"
    and "wait_ready r s" and "finish_wait r s = (v, sys_kernel w')"
  using assms by (cases rule: system_step.cases) (auto intro: that simp: prod_eq_iff)

lemma end_line_whole:
  assumes st: "system_step w (End_read t (Line_wait buf n) v) w'" and ok: "system_ok w"
    and line: "line_text (line_at t w) = xs @ [newline]" and nl: "newline \<notin> set xs"
    and fits: "length xs < unat n" and pr: "program_range buf (unat n)"
  shows "v = int (length xs) + 1 \<and> load_bytes (view (sys_kernel w')) buf (length xs + 1) = xs @ [newline]"
proof -
  obtain s where s: "sys_kernel w = s" "active_terminal s = t" "active_pid s \<noteq> 0"
    and f: "finish_line buf n s = (v, sys_kernel w')"
    using end_stepE [OF st] by auto
  have k: "kernel_ok s" "program_mapped s" using ok s(1) by (simp_all add: system_ok_def)
  have pp: "program_page s" by (rule program_page_running [OF k s(3)])
  have lk: "line_ok (terminals s (active_terminal s))" using k(1) by (simp add: kernel_ok_def keyboard_ok_def)
  have lo: "line_of (terminals s (active_terminal s)) = xs @ [newline]"
    using line s by (simp add: line_state_def)
  have m: "\<forall>j<unat n. mapped s (buf + of_nat j)" using program_range_mapped [OF pp pr] by blast
  have e: "(v, sys_kernel w') = (int (length xs) + 1, line_done (vstore_bytes buf (xs @ [newline]) s))"
    using finish_line_whole [OF lk lo nl fits m] f by simp
  have "program_range buf (length (xs @ [newline]))" using pr fits by (simp add: program_range_def)
  from load_vstore_bytes [OF pp this] show ?thesis using e by simp
qed

text \<open>The timer reaches every terminal within three ticks.\<close>

lemma timer_step:
  assumes "refines a (sys_kernel w)"
  shows "\<exists>w'. system_step w Timer w' \<and> refines (spec_tick a) (sys_kernel w')"
proof -
  obtain s' where "after (pit_handler 0 0 (sys_kernel w)) = Some s'" "refines (spec_tick a) s'"
    using pit_handler_refines [OF assms, of 0 0] by blast
  then show ?thesis using system_step.timer [of 0 0 "sys_kernel w" s' "sys_waits w"] by (cases w) force
qed

lemma ticks_refine:
  "refines a (sys_kernel w) \<Longrightarrow> \<exists>w'. system_run w (replicate k Timer) w' \<and> refines ((spec_tick ^^ k) a) (sys_kernel w')"
proof (induction k arbitrary: a w)
  case (Suc k)
  obtain u where u: "system_step w Timer u" "refines (spec_tick a) (sys_kernel u)" using timer_step [OF Suc.prems] by blast
  obtain w' where "system_run u (replicate k Timer) w'" "refines ((spec_tick ^^ k) (spec_tick a)) (sys_kernel w')"
    using Suc.IH [OF u(2)] by blast
  then show ?case using u(1) by (auto simp: funpow_swap1 intro: run_cons)
qed auto

lemma turn_comes:
  assumes "system_ok w"
  shows "\<exists>k\<le>3. \<exists>w'. system_run w (replicate k Timer) w' \<and> active_terminal (sys_kernel w') = t \<and> active_pid (sys_kernel w') \<noteq> 0"
proof -
  obtain a where a: "refines a (sys_kernel w)" using assms by (auto simp: system_ok_def kernel_ok_def)
  have act: "sp_active (spec_tick b) = next_terminal (sp_active b)" for b by (simp add: spec_tick_def Let_def)
  have "\<exists>k. 1 \<le> k \<and> k \<le> 3 \<and> sp_active ((spec_tick ^^ k) a) = t"
  proof -
    have "t \<in> {next_terminal (sp_active a), next_terminal (next_terminal (sp_active a)),
        next_terminal (next_terminal (next_terminal (sp_active a)))}"
      by (cases "sp_active a"; cases t) (simp_all add: next_terminal_def)
    moreover have "sp_active ((spec_tick ^^ 1) a) = next_terminal (sp_active a)"
      "sp_active ((spec_tick ^^ 2) a) = next_terminal (next_terminal (sp_active a))"
      "sp_active ((spec_tick ^^ 3) a) = next_terminal (next_terminal (next_terminal (sp_active a)))"
      by (simp_all add: act numeral_2_eq_2 numeral_3_eq_3)
    ultimately consider "sp_active ((spec_tick ^^ 1) a) = t" | "sp_active ((spec_tick ^^ 2) a) = t" | "sp_active ((spec_tick ^^ 3) a) = t"
      by (metis insertE singletonD)
    then show ?thesis by (metis numeral_le_iff one_le_numeral order_refl semiring_norm(69,71,72))
  qed
  then obtain k where k: "1 \<le> k" "k \<le> 3" "sp_active ((spec_tick ^^ k) a) = t" by blast
  obtain w' where w': "system_run w (replicate k Timer) w'" "refines ((spec_tick ^^ k) a) (sys_kernel w')"
    using ticks_refine [OF a] by blast
  obtain j where "k = Suc j" using k(1) by (cases k) auto
  then have "sp_started ((spec_tick ^^ k) a) t" using k(3) act by (simp add: spec_tick_def Let_def)
  moreover have "spec_ok ((spec_tick ^^ k) a)" using w'(2) by (simp add: refines_def)
  ultimately have "active_pid (sys_kernel w') \<noteq> 0" "active_terminal (sys_kernel w') = t"
    using w'(2) k(3) running_zero by (auto simp: refines_def)
  then show ?thesis using w'(1) k(2) by blast
qed

lemma keys_to_timers [simp]: "keys_to t (replicate k Timer) = []"
  by (induction k) simp_all

lemma ends_timers: "\<forall>e\<in>set (replicate k Timer). \<not> ends_read t e"
  by (auto simp: ends_read_def)

lemma end_possible:
  assumes "sys_waits w t = Some r" and "active_terminal (sys_kernel w) = t" and "active_pid (sys_kernel w) \<noteq> 0"
    and "wait_ready r (sys_kernel w)"
  shows "\<exists>v w'. system_step w (End_read t r v) w'"
  using system_step.end_read [of "sys_kernel w" "sys_waits w" r] assms by (cases w) force

section \<open>The clock\<close>

lemma rtc_handler_count:
  "virtual_count (terminals (rtc_handler s) t)
    = (if 0 < virtual_count (terminals s t) then virtual_count (terminals s t) - 1 else virtual_count (terminals s t))"
  by (cases t) (simp_all add: rtc_handler_def count_down_def Let_def outb_def)

lemma clock_step:
  assumes st: "system_step w e w'" and ok: "system_ok w" and r: "sys_waits w t = Some r" and ne: "\<not> ends_read t e"
  shows "clock_at t w' = (if e = Clock_tick \<and> 0 < clock_at t w then clock_at t w - 1 else clock_at t w)"
  using st
proof (cases rule: system_step.cases)
  case (timer esp ebp s s' W)
  then show ?thesis using read_view_pit [OF timer(4)] by (simp add: read_view_def fun_eq_iff)
next
  case (clock s W)
  then show ?thesis by (simp add: rtc_handler_count)
next
  case (key s W)
  have "keyboard_ok s" using ok key(1) by (simp add: system_ok_def kernel_ok_def)
  then show ?thesis using only_ends_keyboard [of s] key by (simp add: only_ends_def)
next
  case (call s W eax ebx ecx edx esp ebp junk s')
  have "kernel_ok s" using ok call(1) by (simp add: system_ok_def)
  then have "reads_kept s s'" by (rule reads_kept_call [OF _ call(4,7)])
  moreover have "t \<noteq> active_terminal s" using r call(1,5) by auto
  ultimately show ?thesis using call by (simp add: reads_kept_def)
next
  case (store s W va f off b)
  then show ?thesis by simp
next
  case (begin_read s W buf n fd r')
  have "t \<noteq> active_terminal s" using r begin_read(1,5) by auto
  then show ?thesis using begin_read wait_terminals_other(1) by simp
next
  case (end_read s W r')
  have "t \<noteq> active_terminal s" using ne end_read(2) by (auto simp: ends_read_def)
  then show ?thesis using end_read wait_terminals_other(2) by simp
qed

lemma clock_run:
  assumes "system_run w es w'" and "system_ok w" and "sys_waits w t = Some r" and "\<forall>e\<in>set es. \<not> ends_read t e"
    and "0 \<le> clock_at t w"
  shows "clock_at t w' = max 0 (clock_at t w - int (count_list es Clock_tick))"
  using assms
proof (induction rule: system_run.induct)
  case (run_cons w e w' es w'')
  have c: "clock_at t w' = (if e = Clock_tick \<and> 0 < clock_at t w then clock_at t w - 1 else clock_at t w)"
    by (rule clock_step [OF run_cons(1) run_cons(4,5)]) (use run_cons in simp)
  have "clock_at t w'' = max 0 (clock_at t w' - int (count_list es Clock_tick))"
    by (rule run_cons(3)) (use c run_cons waits_step [of w e w'] system_step_ok [of w e w'] in auto)
  then show ?case using c run_cons(7) by auto
qed simp

lemma begin_clock:
  assumes "system_step w (Begin_read t Clock_wait) w'"
  shows "clock_at t w' = c_div (physical_rate (sys_kernel w)) (virtual_rate (terminals (sys_kernel w) t))"
    and "sys_waits w' t = Some Clock_wait"
proof -
  obtain s where s: "sys_kernel w = s" "t = active_terminal s" "sys_kernel w' = rtc_read_start s" "sys_waits w' t = Some Clock_wait"
    using assms by (auto elim: system_step.cases)
  then show "clock_at t w' = c_div (physical_rate (sys_kernel w)) (virtual_rate (terminals (sys_kernel w) t))"
    and "sys_waits w' t = Some Clock_wait"
    by (simp_all add: rtc_read_start_def)
qed

section \<open>A concrete system\<close>

text \<open>
  All three shells run, the first one is active and on the screen, the control key is down or not, and the keyboard
  sends \<open>a\<close> and after the first acknowledged interrupt \<open>b\<close>.
\<close>

definition two_keys :: "byte \<Rightarrow> byte \<Rightarrow> (port \<times> byte) list \<Rightarrow> port \<Rightarrow> byte" where
  "two_keys a b log p = (if (MASTER_8259_PORT, 0x61) \<in> set log then b else a)"

definition running_state :: "u32 \<Rightarrow> byte \<Rightarrow> byte \<Rightarrow> kstate" where
  "running_state c a b = sample_booted
     \<lparr>active_pid := 1, terminals := (\<lambda>t. (terminals sample_booted t)\<lparr>current_process_id := root_pid t\<rparr>),
      ctrl_pressed := c, io_log := [], inb_dev := two_keys a b\<rparr>"

definition running_system :: "u32 \<Rightarrow> byte \<Rightarrow> byte \<Rightarrow> system" where
  "running_system c a b = \<lparr>sys_kernel = running_state c a b, sys_waits = (\<lambda>_. None)\<rparr>"

lemma running_simps [simp]:
  "sys_kernel (running_system c a b) = running_state c a b" "sys_waits (running_system c a b) t = None"
  "active_pid (running_state c a b) = 1" "active_terminal (running_state c a b) = Terminal_1"
  "current_terminal (running_state c a b) = Terminal_1" "ctrl_pressed (running_state c a b) = c"
  "shift_pressed (running_state c a b) = 0" "caps_lock (running_state c a b) = 0"
  "io_log (running_state c a b) = []" "inb_dev (running_state c a b) = two_keys a b"
  by (simp_all add: running_system_def running_state_def sample_booted_def)

lemma running_refines:
  "refines \<lparr>sp_active = Terminal_1, sp_started = (\<lambda>_. True), sp_kids = (\<lambda>_. [])\<rparr> (running_state c a b)"
proof -
  have "linked f [p]" for f and p :: u32 by simp
  then show ?thesis
    using sample_booted_refines
    by (auto simp: refines_def spec_boot_def sp_running_def sp_chain_def sp_all_def spec_ok_def running_state_def
        pool_of_def root_pid_def pcb_of_def)
qed

lemma running_ok: "system_ok (running_system c a b)"
proof -
  let ?s = "running_state c a b"
  let ?a = "\<lparr>sp_active = Terminal_1, sp_started = (\<lambda>_. True), sp_kids = (\<lambda>_. [])\<rparr>"
  have "keyboard_ok sample_booted" using sample_booted_ok by (simp add: kernel_ok_def)
  moreover have "screen_view ?s = screen_view sample_booted"
    by (simp add: running_state_def screen_view_def term_core_def)
  ultimately have k: "keyboard_ok ?s" using keyboard_ok_view by blast
  have "fd_table_ok (pcb_of p ?s)" for p
    using table_init_ok [of empty_pcb] by (simp add: running_state_def sample_booted_def pcb_of_def fd_table_ok_def)
  then have "tables_ok ?a ?s" by (simp add: tables_ok_def)
  then have ko: "kernel_ok ?s" using k running_refines by (auto simp: kernel_ok_def)
  have "dir_index VIRTUAL_ADDRESS_PROGRAM_START = 32" by (simp add: VIRTUAL_ADDRESS_PROGRAM_START_def dir_index_def)
  then have "program_mapped ?s"
    by (simp add: program_mapped_def running_state_def sample_booted_def ready_state_def set_user_page_def)
  moreover have "keyboard_buffer_enable (terminals ?s t) = 0 \<and> keyboard_buffer_size (terminals ?s t) = 0" for t
    by (simp add: running_state_def sample_booted_def ready_state_def keyboard_init_terminals)
  ultimately show ?thesis using ko by (simp add: system_ok_def wait_ok_def)
qed

text \<open>Its first shell begins to read a line, two keys are typed, and the timer ticks any number of times.\<close>

lemma running_reads:
  assumes "unat n \<le> 1024" and "n \<noteq> 0"
  shows "system_step (running_system c a b) (Begin_read Terminal_1 (Line_wait 0x08048000 n))
    \<lparr>sys_kernel = start_line (running_state c a b), sys_waits = (\<lambda>_. None)(Terminal_1 := Some (Line_wait 0x08048000 n))\<rparr>"
proof -
  let ?s = "running_state c a b"
  have "file_ops (file_descriptor_array (pcb_of (active_pid ?s) ?s) ! 0) = Ops_stdin"
    by (simp add: running_state_def sample_booted_def pcb_of_def file_descriptor_table_init_def MAX_NUM_FILES_def init_fd_def)
  then have r: "read_wait 0 0x08048000 n ?s = Some (Line_wait 0x08048000 n)"
    using assms(2) by (simp add: read_wait_def MAX_NUM_FILES_def)
  have "user_range 0x08048000 (unat n)" using assms(1) by (simp add: user_range_def)
  from system_step.begin_read [of ?s "\<lambda>_. None", OF _ _ this r] show ?thesis by (simp add: running_system_def)
qed

interpretation devices: kernel_view inb_dev
  by unfold_locales simp_all

definition modifiers where
  "modifiers s = (current_terminal s, ctrl_pressed s, shift_pressed s, caps_lock s)"

interpretation mods: output_view modifiers
  by unfold_locales (simp_all add: modifiers_def)

lemma modifiers_upd_terminal [simp]: "modifiers (upd_terminal t f s) = modifiers s"
  by (simp add: modifiers_def)

lemma modifiers_key:
  assumes "char_code (inb 0x60 s)"
  shows "modifiers (keyboard_handler s) = modifiers s"
  by (simp add: keyboard_handler_def keyboard_input_char [OF assms] character_key_def Let_def)

lemma key_meaning_modifiers: "modifiers s' = modifiers s \<Longrightarrow> key_meaning i s' = key_meaning i s"
  by (simp add: modifiers_def key_meaning_def)

lemma running_keys:
  assumes "char_code a"
  shows "\<exists>w'. system_run \<lparr>sys_kernel = start_line (running_state c a b), sys_waits = W\<rparr>
    [Key Terminal_1 (key_meaning a (running_state c a b)), Key Terminal_1 (key_meaning b (running_state c a b))] w'"
proof -
  let ?s = "start_line (running_state c a b)"
  have m: "modifiers ?s = modifiers (running_state c a b)" by (simp add: start_line_def)
  have 1: "inb 0x60 ?s = a" by (simp add: inb_def start_line_def two_keys_def)
  let ?u = "keyboard_handler ?s"
  have mu: "modifiers ?u = modifiers ?s" by (rule modifiers_key) (simp add: 1 assms)
  have "inb_dev ?u = two_keys a b" by (simp add: start_line_def)
  moreover have "(MASTER_8259_PORT, 0x61) \<in> set (io_log ?u)" by (simp add: keyboard_handler_def send_eoi_commands)
  ultimately have 2: "inb 0x60 ?u = b" by (simp add: inb_def two_keys_def)
  have ct: "current_terminal ?s = Terminal_1" "current_terminal ?u = Terminal_1"
    using m mu by (simp_all add: modifiers_def)
  have "system_step \<lparr>sys_kernel = ?s, sys_waits = W\<rparr> (Key Terminal_1 (key_meaning a (running_state c a b)))
      \<lparr>sys_kernel = ?u, sys_waits = W\<rparr>"
    using system_step.key [of ?s W] by (simp add: 1 ct key_meaning_modifiers [OF m])
  moreover have "system_step \<lparr>sys_kernel = ?u, sys_waits = W\<rparr> (Key Terminal_1 (key_meaning b (running_state c a b)))
      \<lparr>sys_kernel = keyboard_handler ?u, sys_waits = W\<rparr>"
    using system_step.key [of ?u W] by (simp add: 2 ct key_meaning_modifiers [OF mu [unfolded m]])
  ultimately show ?thesis by (intro exI) (rule run_cons | assumption | rule run_nil)+
qed

lemma running_run:
  assumes "char_code a" and "unat n \<le> 1024" and "n \<noteq> 0"
  shows "\<exists>w'. system_run (running_system c a b) (Begin_read Terminal_1 (Line_wait 0x08048000 n)
    # [Key Terminal_1 (key_meaning a (running_state c a b)), Key Terminal_1 (key_meaning b (running_state c a b))]) w'"
  using running_keys [OF assms(1)] running_reads [OF assms(2,3)] run_cons by blast

section \<open>The ends of waiting reads\<close>

lemma line_end_reached:
  assumes "system_ok w" and "sys_waits w t = Some (Line_wait buf n)" and "\<not> line_wanted (line_at t w)"
  shows "\<exists>k\<le>3. \<exists>u v w'. system_run w (replicate k Timer) u \<and> system_ok u \<and> line_at t u = line_at t w
    \<and> system_step u (End_read t (Line_wait buf n) v) w'"
proof -
  obtain k u where k: "k \<le> 3" "system_run w (replicate k Timer) u" "active_terminal (sys_kernel u) = t" "active_pid (sys_kernel u) \<noteq> 0"
    using turn_comes [OF assms(1)] by blast
  note rw = run_waiting [OF k(2) assms(1,2) ends_timers]
  have l: "line_at t u = line_at t w" using rw(2) by simp
  have "wait_ready (Line_wait buf n) (sys_kernel u)"
    using assms(3) l k(3) by (simp add: line_ready_def line_state_def)
  then show ?thesis using end_possible [OF rw(1) k(3,4)] k(1,2) l system_run_ok [OF k(2) assms(1)] by blast
qed

lemma clock_end_reached:
  assumes "system_ok w" and "sys_waits w t = Some Clock_wait" and "clock_at t w = 0"
  shows "\<exists>k\<le>3. \<exists>u w'. system_run w (replicate k Timer) u \<and> system_step u (End_read t Clock_wait 0) w'"
proof -
  obtain k u where k: "k \<le> 3" "system_run w (replicate k Timer) u" "active_terminal (sys_kernel u) = t" "active_pid (sys_kernel u) \<noteq> 0"
    using turn_comes [OF assms(1)] by blast
  note rw = run_waiting [OF k(2) assms(1,2) ends_timers]
  have "clock_at t u = 0" using clock_run [OF k(2) assms(1,2) ends_timers] assms(3) by simp
  then have r: "wait_ready Clock_wait (sys_kernel u)" using k(3) by simp
  obtain v w' where e: "system_step u (End_read t Clock_wait v) w'" using end_possible [OF rw(1) k(3,4) r] by blast
  then have "v = 0" by (rule end_stepE) simp
  then show ?thesis using e k(1,2) by blast
qed

text \<open>Backspace after Enter takes the newline away; the read then puts it over the last character.\<close>

lemma late_backspace_cuts_line:
  assumes "system_run w (Begin_read t (Line_wait buf n) # es) w'" and "system_ok w"
    and "\<forall>e\<in>set es. \<not> ends_read t e"
    and "keys_to t es = map Char xs @ [Char newline, Backspace]" and "newline \<notin> set xs" and "length xs \<le> 127"
    and "line_excess (line_at t w) = 0" and "xs \<noteq> []" and "length xs \<le> unat n" and pr: "program_range buf (unat n)"
    and "system_step w' (End_read t (Line_wait buf n) v) u"
  shows "v = int (length xs) \<and> view (sys_kernel u) (buf + (of_nat (length xs) - 1)) = newline"
proof -
  have keys: "keys_to t es = map Char xs @ [Char newline] @ [Backspace]" using assms(4) by simp
  note lt = line_typed [OF assms(1-3) keys assms(5,6)]
  obtain s where s: "sys_kernel w' = s" "active_terminal s = t" "active_pid s \<noteq> 0"
    and f: "finish_line buf n s = (v, sys_kernel u)"
    using end_stepE [OF assms(11)] by auto
  have k: "kernel_ok s" "program_mapped s" using lt(3) s(1) by (simp_all add: system_ok_def)
  have pp: "program_page s" by (rule program_page_running [OF k s(3)])
  have lk: "line_ok (terminals s (active_terminal s))" using k(1) by (simp add: kernel_ok_def keyboard_ok_def)
  have lo: "line_of (terminals s (active_terminal s)) = xs"
    using lt(2) s assms(7) by (simp add: line_state_def)
  have m: "\<forall>j<unat n. mapped s (buf + of_nat j)" using program_range_mapped [OF pp pr] by blast
  let ?l = "buf + (of_nat (length xs) - 1)" and ?s = "vstore_bytes buf xs s"
  have e: "(v, sys_kernel u) = (int (length xs), line_done (vstore ?l newline ?s))"
    using finish_line_cut [OF lk _ _ m] lo f assms(5,9) by simp
  have "of_nat (length xs) - 1 = (of_nat (length xs - 1) :: u32)" using assms(8) by (cases xs) simp_all
  moreover have "length xs - 1 < unat n" using assms(8,9) by (cases xs) simp_all
  ultimately have "dir_index ?l = 32" using program_range_dir [OF pr, of "length xs - 1"] by simp
  moreover have "program_page ?s" using pp program_page_pages [of ?s s] by simp
  ultimately show ?thesis using e view_vstore [of ?s ?l ?l newline] by simp
qed

section \<open>Properties\<close>

text \<open>C9: What is typed is what is read, with other processes running. A process of terminal \<open>t\<close> begins to read a line. Then anything happens: timer ticks, clock interrupts, switches of the screen, keys for other terminals, system calls, stores and reads of the other processes; among it up to 127 characters and Enter are typed on \<open>t\<close>, at any times. After that the read ends within three ticks of the timer, and whenever it ends its result is the number of characters with the newline, and the buffer in the process's memory holds exactly these characters.\<close>

theorem typed_line_is_delivered:
  assumes "system_run w (Begin_read t (Line_wait buf n) # es) w'" and "system_ok w"
    and "\<forall>e\<in>set es. \<not> ends_read t e"
    and "keys_to t es = map Char xs @ [Char newline]" and "newline \<notin> set xs" and "length xs \<le> 127"
    and "length xs < unat n" and "program_range buf (unat n)"
  shows "(\<forall>v u. system_step w' (End_read t (Line_wait buf n) v) u
      \<longrightarrow> v = int (length xs) + 1 \<and> load_bytes (view (sys_kernel u)) buf (length xs + 1) = xs @ [newline])
    \<and> (\<exists>k\<le>3. \<exists>u u'. system_run w' (replicate k Timer) u
        \<and> system_step u (End_read t (Line_wait buf n) (int (length xs) + 1)) u'
        \<and> load_bytes (view (sys_kernel u')) buf (length xs + 1) = xs @ [newline])"
proof -
  have keys: "keys_to t es = map Char xs @ [Char newline] @ []" using assms(4) by simp
  note lt = line_typed [OF assms(1-3) keys assms(5,6)]
  have line: "line_text (line_at t w') = xs @ [newline]" "\<not> line_wanted (line_at t w')" using lt(2) by simp_all
  note ends = end_line_whole [OF _ _ _ assms(5,7,8)]
  obtain k u v u' where k: "k \<le> 3" "system_run w' (replicate k Timer) u" "system_ok u" "line_at t u = line_at t w'"
    "system_step u (End_read t (Line_wait buf n) v) u'"
    using line_end_reached [OF lt(3,1) line(2)] by blast
  have "v = int (length xs) + 1 \<and> load_bytes (view (sys_kernel u')) buf (length xs + 1) = xs @ [newline]"
    by (rule ends [OF k(5,3)]) (simp add: k(4) line(1))
  then show ?thesis using ends [OF _ lt(3) line(1)] k by blast
qed

theorem typed_line_is_delivered_witness:
  "\<exists>w' k u u'. system_run w' (replicate k Timer) u \<and> k \<le> 3
    \<and> system_step u (End_read Terminal_1 (Line_wait 0x08048000 4) 2) u'
    \<and> load_bytes (view (sys_kernel u')) 0x08048000 2 = [104, newline]"
proof -
  have m: "key_meaning 0x23 (running_state 0 0x23 0x1C) = Char 104" "key_meaning 0x1C (running_state 0 0x23 0x1C) = Char newline"
    by (simp_all add: key_meaning_def char_code_def scancode_def scancode_plain_def chars_def)
  obtain w' where w': "system_run (running_system 0 0x23 0x1C) (Begin_read Terminal_1 (Line_wait 0x08048000 4)
      # [Key Terminal_1 (Char 104), Key Terminal_1 (Char newline)]) w'"
    using running_run [of "0x23" 4 0 "0x1C"] by (auto simp: char_code_def m)
  have pr: "program_range 0x08048000 (unat (4 :: u32))" by (simp add: program_range_def)
  have ne: "\<forall>e\<in>set [Key Terminal_1 (Char 104), Key Terminal_1 (Char newline)]. \<not> ends_read Terminal_1 e"
    by (simp add: ends_read_def)
  have ks: "keys_to Terminal_1 [Key Terminal_1 (Char 104), Key Terminal_1 (Char newline)] = map Char [104] @ [Char newline]"
    by simp
  from typed_line_is_delivered [OF w' running_ok ne ks _ _ _ pr] obtain k u u'
    where "k \<le> 3" "system_run w' (replicate k Timer) u"
      "system_step u (End_read Terminal_1 (Line_wait 0x08048000 4) (int (length [104 :: byte]) + 1)) u'"
      "load_bytes (view (sys_kernel u')) 0x08048000 (length [104 :: byte] + 1) = [104] @ [newline]"
    by auto
  then show ?thesis by (intro exI [of _ w'] exI [of _ k] exI [of _ u] exI [of _ u']) (simp add: eval_nat_numeral)
qed

text \<open>C33: A read of the clock waits for its own period and no longer, with other processes running. After a process of terminal \<open>t\<close> has begun to read the clock with virtual rate \<open>v\<close>, its countdown is \<open>physical_rate / v\<close> less the clock interrupts since then, whatever else happened; so the read cannot end before that many interrupts, and once they have come it ends with 0 within three ticks of the timer.\<close>

theorem clock_read_waits_its_period:
  assumes "system_run w (Begin_read t Clock_wait # es) w'" and "system_ok w" and "\<forall>e\<in>set es. \<not> ends_read t e"
    and "0 \<le> physical_rate (sys_kernel w)" and "0 < virtual_rate (terminals (sys_kernel w) t)"
    and "period = physical_rate (sys_kernel w) div virtual_rate (terminals (sys_kernel w) t)"
  shows "virtual_count (terminals (sys_kernel w') t) = max 0 (period - int (count_list es Clock_tick))
    \<and> (\<forall>v u. system_step w' (End_read t Clock_wait v) u \<longrightarrow> v = 0 \<and> period \<le> int (count_list es Clock_tick))
    \<and> (period \<le> int (count_list es Clock_tick) \<longrightarrow> (\<exists>k\<le>3. \<exists>u u'. system_run w' (replicate k Timer) u
        \<and> system_step u (End_read t Clock_wait 0) u'))"
proof -
  obtain u where u: "system_step w (Begin_read t Clock_wait) u" and r: "system_run u es w'"
    using assms(1) by (auto simp: system_run_Cons)
  have "c_div (physical_rate (sys_kernel w)) (virtual_rate (terminals (sys_kernel w) t)) = period"
    using assms(4-6) by (cases "physical_rate (sys_kernel w) = 0") (auto simp: c_div_def)
  then have c: "clock_at t u = period" using begin_clock(1) [OF u] by simp
  have p: "0 \<le> clock_at t u" unfolding c using assms(4-6) by (simp add: pos_imp_zdiv_nonneg_iff)
  have ok: "system_ok u" by (rule system_step_ok [OF assms(2) u])
  have ok': "system_ok w'" by (rule system_run_ok [OF r ok])
  note run = clock_run [OF r ok begin_clock(2) [OF u] assms(3) p]
    run_waiting(1) [OF r ok begin_clock(2) [OF u] assms(3)]
  have e: "v = 0 \<and> clock_at t w' = 0" if "system_step w' (End_read t Clock_wait v) x" for v x
    by (rule end_stepE [OF that]) auto
  have "clock_at t w' = 0 \<longrightarrow> (\<exists>k\<le>3. \<exists>u u'. system_run w' (replicate k Timer) u \<and> system_step u (End_read t Clock_wait 0) u')"
    using clock_end_reached [OF ok' run(2)] by blast
  moreover have "clock_at t w' = 0 \<longleftrightarrow> period \<le> int (count_list es Clock_tick)" using run(1) c by auto
  ultimately show ?thesis using run(1) c e by metis
qed

definition clock_state :: kstate where
  "clock_state = upd_pcb 1 (\<lambda>p. p\<lparr>file_descriptor_array := (file_descriptor_array p)
     [2 := \<lparr>file_ops = Ops_rtc, inode = 0, file_pos = 0, flags = 1\<rparr>]\<rparr>) (running_state 0 0 0)"

lemma clock_state_ok: "system_ok \<lparr>sys_kernel = clock_state, sys_waits = (\<lambda>_. None)\<rparr>"
proof -
  let ?f = "\<lambda>p. p\<lparr>file_descriptor_array := (file_descriptor_array p)[2 := \<lparr>file_ops = Ops_rtc, inode = 0, file_pos = 0, flags = 1\<rparr>]\<rparr>"
  let ?s = "running_state 0 0 0"
  have k: "kernel_ok ?s" "program_mapped ?s" and w: "\<And>t. wait_ok None (terminals ?s t)"
    using running_ok [of 0 0 0] by (simp_all add: system_ok_def)
  have "simulates ?s clock_state"
    unfolding clock_state_def
    by (rule simulates_upd_pcb [OF _ refl]) (auto simp: proc_view_upd_pcb intro: table_update_ok)
  moreover have "keyboard_ok clock_state"
    using k(1) keyboard_ok_view [of clock_state ?s] by (simp add: kernel_ok_def clock_state_def)
  ultimately have "kernel_ok clock_state" by (intro kernel_okI [OF k(1)])
  moreover have "program_mapped clock_state"
    using k(2) program_mapped_view [of clock_state ?s] by (simp add: clock_state_def)
  ultimately show ?thesis using w by (simp add: system_ok_def clock_state_def)
qed

lemma clock_ticks_run: "\<exists>w'. system_run w (replicate n Clock_tick) w'"
proof (induction n arbitrary: w)
  case (Suc n)
  have "\<exists>u. system_step w Clock_tick u" using system_step.clock [of "sys_kernel w" "sys_waits w"] by (cases w) force
  then show ?case using Suc.IH run_cons by (metis replicate_Suc)
qed (auto intro: run_nil)

theorem clock_read_waits_its_period_witness:
  "\<exists>w w' k u u'. system_run w (Begin_read Terminal_1 Clock_wait # replicate 512 Clock_tick) w'
    \<and> k \<le> 3 \<and> system_run w' (replicate k Timer) u \<and> system_step u (End_read Terminal_1 Clock_wait 0) u'"
proof -
  let ?w = "\<lparr>sys_kernel = clock_state, sys_waits = (\<lambda>_. None)\<rparr>"
  let ?es = "replicate 512 Clock_tick"
  have c: "active_pid clock_state = 1" "active_terminal clock_state = Terminal_1"
    by (simp_all add: clock_state_def)
  have "file_ops (file_descriptor_array (pcb_of 1 clock_state) ! 2) = Ops_rtc"
    by (simp add: clock_state_def running_state_def sample_booted_def upd_pcb_def pcb_of_def file_descriptor_table_init_def MAX_NUM_FILES_def)
  then have rw: "read_wait 2 0x08048000 4 clock_state = Some Clock_wait" by (simp add: read_wait_def MAX_NUM_FILES_def c)
  have ur: "user_range 0x08048000 (unat (4 :: u32))" by (simp add: user_range_def)
  obtain w1 where b: "system_step ?w (Begin_read Terminal_1 Clock_wait) w1"
    using system_step.begin_read [of clock_state "\<lambda>_. None", OF _ _ ur rw] c by auto
  obtain w' where r: "system_run ?w (Begin_read Terminal_1 Clock_wait # ?es) w'"
    using run_cons [OF b] clock_ticks_run by blast
  have v: "physical_rate (sys_kernel ?w) = 1024" "virtual_rate (terminals (sys_kernel ?w) Terminal_1) = 2"
    by (simp_all add: clock_state_def running_state_def sample_booted_def ready_state_def keyboard_init_terminals upd_pcb_def)
      (simp_all add: keyboard_init_def init_terminal_def enable_irq_def outb_def Let_def sample_state_def static_state_def)
  have ne: "\<forall>e\<in>set ?es. \<not> ends_read Terminal_1 e" by (auto simp: ends_read_def)
  have cnt: "count_list (replicate n Clock_tick) Clock_tick = n" for n by (induction n) simp_all
  have "512 = physical_rate (sys_kernel ?w) div virtual_rate (terminals (sys_kernel ?w) Terminal_1)" using v by simp
  from clock_read_waits_its_period [OF r clock_state_ok ne _ _ this] v cnt [of 512] obtain k u u'
    where "k \<le> 3" "system_run w' (replicate k Timer) u" "system_step u (End_read Terminal_1 Clock_wait 0) u'"
    by auto
  then show ?thesis using r by blast
qed

text \<open>C11: A finished line is not protected until the process takes it. When the control key and L are pressed on terminal \<open>t\<close> after Enter, before the waiting process has had its turn, the line is emptied: the read returns 0 instead of the line, and it has stored a newline into the byte before the caller's buffer.\<close>

theorem late_clear_writes_before_buffer:
  assumes "system_run w (Begin_read t (Line_wait buf n) # es) w'" and "system_ok w"
    and "\<forall>e\<in>set es. \<not> ends_read t e"
    and "keys_to t es = map Char xs @ [Char newline, Clear_line]" and "newline \<notin> set xs" and "length xs \<le> 127"
    and "system_step w' (End_read t (Line_wait buf n) v) u" and "program_range (buf - 1) (unat n + 1)"
  shows "v = 0 \<and> view (sys_kernel u) (buf - 1) = newline"
proof -
  have keys: "keys_to t es = map Char xs @ [Char newline] @ [Clear_line]" using assms(4) by simp
  note lt = line_typed [OF assms(1-3) keys assms(5,6)]
  obtain s where s: "sys_kernel w' = s" "active_terminal s = t" "active_pid s \<noteq> 0"
    and f: "finish_line buf n s = (v, sys_kernel u)"
    using end_stepE [OF assms(7)] by auto
  have k: "kernel_ok s" "program_mapped s" using lt(3) s(1) by (simp_all add: system_ok_def)
  have pp: "program_page s" by (rule program_page_running [OF k s(3)])
  have lk: "line_ok (terminals s (active_terminal s))" using k(1) by (simp add: kernel_ok_def keyboard_ok_def)
  have lo: "line_of (terminals s (active_terminal s)) = []"
    using lt(2) s by (simp add: line_state_def)
  have "unat (- 1 :: u32) = 4294967295" by (simp add: unsigned_minus_1_eq_mask mask_eq_exp_minus_1)
  then have "buf \<noteq> 0" using assms(8) by (auto simp: program_range_def)
  then have "unat buf = unat (buf - 1) + 1" using unat_diff_1 [of buf] by (simp add: unat_gt_0)
  then have "program_range buf (unat n)" using assms(8) by (simp add: program_range_def)
  then have m: "\<forall>j<unat n. mapped s (buf + of_nat j)" using program_range_mapped [OF pp] by blast
  have e: "(v, sys_kernel u) = (0, line_done (vstore (buf + (of_nat 0 - 1)) newline s))"
    using finish_line_cut [OF lk _ _ m] lo f by simp
  have "dir_index (buf - 1) = 32" using program_range_dir [OF assms(8), of 0] by simp
  then show ?thesis using e view_vstore [OF pp, of "buf - 1" "buf - 1" newline] by simp
qed

theorem late_clear_writes_before_buffer_witness:
  "\<exists>w' u. system_step w' (End_read Terminal_1 (Line_wait 0x08048000 4) 0) u \<and> view (sys_kernel u) 0x08047FFF = newline"
proof -
  have m: "key_meaning 0x1C (running_state 1 0x1C 0x26) = Char newline" "key_meaning 0x26 (running_state 1 0x1C 0x26) = Clear_line"
    by (simp_all add: key_meaning_def char_code_def scancode_def scancode_plain_def chars_def)
  let ?es = "[Key Terminal_1 (Char newline), Key Terminal_1 Clear_line]"
  let ?b = "Begin_read Terminal_1 (Line_wait 0x08048000 4)"
  obtain w1 where w1: "system_run (running_system 1 0x1C 0x26) (?b # ?es) w1"
    using running_run [of "0x1C" 4 1 "0x26"] by (auto simp: char_code_def m)
  have ne: "\<forall>e\<in>set ?es. \<not> ends_read Terminal_1 e" by (simp add: ends_read_def)
  have ks: "keys_to Terminal_1 ?es = map Char [] @ [Char newline, Clear_line]" by simp
  have ks': "keys_to Terminal_1 ?es = map Char [] @ [Char newline] @ [Clear_line]" by simp
  note lt = line_typed [OF w1 running_ok ne ks', simplified]
  obtain k w' v u where e: "system_run w1 (replicate k Timer) w'" "system_step w' (End_read Terminal_1 (Line_wait 0x08048000 4) v) u"
    using line_end_reached [OF lt(3,1)] lt(2) by auto
  have run: "system_run (running_system 1 0x1C 0x26) (?b # (?es @ replicate k Timer)) w'"
    using w1 e(1) system_run_append [of _ "?b # ?es" "replicate k Timer" w'] by auto
  have ne': "\<forall>e\<in>set (?es @ replicate k Timer). \<not> ends_read Terminal_1 e" using ne ends_timers by auto
  have ks2: "keys_to Terminal_1 (?es @ replicate k Timer) = map Char [] @ [Char newline, Clear_line]"
    using ks by (simp add: keys_to_append del: append.simps)
  have pr: "program_range (0x08048000 - 1) (unat (4 :: u32) + 1)" by (simp add: program_range_def)
  from late_clear_writes_before_buffer [OF run running_ok ne' ks2 _ _ e(2) pr] show ?thesis using e(2) by auto
qed

text \<open>C10: The lines of the terminals in every execution. Whatever the interleaving, the line buffer of terminal \<open>t\<close> is the one that the abstract editor computes from the events of \<open>t\<close> alone: the keys typed while \<open>t\<close> is on the screen and the beginnings and ends of its own process's reads. Ticks, interrupts, system calls, stores and everything on other terminals leave it as it is.\<close>

theorem lines_refine_editor:
  assumes "system_run w es w'" and "system_ok w"
  shows "line_state (terminals (sys_kernel w') t) = fold (line_event t) es (line_state (terminals (sys_kernel w) t))
    \<and> system_ok w'"
  using system_run_line [OF assms] system_run_ok [OF assms] by blast

theorem lines_refine_editor_witness:
  "\<exists>w'. line_text (line_at Terminal_1 w') = [104, newline] \<and> line_text (line_at Terminal_2 w') = []"
proof -
  have m: "key_meaning 0x23 (running_state 0 0x23 0x1C) = Char 104" "key_meaning 0x1C (running_state 0 0x23 0x1C) = Char newline"
    by (simp_all add: key_meaning_def char_code_def scancode_def scancode_plain_def chars_def)
  obtain w' where w': "system_run (running_system 0 0x23 0x1C) (Begin_read Terminal_1 (Line_wait 0x08048000 4)
      # [Key Terminal_1 (Char 104), Key Terminal_1 (Char newline)]) w'"
    using running_run [of "0x23" 4 0 "0x1C"] by (auto simp: char_code_def m)
  have "line_text (line_at t (running_system 0 0x23 0x1C)) = []" for t
    using running_ok [of 0 "0x23" "0x1C"] by (simp add: system_ok_def wait_ok_def line_state_def line_of_def)
  then show ?thesis
    using lines_refine_editor [OF w' running_ok, of Terminal_1] lines_refine_editor [OF w' running_ok, of Terminal_2]
    by (intro exI [of _ w']) (simp add: type_char_def)
qed

end
