(* ===== verification/System_Isolation.thy ===== *)
theory System_Isolation
  imports Waiting_Reads
begin

text \<open>
  The guarantees of the kernel for every execution of the whole system, in which processes wait and the timer
  switches between them inside their waiting calls: isolation, refinement of the process trees, the file system
  image, and the bounds of the process table. The executions of \<open>kernel_step\<close>, where a waiting call is one step,
  are among these.
\<close>

section \<open>Calls in one step\<close>

lemma device_run:
  assumes "h \<in> device_handlers"
  shows "\<exists>e. system_step \<lparr>sys_kernel = s, sys_waits = W\<rparr> e \<lparr>sys_kernel = h s, sys_waits = W\<rparr>"
  using assms system_step.key [of s W] system_step.clock [of s W] by (auto simp: device_handlers_def)

lemma spin_run:
  "spin_until c hs s = Some s' \<Longrightarrow> set hs \<subseteq> device_handlers
    \<Longrightarrow> (\<exists>es. system_run \<lparr>sys_kernel = s, sys_waits = W\<rparr> es \<lparr>sys_kernel = s', sys_waits = W\<rparr>) \<and> c s'"
proof (induction hs arbitrary: s)
  case Nil
  then show ?case by (auto intro: run_nil split: if_splits)
next
  case (Cons h hs)
  show ?case
  proof (cases "c s")
    case True
    then show ?thesis using Cons.prems(1) by (auto intro: run_nil)
  next
    case False
    then have s: "spin_until c hs (h s) = Some s'" "set hs \<subseteq> device_handlers" "h \<in> device_handlers"
      using Cons.prems by simp_all
    obtain e where "system_step \<lparr>sys_kernel = s, sys_waits = W\<rparr> e \<lparr>sys_kernel = h s, sys_waits = W\<rparr>"
      using device_run [OF s(3)] by blast
    then show ?thesis using Cons.IH [OF s(1,2)] by (auto intro: run_cons)
  qed
qed

lemma read_without_wait:
  "read_wait fd buf n s = None \<Longrightarrow> syscall_read es fd buf n s = syscall_read [] fd buf n s"
  by (auto simp: read_wait_def syscall_read_def file_descriptor_table_read_def terminal_read_parts Let_def
      split: if_splits file_ops_ptr.splits)

lemma waiting_call_run:
  assumes p: "active_pid s \<noteq> 0" and hs: "set hs \<subseteq> device_handlers" and ur: "user_range buf (unat n)"
    and r: "read_wait fd buf n s = Some r" and c: "after (syscall_read hs fd buf n s) = Some s'"
  shows "\<exists>es. system_run \<lparr>sys_kernel = s, sys_waits = (\<lambda>_. None)\<rparr> es \<lparr>sys_kernel = s', sys_waits = (\<lambda>_. None)\<rparr>"
proof -
  let ?t = "active_terminal s"
  let ?W = "(\<lambda>_. None)(?t := Some r)"
  obtain u where u: "spin_until (wait_ready r) hs (start_wait r s) = Some u" and s': "s' = snd (finish_wait r u)"
    using c by (auto simp: syscall_read_parts [OF r] as_outcome_def after_def split: option.splits prod.splits)
  have b: "system_step \<lparr>sys_kernel = s, sys_waits = (\<lambda>_. None)\<rparr> (Begin_read ?t r) \<lparr>sys_kernel = start_wait r s, sys_waits = ?W\<rparr>"
    using system_step.begin_read [OF p _ ur r, of "\<lambda>_. None"] by simp
  obtain es where es: "system_run \<lparr>sys_kernel = start_wait r s, sys_waits = ?W\<rparr> es \<lparr>sys_kernel = u, sys_waits = ?W\<rparr>"
    and rd: "wait_ready r u" using spin_run [OF u hs] by blast
  have "proc_view u = proc_view s" using proc.obs_spin [OF u hs] start_wait_view(3) by simp
  then have a: "active_pid u = active_pid s" "active_terminal u = ?t" by (simp_all add: proc_view_def)
  then have "system_step \<lparr>sys_kernel = u, sys_waits = ?W\<rparr> (End_read ?t r (fst (finish_wait r u)))
      \<lparr>sys_kernel = s', sys_waits = (\<lambda>_. None)\<rparr>"
    using system_step.end_read [of u ?W r] p rd s' by (simp add: fun_upd_idem)
  then have "system_run \<lparr>sys_kernel = u, sys_waits = ?W\<rparr> [End_read ?t r (fst (finish_wait r u))]
      \<lparr>sys_kernel = s', sys_waits = (\<lambda>_. None)\<rparr>"
    by (auto intro: run_cons run_nil)
  then have "system_run \<lparr>sys_kernel = start_wait r s, sys_waits = ?W\<rparr> (es @ [End_read ?t r (fst (finish_wait r u))])
      \<lparr>sys_kernel = s', sys_waits = (\<lambda>_. None)\<rparr>"
    using es by (auto simp: system_run_append)
  then show ?thesis using run_cons [OF b] by blast
qed

lemma kernel_step_run:
  assumes "kernel_step s s'"
  shows "\<exists>es. system_run \<lparr>sys_kernel = s, sys_waits = (\<lambda>_. None)\<rparr> es \<lparr>sys_kernel = s', sys_waits = (\<lambda>_. None)\<rparr>"
proof -
  have one: "\<exists>es. system_run w es w'" if "system_step w e w'" for w e w'
    using that by (auto intro: run_cons run_nil)
  show ?thesis
    using assms
  proof cases
    case (timer esp ebp)
    then show ?thesis using one [OF system_step.timer] by blast
  next
    case (device h)
    then show ?thesis using device_run one by blast
  next
    case (call hs eax ebx ecx edx esp ebp junk)
    show ?thesis
    proof (cases "eax = 3 \<and> read_wait ebx ecx edx s \<noteq> None")
      case True
      then have "user_range ecx (unat edx)" "after (syscall_read hs ebx ecx edx s) = Some s'"
        using call by (simp_all add: user_buffers_def syscall_dispatch_def)
      then show ?thesis using waiting_call_run [OF call(1,2)] True by auto
    next
      case False
      then have "syscall_dispatch hs esp ebp junk eax ebx ecx edx s = syscall_dispatch [] esp ebp junk eax ebx ecx edx s"
        using read_without_wait [of ebx ecx edx s hs] by (simp add: syscall_dispatch_def)
      then show ?thesis using one [OF system_step.call [OF call(1) _ call(3)]] call(4) by simp
    qed
  next
    case (user_store va f off b)
    then show ?thesis using one [OF system_step.store [OF user_store(2) _ user_store(3), of "\<lambda>_. None" b]] by simp
  qed
qed

text \<open>Every execution in which waiting calls are one step is an execution of the system.\<close>

lemma kernel_steps_run:
  "kernel_step\<^sup>*\<^sup>* s s'
    \<Longrightarrow> \<exists>es. system_run \<lparr>sys_kernel = s, sys_waits = (\<lambda>_. None)\<rparr> es \<lparr>sys_kernel = s', sys_waits = (\<lambda>_. None)\<rparr>"
proof (induction rule: rtranclp_induct)
  case base
  show ?case using run_nil by blast
next
  case (step u v)
  then show ?case using kernel_step_run [of u v] by (meson system_run_append)
qed

section \<open>Properties\<close>

lemma run_nexts: "system_run w es w' \<Longrightarrow> system_next\<^sup>*\<^sup>* w w'"
  by (induction rule: system_run.induct) (auto simp: system_next_def intro: converse_rtranclp_into_rtranclp)

text \<open>The first shell waits for a line while the second one has the processor.\<close>

lemma running_tick:
  "\<exists>w. system_run (running_system 0 0x23 0x1C) [Begin_read Terminal_1 (Line_wait 0x08048000 4), Timer] w
    \<and> sys_waits w Terminal_1 \<noteq> None \<and> active_pid (sys_kernel w) = 2"
proof -
  let ?a = "\<lparr>sp_active = Terminal_1, sp_started = (\<lambda>_. True), sp_kids = (\<lambda>_. [])\<rparr>"
  let ?u = "\<lparr>sys_kernel = start_line (running_state 0 0x23 0x1C), sys_waits = (\<lambda>_. None)(Terminal_1 := Some (Line_wait 0x08048000 4))\<rparr>"
  have b: "system_step (running_system 0 0x23 0x1C) (Begin_read Terminal_1 (Line_wait 0x08048000 4)) ?u"
    by (rule running_reads) simp_all
  have "proc_view (start_line (running_state 0 0x23 0x1C)) = proc_view (running_state 0 0x23 0x1C)"
    using start_wait_view(3) [of "Line_wait 0x08048000 4" "running_state 0 0x23 0x1C"] by simp
  from refines_proc_view [OF this] running_refines have "refines ?a (sys_kernel ?u)" by simp
  then obtain w where w: "system_step ?u Timer w" "refines (spec_tick ?a) (sys_kernel w)" using timer_step by blast
  have "active_pid (sys_kernel w) = 2"
    using w(2) by (simp add: refines_def next_terminal_def sp_running_def sp_chain_def root_pid_def)
  moreover have "sys_waits w = sys_waits ?u" using w(1) by (rule system_step.cases) simp_all
  ultimately show ?thesis using b w(1) by (auto intro!: run_cons run_nil)
qed

text \<open>C1: Isolation of processes that do not attack the kernel. Starting from a well-formed state, after any sequence of timer ticks, interrupts, user stores, system calls and waiting reads of the three terminals' processes, with the timer switching between processes that wait: an access of user code reaches only the 4 MB of the process that runs or one of the four video pages, never the memory of another process and never the kernel. The executions are those in which the processes pass \<open>read\<close>, \<open>getargs\<close> and \<open>vidmap\<close> buffers in the user part of the address space (the kernel checks none of the first two pointers and would store into its own page), in which no call runs into undefined behaviour of C, and in which user code stays in user mode (the system call stub resumes a process that leaves the kernel's selector in \<^verbatim>\<open>edx\<close> in kernel mode, \<open>syscall_stub_return\<close>).\<close>

theorem system_isolation:
  assumes "system_run w es w'" and "system_ok w" and "active_pid (sys_kernel w') \<noteq> 0"
    and "xlate True (pages (sys_kernel w')) va = Some (f, off)"
  shows "(program_frame (active_pid (sys_kernel w')) f \<or> f \<in> video_frames) \<and> \<not> kernel_frame f
    \<and> (\<forall>q. q \<noteq> active_pid (sys_kernel w') \<longrightarrow> \<not> program_frame q f)"
proof -
  have "system_ok w'" by (rule sys.reachable_inv [OF run_nexts [OF assms(1)] assms(2)])
  then have "kernel_ok (sys_kernel w')" "program_mapped (sys_kernel w')" by (simp_all add: system_ok_def)
  then show ?thesis by (rule running_access_confined [OF _ _ assms(3,4)])
qed

theorem system_isolation_witness:
  "\<exists>(w :: system) f off. sys_waits w Terminal_1 \<noteq> None \<and> xlate True (pages (sys_kernel w)) 0x08048000 = Some (f, off)
    \<and> active_pid (sys_kernel w) = 2 \<and> \<not> program_frame 1 f \<and> \<not> kernel_frame f"
proof -
  obtain w where r: "system_run (running_system 0 0x23 0x1C) [Begin_read Terminal_1 (Line_wait 0x08048000 4), Timer] w"
    and w: "sys_waits w Terminal_1 \<noteq> None" "active_pid (sys_kernel w) = 2"
    using running_tick by blast
  have inv: "kernel_ok (sys_kernel w)" "program_mapped (sys_kernel w)"
    using system_run_ok [OF r running_ok] by (simp_all add: system_ok_def)
  then have en: "paging_enabled (pages (sys_kernel w))" by (simp add: kernel_ok_def keyboard_ok_def video_ok_def wf_pages_def)
  have "page_dir (pages (sys_kernel w)) 32 = user_pde (0x00400 + 0x00400 + 2 * 0x00400)"
    using inv(2) w(2) by (simp add: program_mapped_def)
  moreover have "dir_index 0x08048000 = 32" by (simp add: dir_index_def)
  ultimately obtain f off where x: "xlate True (pages (sys_kernel w)) 0x08048000 = Some (f, off)"
    using en by (simp add: xlate_def user_pde_def)
  have "active_pid (sys_kernel w) \<noteq> 0" using w(2) by simp
  from system_isolation [OF r running_ok this x] show ?thesis using w x by auto
qed

text \<open>C2: The process structure of the kernel refines the abstract one in every execution, also with the switches inside waiting calls. Each execution is matched by a sequence of abstract steps (round-robin ticks, a program pushed on the chain of the active terminal, the running program popped) that ends in a related state: pool, process count, parent links, terminals and descriptor tables agree with the chains.\<close>

theorem system_refines_processes:
  assumes "system_run w es w'" and "system_ok w" and "refines a (sys_kernel w) \<and> tables_ok a (sys_kernel w)"
  shows "\<exists>a'. spec_step\<^sup>*\<^sup>* a a' \<and> refines a' (sys_kernel w') \<and> tables_ok a' (sys_kernel w')"
  using sys_processes.reachable_simulated [OF run_nexts [OF assms(1)] assms(2,3)] .

theorem system_refines_processes_witness:
  "\<exists>(w :: system) a a'. spec_step\<^sup>*\<^sup>* a a' \<and> refines a' (sys_kernel w) \<and> sys_waits w Terminal_1 \<noteq> None \<and> active_pid (sys_kernel w) = 2"
proof -
  obtain w where r: "system_run (running_system 0 0x23 0x1C) [Begin_read Terminal_1 (Line_wait 0x08048000 4), Timer] w"
    and w: "sys_waits w Terminal_1 \<noteq> None" "active_pid (sys_kernel w) = 2"
    using running_tick by blast
  obtain a where a: "refines a (sys_kernel (running_system 0 0x23 0x1C)) \<and> tables_ok a (sys_kernel (running_system 0 0x23 0x1C))"
    using running_ok [of 0 "0x23" "0x1C"] by (auto simp: system_ok_def kernel_ok_def)
  from system_refines_processes [OF r running_ok a] show ?thesis using w by blast
qed

text \<open>C6: The file system is never modified. In every execution in which processes hand only buffers of their own to the system calls, the kernel's physical memory, which holds the file system image, and the pointer to the image stay the same; so every byte the kernel reads through its own page is the byte that was there at the start.\<close>

theorem system_image_never_changes:
  assumes "system_run w es w'" and "system_ok w"
  shows "boot_block_pointer (sys_kernel w') = boot_block_pointer (sys_kernel w)
    \<and> kernel_memory (sys_kernel w') = kernel_memory (sys_kernel w)
    \<and> (\<forall>va. dir_index va = 1 \<longrightarrow> view (sys_kernel w') va = view (sys_kernel w) va)"
proof -
  have "system_ok w'" by (rule sys.reachable_inv [OF run_nexts [OF assms(1)] assms(2)])
  then have ok: "kernel_ok (sys_kernel w)" "kernel_ok (sys_kernel w')" using assms(2) by (simp_all add: system_ok_def)
  show ?thesis
    by (rule image_kept_view [OF ok sys_image.reachable_rel [OF run_nexts [OF assms(1)] assms(2)]])
qed

theorem system_image_never_changes_witness:
  "\<exists>w :: system. sys_waits w Terminal_1 \<noteq> None \<and> active_pid (sys_kernel w) = 2
    \<and> view (sys_kernel w) 0x450000 = view (running_state 0 0x23 0x1C) 0x450000"
proof -
  obtain w where r: "system_run (running_system 0 0x23 0x1C) [Begin_read Terminal_1 (Line_wait 0x08048000 4), Timer] w"
    and w: "sys_waits w Terminal_1 \<noteq> None" "active_pid (sys_kernel w) = 2"
    using running_tick by blast
  have "dir_index 0x450000 = 1" by (simp add: dir_index_def)
  then show ?thesis using system_image_never_changes [OF r running_ok] w by auto
qed

text \<open>C7: The process table stays in bounds. In every execution there are between 3 and 6 processes, the count is one less than the number of occupied slots (slot 0 is the kernel), the three root shells are never removed, and the running process and each terminal's process are occupied slots.\<close>

theorem system_table_bounds:
  assumes "system_run w es w'" and "system_ok w" and "s' = sys_kernel w'"
  shows "3 \<le> process_count s' \<and> process_count s' \<le> MAX_NUM_PROCESSES
    \<and> process_count s' + 1 = int (card {i. i < length (processes s') \<and> processes s' ! i \<noteq> 0})
    \<and> length (processes s') = 7 \<and> take 4 (processes s') = [1, 1, 1, 1]
    \<and> processes s' ! unat (active_pid s') = 1 \<and> (\<forall>t. processes s' ! unat (current_process_id (terminals s' t)) = 1)"
proof -
  have "system_ok w'" by (rule sys.reachable_inv [OF run_nexts [OF assms(1)] assms(2)])
  then have "kernel_ok s'" using assms(3) by (simp add: system_ok_def)
  then show ?thesis by (rule process_table_ok)
qed

theorem system_table_bounds_witness:
  "\<exists>w :: system. sys_waits w Terminal_1 \<noteq> None \<and> active_pid (sys_kernel w) = 2 \<and> process_count (sys_kernel w) \<le> 6
    \<and> processes (sys_kernel w) ! 2 = 1"
proof -
  obtain w where r: "system_run (running_system 0 0x23 0x1C) [Begin_read Terminal_1 (Line_wait 0x08048000 4), Timer] w"
    and w: "sys_waits w Terminal_1 \<noteq> None" "active_pid (sys_kernel w) = 2"
    using running_tick by blast
  have "process_count (sys_kernel w) \<le> 6 \<and> processes (sys_kernel w) ! 2 = 1"
    using system_table_bounds [OF r running_ok refl] w(2) by (simp add: MAX_NUM_PROCESSES_def)
  then show ?thesis using w by blast
qed

end
