(* ===== verification/Descriptors.thy ===== *)
theory Descriptors
  imports Kernel_Prelude
begin

text \<open>
  The descriptor tables: segment and interrupt descriptors of \<^verbatim>\<open>x86_desc.h\<close> with the macros that fill them,
  and \<open>idt_init\<close> of \<^verbatim>\<open>idtInit.c\<close>. The two 32-bit words of a descriptor (the union member \<open>val\<close>) are what the
  processor reads; \<open>decode_gate\<close> and \<open>decode_segment\<close> take them apart as the processor manual says.
\<close>

section \<open>Segment descriptors\<close>

definition KERNEL_CS :: "16 word" where
  "KERNEL_CS = 0x0010"

definition TSS_SIZE :: u32 where
  "TSS_SIZE = 104"

record seg_desc =
  seg_lim_15_00 :: "16 word"
  base_15_00 :: "16 word"
  base_23_16 :: "8 word"
  seg_type :: "4 word"
  seg_sys :: "1 word"
  seg_dpl :: "2 word"
  seg_present :: "1 word"
  seg_lim_19_16 :: "4 word"
  seg_avail :: "1 word"
  seg_reserved :: "1 word"
  seg_opsize :: "1 word"
  seg_granularity :: "1 word"
  base_31_24 :: "8 word"

definition SET_LDT_PARAMS :: "u32 \<Rightarrow> u32 \<Rightarrow> seg_desc \<Rightarrow> seg_desc" where
  "SET_LDT_PARAMS addr lim str = str\<lparr>
     base_31_24 := ucast (drop_bit 24 (addr AND 0xFF000000)),
     base_23_16 := ucast (drop_bit 16 (addr AND 0x00FF0000)),
     base_15_00 := ucast (addr AND 0x0000FFFF),
     seg_lim_19_16 := ucast (drop_bit 16 (lim AND 0x000F0000)),
     seg_lim_15_00 := ucast (lim AND 0x0000FFFF)\<rparr>"

definition SET_TSS_PARAMS :: "u32 \<Rightarrow> u32 \<Rightarrow> seg_desc \<Rightarrow> seg_desc" where
  "SET_TSS_PARAMS addr lim str = str\<lparr>
     base_31_24 := ucast (drop_bit 24 (addr AND 0xFF000000)),
     base_23_16 := ucast (drop_bit 16 (addr AND 0x00FF0000)),
     base_15_00 := ucast (addr AND 0x0000FFFF),
     seg_lim_19_16 := ucast (drop_bit 16 (lim AND 0x000F0000)),
     seg_lim_15_00 := ucast (lim AND 0x0000FFFF)\<rparr>"

text \<open>The entries \<open>entry\<close> of \<^verbatim>\<open>kernel.c\<close> builds, from uninitialised variables and the table addresses.\<close>

definition the_ldt_desc :: "u32 \<Rightarrow> u32 \<Rightarrow> seg_desc \<Rightarrow> seg_desc" where
  "the_ldt_desc ldt ldt_size junk =
     SET_LDT_PARAMS ldt ldt_size (junk\<lparr>seg_granularity := 0, seg_opsize := 1, seg_reserved := 0, seg_avail := 0,
       seg_present := 1, seg_dpl := 0, seg_sys := 0, seg_type := 2\<rparr>)"

definition the_tss_desc :: "u32 \<Rightarrow> u32 \<Rightarrow> seg_desc \<Rightarrow> seg_desc" where
  "the_tss_desc tss tss_size junk =
     SET_TSS_PARAMS tss tss_size (junk\<lparr>seg_granularity := 0, seg_opsize := 0, seg_reserved := 0, seg_avail := 0,
       seg_lim_19_16 := ucast (TSS_SIZE AND 0x000F0000), seg_present := 1, seg_dpl := 0, seg_sys := 0,
       seg_type := 9, seg_lim_15_00 := ucast (TSS_SIZE AND 0x0000FFFF)\<rparr>)"

definition seg_val :: "seg_desc \<Rightarrow> u32 \<times> u32" where
  "seg_val d = (ucast (seg_lim_15_00 d) OR push_bit 16 (ucast (base_15_00 d)),
     ucast (base_23_16 d) OR push_bit 8 (ucast (seg_type d)) OR push_bit 12 (ucast (seg_sys d))
       OR push_bit 13 (ucast (seg_dpl d)) OR push_bit 15 (ucast (seg_present d))
       OR push_bit 16 (ucast (seg_lim_19_16 d)) OR push_bit 20 (ucast (seg_avail d))
       OR push_bit 21 (ucast (seg_reserved d)) OR push_bit 22 (ucast (seg_opsize d))
       OR push_bit 23 (ucast (seg_granularity d)) OR push_bit 24 (ucast (base_31_24 d)))"

text \<open>What the processor makes of the two words: base, limit, type with the system bit, privilege, present.\<close>

record segment =
  sg_base :: u32
  sg_limit :: "20 word"
  sg_kind :: "5 word"
  sg_level :: "2 word"
  sg_here :: bool

definition decode_segment :: "u32 \<times> u32 \<Rightarrow> segment" where
  "decode_segment v = (case v of (lo, hi) \<Rightarrow>
     \<lparr>sg_base = (hi AND 0xFF000000) OR push_bit 16 (hi AND 0xFF) OR drop_bit 16 lo,
      sg_limit = ucast (hi AND 0x000F0000) OR ucast (lo AND 0xFFFF),
      sg_kind = ucast (drop_bit 8 hi), sg_level = ucast (drop_bit 13 hi), sg_here = bit hi 15\<rparr>)"

section \<open>The interrupt descriptor table\<close>

record idt_desc =
  offset_15_00 :: "16 word"
  seg_selector :: "16 word"
  idt_reserved4 :: "8 word"
  idt_reserved3 :: "1 word"
  idt_reserved2 :: "1 word"
  idt_reserved1 :: "1 word"
  idt_size :: "1 word"
  idt_reserved0 :: "1 word"
  idt_dpl :: "2 word"
  idt_present :: "1 word"
  offset_31_16 :: "16 word"

text \<open>The functions the table points to; their addresses are fixed by the linker.\<close>

datatype handler = exception_divide_by_zero | exception_debug | exception_non_maskable_interrupt
  | exception_breakpoint | exception_overflow | exception_bound_range_exceeded | exception_invalid_opcode
  | exception_device_not_available | exception_double_fault | exception_coprocessor_segment_overrun
  | exception_invalid_tss | exception_segment_not_present | exception_stack_segment_fault
  | exception_general_protection | exception_page_fault | exception_fpu_floating_point_error
  | exception_alignment_check | exception_machine_check | exception_simd_floating_point_exception
  | pit_handler_linkage | keyboard_handler_linkage | rtc_handler_linkage | syscall_wrapper

definition SYSTEM_CALL :: byte where
  "SYSTEM_CALL = 0x80"

definition SET_IDT_ENTRY :: "u32 \<Rightarrow> idt_desc \<Rightarrow> idt_desc" where
  "SET_IDT_ENTRY handler str = str\<lparr>idt_present := 1,
     offset_31_16 := ucast (drop_bit 16 (handler AND 0xFFFF0000)), offset_15_00 := ucast (handler AND 0xFFFF)\<rparr>"

text \<open>The body of the loop over all 256 vectors.\<close>

definition idt_reset :: "byte \<Rightarrow> idt_desc \<Rightarrow> idt_desc" where
  "idt_reset index e = e\<lparr>idt_present := 0, idt_size := 1, seg_selector := KERNEL_CS,
     idt_dpl := (if index = SYSTEM_CALL then 3 else 0), idt_reserved0 := 0, idt_reserved1 := 1,
     idt_reserved2 := 1, idt_reserved3 := 1, idt_reserved4 := 0\<rparr>"

text \<open>The entries that are set afterwards, in the order of the code.\<close>

definition idt_entries :: "(byte \<times> handler) list" where
  "idt_entries = [(0x00, exception_divide_by_zero), (0x01, exception_debug), (0x02, exception_non_maskable_interrupt),
     (0x03, exception_breakpoint), (0x04, exception_overflow), (0x05, exception_bound_range_exceeded),
     (0x06, exception_invalid_opcode), (0x07, exception_device_not_available), (0x08, exception_double_fault),
     (0x09, exception_coprocessor_segment_overrun), (0x0A, exception_invalid_tss),
     (0x0B, exception_segment_not_present), (0x0C, exception_stack_segment_fault),
     (0x0D, exception_general_protection), (0x0E, exception_page_fault), (0x10, exception_fpu_floating_point_error),
     (0x11, exception_alignment_check), (0x12, exception_machine_check),
     (0x13, exception_simd_floating_point_exception), (0x20, pit_handler_linkage), (0x21, keyboard_handler_linkage),
     (0x28, rtc_handler_linkage), (SYSTEM_CALL, syscall_wrapper)]"

text \<open>The operand of \<open>lidt\<close> in \<^verbatim>\<open>x86_desc.S\<close>: the size of the table less one, and its address.\<close>

definition NUM_VEC :: nat where
  "NUM_VEC = 256"

definition idt_desc_ptr :: "u32 \<Rightarrow> byte list" where
  "idt_desc_ptr idt_at = half_bytes (of_nat (8 * NUM_VEC) - 1) @ word_bytes idt_at"

text \<open>A descriptor table register; \<open>lidt\<close> loads it with the limit and the base that lie at its operand.\<close>

record table_register =
  tb_limit :: "16 word"
  tb_base :: u32

definition lidt :: "byte list \<Rightarrow> table_register" where
  "lidt desc =
     \<lparr>tb_limit = ucast (desc ! 0) OR push_bit 8 (ucast (desc ! 1)),
      tb_base = ucast (desc ! 2) OR push_bit 8 (ucast (desc ! 3)) OR push_bit 16 (ucast (desc ! 4)) OR push_bit 24 (ucast (desc ! 5))\<rparr>"

text \<open>The whole function, for a table at address \<open>idt_at\<close>: the table and what the processor's register holds afterwards.\<close>

definition idt_init :: "(handler \<Rightarrow> u32) \<Rightarrow> u32 \<Rightarrow> (byte \<Rightarrow> idt_desc) \<Rightarrow> (byte \<Rightarrow> idt_desc) \<times> table_register" where
  "idt_init address idt_at idt =
     (let idt = (\<lambda>i. idt_reset i (idt i));
          idt = fold (\<lambda>(v, h) idt. idt(v := SET_IDT_ENTRY (address h) (idt v))) idt_entries idt
      in (idt, lidt (idt_desc_ptr idt_at)))"

definition idt_val :: "idt_desc \<Rightarrow> u32 \<times> u32" where
  "idt_val d = (ucast (offset_15_00 d) OR push_bit 16 (ucast (seg_selector d)),
     ucast (idt_reserved4 d) OR push_bit 8 (ucast (idt_reserved3 d)) OR push_bit 9 (ucast (idt_reserved2 d))
       OR push_bit 10 (ucast (idt_reserved1 d)) OR push_bit 11 (ucast (idt_size d))
       OR push_bit 12 (ucast (idt_reserved0 d)) OR push_bit 13 (ucast (idt_dpl d))
       OR push_bit 15 (ucast (idt_present d)) OR push_bit 16 (ucast (offset_31_16 d)))"

text \<open>A gate as the processor reads it: absent, or target, privilege and type (15: 32-bit trap gate).\<close>

record gate =
  gt_selector :: "16 word"
  gt_offset :: u32
  gt_level :: "2 word"
  gt_type :: "5 word"

definition decode_gate :: "u32 \<times> u32 \<Rightarrow> gate option" where
  "decode_gate v = (case v of (lo, hi) \<Rightarrow>
     if bit hi 15
     then Some \<lparr>gt_selector = ucast (drop_bit 16 lo), gt_offset = (hi AND 0xFFFF0000) OR (lo AND 0xFFFF),
            gt_level = ucast (drop_bit 13 hi), gt_type = ucast (drop_bit 8 hi)\<rparr>
     else None)"

text \<open>
  The gate the processor finds for a vector with the table \<open>idt\<close> at address \<open>idt_at\<close>: its register must point there and the
  eight bytes of the entry must lie below the limit.
\<close>

definition find_gate :: "table_register \<Rightarrow> u32 \<Rightarrow> (byte \<Rightarrow> idt_desc) \<Rightarrow> byte \<Rightarrow> gate option" where
  "find_gate r idt_at idt v =
     (if tb_base r = idt_at \<and> 8 * unat v + 7 \<le> unat (tb_limit r) then decode_gate (idt_val (idt v)) else None)"

text \<open>
  What each vector is for: the exceptions in the order of the processor manual (15 is reserved), the interrupt lines 0
  (timer), 1 (keyboard) and 8 (clock) counted from \<open>0x20\<close> on, and the system call.
\<close>

definition processor_exceptions :: "handler option list" where
  "processor_exceptions = map Some [exception_divide_by_zero, exception_debug, exception_non_maskable_interrupt,
     exception_breakpoint, exception_overflow, exception_bound_range_exceeded, exception_invalid_opcode,
     exception_device_not_available, exception_double_fault, exception_coprocessor_segment_overrun,
     exception_invalid_tss, exception_segment_not_present, exception_stack_segment_fault,
     exception_general_protection, exception_page_fault]
   @ [None] @ map Some [exception_fpu_floating_point_error, exception_alignment_check, exception_machine_check,
     exception_simd_floating_point_exception]"

definition vector_handler :: "byte \<Rightarrow> handler option" where
  "vector_handler v =
     (if unat v < 20 then processor_exceptions ! unat v
      else if v = 0x20 + 0 then Some pit_handler_linkage
      else if v = 0x20 + 1 then Some keyboard_handler_linkage
      else if v = 0x20 + 8 then Some rtc_handler_linkage
      else if v = 0x80 then Some syscall_wrapper
      else None)"

section \<open>Lemmas\<close>

text \<open>The masks of the macros as runs of bits.\<close>

lemma masks:
  "(0xFFFF :: u32) = mask 16" "(0xFFFF0000 :: u32) = push_bit 16 (mask 16)" "(0xFF000000 :: u32) = push_bit 24 (mask 8)"
  "(0x00FF0000 :: u32) = push_bit 16 (mask 8)" "(0x000F0000 :: u32) = push_bit 16 (mask 4)" "(0xFF :: u32) = mask 8"
  by (simp_all add: mask_eq_exp_minus_1)

lemma bit_beyond: "LENGTH('a) \<le> n \<Longrightarrow> \<not> bit (w :: 'a :: len word) n"
  using bit_imp_le_length [of w n] by linarith

lemmas word_bits = bit_simps masks bit_beyond

lemma bits_eqI:
  fixes a b :: "'a :: len word"
  assumes "list_all (\<lambda>n. bit a n = bit b n) [0..<LENGTH('a)]"
  shows "a = b"
  using assms by (intro bit_word_eqI) (simp add: list_all_iff del: upt_rec_numeral)

lemma len_nums: "LENGTH(32) = 32"
  by simp

lemma upt_32: "[0..<32] = [0,1,2,3,4,5,6,7,8,9,10,11,12,13,14,15,16,17,18,19,20,21,22,23,24,25,26,27,28,29,30,31]"
  by code_simp

lemma split_halves:
  "push_bit 16 (ucast (ucast (drop_bit 16 (h AND 0xFFFF0000)) :: 16 word)) OR ucast (ucast (h AND 0xFFFF) :: 16 word) = (h :: u32)"
  by (rule bit_word_eqI) (auto simp: word_bits)

lemma bit_0_word: "bit (w :: 1 word) 0 \<longleftrightarrow> w = 1"
proof
  assume "bit w 0"
  then show "w = 1" by (intro bit_word_eqI) (simp add: bit_1_iff)
qed simp

lemma decode_idt_val:
  "decode_gate (idt_val d) = (if idt_present d = 1
     then Some \<lparr>gt_selector = seg_selector d,
       gt_offset = push_bit 16 (ucast (offset_31_16 d)) OR ucast (offset_15_00 d), gt_level = idt_dpl d,
       gt_type = push_bit 4 (ucast (idt_reserved0 d)) OR push_bit 3 (ucast (idt_size d))
         OR push_bit 2 (ucast (idt_reserved1 d)) OR 2 * ucast (idt_reserved2 d) OR ucast (idt_reserved3 d)\<rparr>
     else None)"
proof -
  obtain lo hi where v: "idt_val d = (lo, hi)" by fastforce
  then have lo: "lo = ucast (offset_15_00 d) OR push_bit 16 (ucast (seg_selector d))"
    and hi: "hi = ucast (idt_reserved4 d) OR push_bit 8 (ucast (idt_reserved3 d)) OR push_bit 9 (ucast (idt_reserved2 d))
       OR push_bit 10 (ucast (idt_reserved1 d)) OR push_bit 11 (ucast (idt_size d))
       OR push_bit 12 (ucast (idt_reserved0 d)) OR push_bit 13 (ucast (idt_dpl d))
       OR push_bit 15 (ucast (idt_present d)) OR push_bit 16 (ucast (offset_31_16 d))"
    by (simp_all add: idt_val_def)
  have "bit hi 15 \<longleftrightarrow> idt_present d = 1" unfolding hi by (auto simp: bit_simps bit_0_word dest!: bit_imp_le_length)
  moreover have "ucast (drop_bit 16 lo) = seg_selector d" unfolding lo
    by (rule bit_word_eqI) (use bit_imp_le_length [of "offset_15_00 d"] in \<open>auto simp: bit_simps\<close>)
  moreover have "(hi AND 0xFFFF0000) OR (lo AND 0xFFFF) = push_bit 16 (ucast (offset_31_16 d)) OR ucast (offset_15_00 d)"
    unfolding hi lo by (rule bits_eqI) (simp only: upt_32 list.pred_inject len_nums, simp add: word_bits)
  moreover have "ucast (drop_bit 13 hi) = idt_dpl d"
    unfolding hi by (rule bits_eqI) (simp add: word_bits upt_rec)
  moreover have "ucast (drop_bit 8 hi) = push_bit 4 (ucast (idt_reserved0 d)) OR push_bit 3 (ucast (idt_size d))
      OR push_bit 2 (ucast (idt_reserved1 d)) OR 2 * ucast (idt_reserved2 d) OR (ucast (idt_reserved3 d) :: 5 word)"
    unfolding hi by (rule bits_eqI) (simp add: word_bits upt_rec)
  ultimately show ?thesis by (simp add: decode_gate_def v)
qed

lemma decode_seg_val:
  "decode_segment (seg_val d) =
     \<lparr>sg_base = push_bit 24 (ucast (base_31_24 d)) OR push_bit 16 (ucast (base_23_16 d)) OR ucast (base_15_00 d),
      sg_limit = push_bit 16 (ucast (seg_lim_19_16 d)) OR ucast (seg_lim_15_00 d),
      sg_kind = push_bit 4 (ucast (seg_sys d)) OR ucast (seg_type d), sg_level = seg_dpl d,
      sg_here = (seg_present d = 1)\<rparr>"
proof -
  obtain lo hi where v: "seg_val d = (lo, hi)" by fastforce
  then have lo: "lo = ucast (seg_lim_15_00 d) OR push_bit 16 (ucast (base_15_00 d))"
    and hi: "hi = ucast (base_23_16 d) OR push_bit 8 (ucast (seg_type d)) OR push_bit 12 (ucast (seg_sys d))
       OR push_bit 13 (ucast (seg_dpl d)) OR push_bit 15 (ucast (seg_present d))
       OR push_bit 16 (ucast (seg_lim_19_16 d)) OR push_bit 20 (ucast (seg_avail d))
       OR push_bit 21 (ucast (seg_reserved d)) OR push_bit 22 (ucast (seg_opsize d))
       OR push_bit 23 (ucast (seg_granularity d)) OR push_bit 24 (ucast (base_31_24 d))"
    by (simp_all add: seg_val_def)
  have "bit hi 15 \<longleftrightarrow> seg_present d = 1" unfolding hi by (auto simp: bit_simps bit_0_word dest!: bit_imp_le_length)
  moreover have "(hi AND 0xFF000000) OR push_bit 16 (hi AND 0xFF) OR drop_bit 16 lo
      = push_bit 24 (ucast (base_31_24 d)) OR push_bit 16 (ucast (base_23_16 d)) OR ucast (base_15_00 d)"
    unfolding hi lo by (rule bits_eqI) (simp only: upt_32 list.pred_inject len_nums, simp add: word_bits)
  moreover have "(ucast (hi AND 0x000F0000) :: 20 word) OR ucast (lo AND 0xFFFF)
      = push_bit 16 (ucast (seg_lim_19_16 d)) OR ucast (seg_lim_15_00 d)"
    unfolding hi lo by (rule bit_word_eqI) (auto simp: word_bits)
  moreover have "ucast (drop_bit 13 hi) = seg_dpl d"
    unfolding hi by (rule bits_eqI) (simp add: word_bits upt_rec)
  moreover have "ucast (drop_bit 8 hi) = push_bit 4 (ucast (seg_sys d)) OR (ucast (seg_type d) :: 5 word)"
    unfolding hi by (rule bits_eqI) (simp add: word_bits upt_rec)
  ultimately show ?thesis by (simp add: decode_segment_def v)
qed

text \<open>Later entries of the list do not touch earlier vectors: all 23 vectors differ.\<close>

lemma idt_entries_distinct: "distinct (map fst idt_entries)"
  by (simp add: idt_entries_def SYSTEM_CALL_def)

lemma fold_set_entries:
  assumes "distinct (map fst es)"
  shows "fold (\<lambda>(v, h) idt. idt(v := SET_IDT_ENTRY (address h) (idt v))) es idt v
    = (case map_of es v of None \<Rightarrow> idt v | Some h \<Rightarrow> SET_IDT_ENTRY (address h) (idt v))"
  using assms
proof (induction es arbitrary: idt)
  case (Cons e es)
  obtain w h where e: "e = (w, h)" by fastforce
  have "map_of es w = None" using Cons.prems e by (simp add: map_of_eq_None_iff)
  then show ?case using Cons e by (auto split: option.split)
qed simp

lemma half_join: "ucast (ucast w :: byte) OR push_bit 8 (ucast (ucast (drop_bit 8 w) :: byte)) = (w :: 16 word)"
  by (rule bit_word_eqI) (auto simp: bit_simps)

lemma word_join:
  "ucast (ucast w :: byte) OR push_bit 8 (ucast (ucast (drop_bit 8 w) :: byte))
     OR push_bit 16 (ucast (ucast (drop_bit 16 w) :: byte)) OR push_bit 24 (ucast (ucast (drop_bit 24 w) :: byte)) = (w :: u32)"
  by (rule bits_eqI) (simp only: upt_32 list.pred_inject len_nums, simp add: word_bits)

lemma idt_register: "lidt (idt_desc_ptr idt_at) = \<lparr>tb_limit = 2047, tb_base = idt_at\<rparr>"
  unfolding lidt_def idt_desc_ptr_def half_bytes_def word_bytes_def NUM_VEC_def
  using half_join [of 2047] word_join [of idt_at] by simp

lemma idt_entries_vectors: "map_of idt_entries v = vector_handler v"
proof (cases "unat v < 20")
  case True
  then have "unat v \<in> set [0..<20]" by simp
  then have "v \<in> of_nat ` set [0..<20]" by (intro image_eqI [of _ _ "unat v"]) simp_all
  then have "v = 0 \<or> v = 1 \<or> v = 2 \<or> v = 3 \<or> v = 4 \<or> v = 5 \<or> v = 6 \<or> v = 7 \<or> v = 8 \<or> v = 9 \<or> v = 10
      \<or> v = 11 \<or> v = 12 \<or> v = 13 \<or> v = 14 \<or> v = 15 \<or> v = 16 \<or> v = 17 \<or> v = 18 \<or> v = 19"
    by (auto simp: upt_rec)
  then show ?thesis
    by (elim disjE) (simp_all add: idt_entries_def vector_handler_def processor_exceptions_def SYSTEM_CALL_def)
next
  case False
  then have "v \<notin> {0, 1, 2, 3, 4, 5, 6, 7, 8, 9, 10, 11, 12, 13, 14, 15, 16, 17, 18, 19}" by auto
  then show ?thesis using False by (auto simp: idt_entries_def vector_handler_def SYSTEM_CALL_def)
qed

section \<open>Properties\<close>

text \<open>C19: After \<open>idt_init\<close> the processor finds, for every one of the 256 vectors, the handler that belongs there. Its table register points to the table and covers all of it; vectors 0 to 14 and 16 to 19 lead to the handlers of the exceptions in the processor's order, \<open>0x20\<close> to the timer, \<open>0x21\<close> to the keyboard, \<open>0x28\<close> to the clock and \<open>0x80\<close> to the system call, each through a 32-bit trap gate into the kernel's code segment at the full 32-bit address of the handler; every other vector is absent, and only the system call gate can be used by user code.\<close>

theorem idt_init_gates:
  "find_gate (snd (idt_init address idt_at idt)) idt_at (fst (idt_init address idt_at idt)) v =
     map_option (\<lambda>h. \<lparr>gt_selector = KERNEL_CS, gt_offset = address h,
       gt_level = (if v = 0x80 then 3 else 0), gt_type = 15\<rparr>) (vector_handler v)"
proof -
  have "unat v < 2 ^ LENGTH(8)" by (rule unsigned_less)
  then have "8 * unat v + 7 \<le> 2047" by simp
  moreover have "fst (idt_init address idt_at idt) v = (case map_of idt_entries v of None \<Rightarrow> idt_reset v (idt v)
      | Some h \<Rightarrow> SET_IDT_ENTRY (address h) (idt_reset v (idt v)))"
    unfolding idt_init_def Let_def fst_conv by (rule fold_set_entries [OF idt_entries_distinct])
  moreover have "snd (idt_init address idt_at idt) = \<lparr>tb_limit = 2047, tb_base = idt_at\<rparr>"
    by (simp add: idt_init_def idt_register Let_def)
  ultimately show ?thesis
    using split_halves idt_entries_vectors [of v]
    by (simp add: find_gate_def decode_idt_val SET_IDT_ENTRY_def idt_reset_def SYSTEM_CALL_def split: option.split)
qed

text \<open>The descriptors of the local descriptor table and of the task state segment describe what they should: the processor reads back the full 32-bit base address and the low 20 bits of the limit, an available 32-bit task state segment (type 9) and a local descriptor table (type 2), both present and for the kernel only, whatever the uninitialised variables held.\<close>

lemma gdt_descriptors:
  "decode_segment (seg_val (the_tss_desc tss lim junk)) =
     \<lparr>sg_base = tss, sg_limit = ucast lim, sg_kind = 9, sg_level = 0, sg_here = True\<rparr>
   \<and> decode_segment (seg_val (the_ldt_desc ldt lim junk)) =
     \<lparr>sg_base = ldt, sg_limit = ucast lim, sg_kind = 2, sg_level = 0, sg_here = True\<rparr>"
proof -
  have b: "push_bit 24 (ucast (ucast (drop_bit 24 (a AND 0xFF000000)) :: 8 word))
      OR push_bit 16 (ucast (ucast (drop_bit 16 (a AND 0x00FF0000)) :: 8 word))
      OR ucast (ucast (a AND 0xFFFF) :: 16 word) = (a :: u32)" for a
    by (rule bits_eqI) (simp only: upt_32 list.pred_inject len_nums, simp add: word_bits)
  have l: "push_bit 16 (ucast (ucast (drop_bit 16 (lim AND 0x000F0000)) :: 4 word))
      OR ucast (ucast (lim AND 0xFFFF) :: 16 word) = (ucast lim :: 20 word)"
    by (rule bit_word_eqI) (auto simp: word_bits)
  show ?thesis
    using b [of tss] b [of ldt] l
    by (simp add: decode_seg_val the_tss_desc_def the_ldt_desc_def SET_TSS_PARAMS_def SET_LDT_PARAMS_def)
qed

end
