(* ===== verification/Exceptions.thy ===== *)
theory Exceptions
  imports Process Descriptors
begin

text \<open>
  The processor's exceptions: the messages and the handler of \<^verbatim>\<open>exceptions.c\<close>, and the stubs of
  \<^verbatim>\<open>exceptionWrapper.S\<close>, each of which pushes the number of its vector (\<^verbatim>\<open>idtInit.h\<close>) and calls the handler. The
  handler never returns: its result is the state in which the processor is halted.
\<close>

section \<open>Definitions\<close>

definition exceptions :: "byte list list" where
  "exceptions = map chars [''Divide-by-zero Error'', ''Debug'', ''Non-maskable Interrupt'', ''Breakpoint'',
     ''Overflow'', ''Bound Range Exceeded'', ''Invalid Opcode'', ''Device Not Available'', ''Double Fault'',
     ''Coprocessor Segment Overrun'', ''Invalid TSS'', ''Segment Not Present'', ''Stack-Segment Fault'',
     ''General Protection Fault'', ''Page Fault'', ''Reserved'', ''x87 Floating-Point Exception'',
     ''Alignment Check'', ''Machine Check'', ''SIMD Floating-Point Exception'']"

definition exception_handler :: "u32 \<Rightarrow> kstate \<Rightarrow> kstate option" where
  "exception_handler vectorNumber s =
     (if unat vectorNumber < length exceptions
      then map_option snd (printf (chars ''%s'' @ [newline]) [Str (exceptions ! unat vectorNumber)]
             (blue_screen (cli s)))
      else None)"

text \<open>The number each stub pushes; the other handlers are not exception stubs.\<close>

fun vector_number :: "handler \<Rightarrow> u32 option" where
  "vector_number exception_divide_by_zero = Some 0x00"
| "vector_number exception_debug = Some 0x01"
| "vector_number exception_non_maskable_interrupt = Some 0x02"
| "vector_number exception_breakpoint = Some 0x03"
| "vector_number exception_overflow = Some 0x04"
| "vector_number exception_bound_range_exceeded = Some 0x05"
| "vector_number exception_invalid_opcode = Some 0x06"
| "vector_number exception_device_not_available = Some 0x07"
| "vector_number exception_double_fault = Some 0x08"
| "vector_number exception_coprocessor_segment_overrun = Some 0x09"
| "vector_number exception_invalid_tss = Some 0x0A"
| "vector_number exception_segment_not_present = Some 0x0B"
| "vector_number exception_stack_segment_fault = Some 0x0C"
| "vector_number exception_general_protection = Some 0x0D"
| "vector_number exception_page_fault = Some 0x0E"
| "vector_number exception_fpu_floating_point_error = Some 0x10"
| "vector_number exception_alignment_check = Some 0x11"
| "vector_number exception_machine_check = Some 0x12"
| "vector_number exception_simd_floating_point_exception = Some 0x13"
| "vector_number pit_handler_linkage = None"
| "vector_number keyboard_handler_linkage = None"
| "vector_number rtc_handler_linkage = None"
| "vector_number syscall_wrapper = None"

definition exception_wrapper :: "handler \<Rightarrow> kstate \<Rightarrow> kstate option" where
  "exception_wrapper h s = Option.bind (vector_number h) (\<lambda>n. exception_handler n s)"

text \<open>What the blue screen does to the abstract console: every attribute byte becomes blue.\<close>

definition paint :: "byte \<Rightarrow> console \<Rightarrow> console" where
  "paint a k = k\<lparr>cells := map (\<lambda>(c, _). (c, a)) (cells k)\<rparr>"

section \<open>Lemmas\<close>

lemma vstore_attribute:
  assumes "wf_pages (pages s)" and "i < 2000"
  shows "vstore (cell VIDEO (int i) + 1) a s
    = upd_frame (low_frame VIDEO s) (\<lambda>g. set_cell i (fst (get_cell i g), a) g) s"
proof -
  have "2 * i + 1 < 4096" using assms(2) by simp
  then show ?thesis
    unfolding cell_nat(2)
    by (subst vstore_video) (use assms in \<open>simp_all add: set_cell_def get_cell_def video_base_def [abs_def]\<close>)
qed

lemma fold_paint:
  "n \<le> 2000 \<Longrightarrow> frame_cells (fold (\<lambda>i g. set_cell i (fst (get_cell i g), a) g) [0..<n] g)
     = map (\<lambda>(c, _). (c, a)) (take n (frame_cells g)) @ drop n (frame_cells g)"
proof (induction n)
  case (Suc n)
  let ?g = "fold (\<lambda>i g. set_cell i (fst (get_cell i g), a) g) [0..<n] g"
  have ih: "frame_cells ?g = map (\<lambda>(c, _). (c, a)) (take n (frame_cells g)) @ drop n (frame_cells g)"
    using Suc by simp
  have "get_cell n ?g = frame_cells ?g ! n" using Suc.prems by (simp add: nth_frame_cells)
  also have "\<dots> = frame_cells g ! n" using Suc.prems by (simp add: ih nth_append)
  finally have n: "get_cell n ?g = frame_cells g ! n" .
  have "drop n (frame_cells g) = frame_cells g ! n # drop (Suc n) (frame_cells g)"
    using Suc.prems by (simp add: Cons_nth_drop_Suc)
  then show ?case
    using Suc.prems n
    by (simp add: frame_cells_set_cell ih list_update_append take_Suc_conv_app_nth split: prod.split)
qed simp

lemma blue_screen_upd:
  assumes "wf_pages (pages s)"
  shows "\<exists>h. blue_screen s = upd_frame (low_frame VIDEO s) h s
    \<and> (\<forall>g. frame_cells (h g) = map (\<lambda>(c, _). (c, BLUE)) (frame_cells g))"
proof -
  let ?h = "\<lambda>i g. set_cell i (fst (get_cell i g), BLUE) g"
  have "fold (\<lambda>i. vstore (cell VIDEO (int i) + 1) BLUE) [0..<2000] s
      = upd_frame (low_frame VIDEO s) (fold ?h [0..<2000]) s"
  proof (rule fold_upd_frame [where P = "pages s"])
    fix i and s' :: kstate
    assume "i \<in> set [0..<2000]" and p: "pages s' = pages s"
    then have "i < 2000" by simp
    then show "vstore (cell VIDEO (int i) + 1) BLUE s' = upd_frame (low_frame VIDEO s) (?h i) s'"
      using vstore_attribute [of s' i BLUE] assms p by (simp add: low_frame_def)
  qed simp
  moreover have "frame_cells (fold ?h [0..<2000] g) = map (\<lambda>(c, _). (c, BLUE)) (frame_cells g)" for g
    using fold_paint [of 2000 BLUE g] by simp
  ultimately show ?thesis
    unfolding blue_screen_def screen_indices by blast
qed

lemma fold_putc: "active_terminal s = t \<Longrightarrow> wf_pages (pages s) \<Longrightarrow> cursor_ok (terminals s t)
    \<Longrightarrow> fold putc cs s = fold (putc_at t VIDEO) cs s"
proof (induction cs arbitrary: s)
  case (Cons c cs)
  have b: "console_becomes t (low_frame VIDEO s) s (spec_putc c (console_of t (low_frame VIDEO s) s)) (putc_at t VIDEO c s)"
    by (rule putc_at_spec) (use Cons.prems in \<open>simp_all add: video_base_def\<close>)
  then show ?case
    using Cons putc_at_cursor_ok [of s VIDEO t c] console_becomes_frame [OF b]
    by (simp add: putc_def video_base_def)
qed simp

lemma exception_numbers:
  "map_of idt_entries v = Some h \<Longrightarrow> vector_number h = Some n \<Longrightarrow> unat n = unat v \<and> unat n < 20"
  unfolding idt_entries_def SYSTEM_CALL_def by (auto split: if_splits)

lemma blue_screen_console:
  assumes "wf_pages (pages s)"
  defines "f \<equiv> low_frame VIDEO s"
  shows "console_of t f (blue_screen s) = paint BLUE (console_of t f s)"
    and "pages (blue_screen s) = pages s" and "terminals (blue_screen s) = terminals s"
    and "active_terminal (blue_screen s) = active_terminal s"
proof -
  obtain h where h: "blue_screen s = upd_frame f h s"
      "\<And>g. frame_cells (h g) = map (\<lambda>(c, _). (c, BLUE)) (frame_cells g)"
    using blue_screen_upd [OF assms(1)] unfolding f_def by blast
  then show "console_of t f (blue_screen s) = paint BLUE (console_of t f s)"
    and "pages (blue_screen s) = pages s" and "terminals (blue_screen s) = terminals s"
    and "active_terminal (blue_screen s) = active_terminal s"
    by (simp_all add: console_of_def paint_def upd_frame_def)
qed

lemma exception_format:
  "printf (chars ''%s'' @ [newline]) [Str t] s = Some (3, fold putc (t @ [newline]) s)"
  by (simp add: printf_def convert_def chars_def)

section \<open>Properties\<close>

text \<open>C20: Every exception shows its own name: when the processor enters the stub installed at an exception vector, the screen of the active terminal turns blue, keeping its text, and the name of exactly this vector is printed on it as one line; no other exception's name and no undefined string is ever used.\<close>

theorem exception_shows_its_name:
  fixes s :: kstate
  defines "t \<equiv> active_terminal s" and "f \<equiv> low_frame VIDEO s"
  assumes "map_of idt_entries v = Some h" and "vector_number h \<noteq> None"
    and "wf_pages (pages s)" and "cursor_ok (terminals s t)"
  shows "\<exists>s'. exception_wrapper h s = Some s' \<and> unat v < length exceptions
    \<and> console_of t f s' = fold spec_putc (exceptions ! unat v @ [newline]) (paint BLUE (console_of t f s))"
proof -
  obtain n where n: "vector_number h = Some n" using assms(4) by blast
  then have v: "unat n = unat v" "unat n < length exceptions"
    using exception_numbers [OF assms(3) n] by (simp_all add: exceptions_def)
  let ?s = "blue_screen (cli s)" and ?cs = "exceptions ! unat n @ [newline]"
  have w: "wf_pages (pages (cli s))" and f: "f = low_frame VIDEO (cli s)"
    using assms by (simp_all add: cli_def f_def low_frame_def)
  note b = blue_screen_console [OF w]
  have a: "active_terminal ?s = t" "wf_pages (pages ?s)" "cursor_ok (terminals ?s t)" "f = low_frame VIDEO ?s"
    using b assms w f by (simp_all add: cli_def low_frame_def)
  obtain c cs where c: "?cs = c # cs" by (cases ?cs) auto
  let ?s1 = "putc_at t VIDEO c ?s"
  have 1: "console_becomes t f ?s (spec_putc c (console_of t f ?s)) ?s1"
    by (rule putc_at_spec) (use a in \<open>simp_all add: video_base_def\<close>)
  have ok: "cursor_ok (terminals ?s1 t)" by (rule putc_at_cursor_ok) (use a in \<open>simp_all add: video_base_def\<close>)
  have "console_becomes t f ?s1 (fold spec_putc cs (console_of t f ?s1)) (fold (putc_at t VIDEO) cs ?s1)"
    by (rule fold_putc_at_spec [THEN conjunct1])
      (use a ok console_becomes_frame [OF 1] in \<open>simp_all add: video_base_def low_frame_def\<close>)
  then have "console_of t f (fold (putc_at t VIDEO) ?cs ?s) = fold spec_putc ?cs (console_of t f ?s)"
    using console_becomes_console(1) [OF 1] by (simp add: c console_becomes_console(1))
  moreover have "console_of t f ?s = paint BLUE (console_of t f s)"
    using b(1) f by (simp add: console_of_def cli_def)
  ultimately show ?thesis
    using v n fold_putc [OF a(1-3), of ?cs]
    by (simp add: exception_wrapper_def exception_handler_def exception_format del: fold_append)
qed

theorem exception_shows_its_name_witness:
  "\<exists>s'. exception_wrapper exception_page_fault ready_state = Some s'
    \<and> console_of Terminal_1 (low_frame VIDEO ready_state) s'
      = fold spec_putc (chars ''Page Fault'' @ [newline])
          (paint BLUE (console_of Terminal_1 (low_frame VIDEO ready_state) ready_state))"
proof -
  have t: "active_terminal ready_state = Terminal_1" by simp
  have "map_of idt_entries 14 = Some exception_page_fault"
    by (simp add: idt_entries_def SYSTEM_CALL_def)
  from exception_shows_its_name [OF this, of ready_state] ready_state_ok
  show ?thesis by (auto simp: keyboard_ok_def video_ok_def exceptions_def t)
qed

end
