(* ===== verification/Entry_Stubs.thy ===== *)
theory Entry_Stubs
  imports Descriptors
begin

text \<open>
  The assembly linkage of \<^verbatim>\<open>interruptWrapper.S\<close> and \<^verbatim>\<open>syscallWrapper.S\<close>, instruction by instruction, on the
  registers and the kernel stack of the processor. Entering a gate and \<^verbatim>\<open>iret\<close> are what the processor does:
  from user mode it changes to the stack of the task state segment and saves five words, from kernel
  mode it saves three. A stack is the list of its words, the top first; \<^verbatim>\<open>esp\<close> is kept beside it. \<open>None\<close>
  is a fault. A called C function obeys the calling convention as far as the stack goes (it returns with
  the stack as it found it) and is otherwise an arbitrary function on the registers and flags. The nested-task and
  virtual-8086 flags, which lead \<^verbatim>\<open>iret\<close> elsewhere, are taken to be clear.
\<close>

section \<open>The processor\<close>

datatype reg = EAX | ECX | EDX | EBX | EBP | ESI | EDI

definition KERNEL_DS :: "16 word" where
  "KERNEL_DS = 0x0018"

definition USER_CS :: "16 word" where
  "USER_CS = 0x0023"

definition USER_DS :: "16 word" where
  "USER_DS = 0x002B"

record cpu =
  regs :: "reg \<Rightarrow> u32"
  eflags :: u32
  eip :: u32
  cs_reg :: "16 word"
  ss_reg :: "16 word"
  esp_reg :: u32
  stack :: "u32 list"

type_synonym routine = "cpu \<Rightarrow> (reg \<Rightarrow> u32) \<times> u32"

definition push :: "u32 \<Rightarrow> cpu \<Rightarrow> cpu" where
  "push w c = c\<lparr>esp_reg := esp_reg c - 4, stack := w # stack c\<rparr>"

definition pop :: "cpu \<Rightarrow> (u32 \<times> cpu) option" where
  "pop c = (case stack c of [] \<Rightarrow> None | w # ws \<Rightarrow> Some (w, c\<lparr>esp_reg := esp_reg c + 4, stack := ws\<rparr>))"

definition pop_reg :: "reg \<Rightarrow> cpu \<Rightarrow> cpu option" where
  "pop_reg r c = map_option (\<lambda>(w, c). c\<lparr>regs := (regs c)(r := w)\<rparr>) (pop c)"

definition pushal :: "cpu \<Rightarrow> cpu" where
  "pushal c = fold push [regs c EAX, regs c ECX, regs c EDX, regs c EBX, esp_reg c, regs c EBP, regs c ESI, regs c EDI] c"

definition popal :: "cpu \<Rightarrow> cpu option" where
  "popal c = Option.bind (pop_reg EDI c) (\<lambda>c. Option.bind (pop_reg ESI c) (\<lambda>c. Option.bind (pop_reg EBP c) (\<lambda>c.
     Option.bind (pop c) (\<lambda>(_, c). Option.bind (pop_reg EBX c) (\<lambda>c. Option.bind (pop_reg EDX c) (\<lambda>c.
     Option.bind (pop_reg ECX c) (pop_reg EAX)))))))"

definition pushfl :: "cpu \<Rightarrow> cpu" where
  "pushfl c = push (eflags c) c"

definition popfl :: "cpu \<Rightarrow> cpu option" where
  "popfl c = map_option (\<lambda>(w, c). c\<lparr>eflags := w\<rparr>) (pop c)"

definition call_routine :: "routine \<Rightarrow> cpu \<Rightarrow> cpu" where
  "call_routine f c = c\<lparr>regs := fst (f c), eflags := snd (f c)\<rparr>"

text \<open>A trap gate of the kernel; the stack of the task state segment is empty while user code runs.\<close>

definition enter_gate :: "u32 \<Rightarrow> u32 \<Rightarrow> cpu \<Rightarrow> cpu" where
  "enter_gate esp0 target c =
     (let c' = (if cs_reg c = USER_CS
                then push (esp_reg c) (push (ucast (ss_reg c)) (c\<lparr>ss_reg := KERNEL_DS, esp_reg := esp0, stack := []\<rparr>))
                else c)
      in (push (eip c) (push (ucast (cs_reg c)) (push (eflags c) c')))\<lparr>cs_reg := KERNEL_CS, eip := target\<rparr>)"

text \<open>
  Only \<open>KERNEL_CS\<close> and \<open>USER_CS\<close> select code segments; every other selector faults. A return to user mode also loads the
  stack pointer and the stack segment, and only \<open>USER_DS\<close> selects a stack segment of user mode.
\<close>

definition iret :: "cpu \<Rightarrow> cpu option" where
  "iret c = Option.bind (pop c) (\<lambda>(ip, c). Option.bind (pop c) (\<lambda>(sel, c). Option.bind (pop c) (\<lambda>(fl, c).
     let c = c\<lparr>eip := ip, cs_reg := ucast sel, eflags := fl\<rparr>
     in if cs_reg c = KERNEL_CS then Some c
        else if cs_reg c = USER_CS then
          Option.bind (pop c) (\<lambda>(sp, c). Option.bind (pop c) (\<lambda>(seg, c).
            if ucast seg = USER_DS then Some (c\<lparr>esp_reg := sp, ss_reg := ucast seg, stack := []\<rparr>) else None))
        else None)))"

section \<open>The stubs\<close>

definition interrupt_wrapper :: "routine \<Rightarrow> cpu \<Rightarrow> cpu option" where
  "interrupt_wrapper func c =
     (let c = pushal c; c = pushfl c; c = call_routine func c
      in Option.bind (popfl c) (\<lambda>c. Option.bind (popal c) iret))"

definition syscall_stub :: "(nat \<Rightarrow> routine) \<Rightarrow> cpu \<Rightarrow> cpu option" where
  "syscall_stub jumptable c =
     (let c = fold push [regs c EBP, regs c ESI, regs c EDI, regs c EDX, regs c ECX, regs c EBX] c
      in if sint (regs c EAX) < 1 \<or> 10 < sint (regs c EAX)
         then iret (c\<lparr>regs := (regs c)(EAX := -1)\<rparr>)
         else Option.bind (popfl (call_routine (jumptable (unat (regs c EAX))) c)) iret)"

section \<open>Lemmas\<close>

named_theorems stack_code "the stack instructions"

lemmas stack_code_defs [stack_code] = push_def pop_def pop_reg_def pushal_def popal_def pushfl_def popfl_def call_routine_def

lemma segments: "ucast (ucast (w :: 16 word) :: u32) = w" "KERNEL_CS \<noteq> USER_CS" "USER_CS \<noteq> KERNEL_CS"
  by (auto simp: KERNEL_CS_def USER_CS_def bit_simps intro: bit_word_eqI)

lemma all_regs: "(\<forall>r. P r) \<longleftrightarrow> P EAX \<and> P ECX \<and> P EDX \<and> P EBX \<and> P EBP \<and> P ESI \<and> P EDI"
  by (metis reg.exhaust)

lemma wrapper_body:
  "Option.bind (popfl (call_routine func (pushfl (pushal c)))) popal = Some c"
proof -
  have r: "r(EDI := regs c EDI, ESI := regs c ESI, EBP := regs c EBP, EBX := regs c EBX, EDX := regs c EDX,
      ECX := regs c ECX, EAX := regs c EAX) = regs c" for r
    by (simp add: fun_eq_iff all_regs)
  show ?thesis by (simp add: stack_code r)
qed

section \<open>Properties\<close>

text \<open>C18: Interrupts are invisible to the code they interrupt, be it user code (whose stack segment is the user's data segment) or kernel code: whatever the handler does to the registers and flags, the stub restores every general register, the flags, the instruction pointer, the code and stack segments, the stack pointer and the stack contents.\<close>

theorem interrupt_transparent:
  assumes "cs_reg c = USER_CS \<and> ss_reg c = USER_DS \<and> stack c = [] \<or> cs_reg c = KERNEL_CS"
  shows "interrupt_wrapper func (enter_gate esp0 target c) = Some c"
proof -
  have "interrupt_wrapper func c' = iret c'" for c'
    using wrapper_body [of func c']
    by (cases "popfl (call_routine func (pushfl (pushal c')))") (simp_all add: interrupt_wrapper_def Let_def)
  moreover have "iret (enter_gate esp0 target c) = Some c"
  proof (cases "cs_reg c = USER_CS")
    case True
    then have "stack c = []" "ss_reg c = USER_DS" using assms by (auto simp: USER_CS_def KERNEL_CS_def)
    then show ?thesis using True by (cases c) (simp add: enter_gate_def iret_def stack_code segments)
  next
    case False
    then have "cs_reg c = KERNEL_CS" using assms by auto
    then show ?thesis by (cases c) (simp add: enter_gate_def iret_def stack_code segments)
  qed
  ultimately show ?thesis by simp
qed

theorem interrupt_transparent_witness:
  "let c = \<lparr>regs = (\<lambda>_. 7), eflags = 0x202, eip = 0x08048000, cs_reg = USER_CS, ss_reg = USER_DS,
      esp_reg = 0x083FFFF0, stack = []\<rparr>
   in interrupt_wrapper (\<lambda>_. (\<lambda>_. 0, 0)) (enter_gate 0x800000 0x400000 c) = Some c"
  unfolding Let_def by (rule interrupt_transparent) simp

text \<open>C22: The system call stub never removes the six words it pushes, so it does not return to its caller. After the call \<^verbatim>\<open>popfl\<close> takes the caller's \<^verbatim>\<open>ebx\<close> for the flags, and \<^verbatim>\<open>iret\<close> takes \<^verbatim>\<open>ecx\<close> for the instruction pointer, \<^verbatim>\<open>edx\<close> for the code segment, \<^verbatim>\<open>edi\<close> for the flags and, on the way to user mode, \<^verbatim>\<open>ebp\<close> for the stack segment: a system call that returns faults unless \<^verbatim>\<open>edx\<close> holds the kernel's code selector, or the user's together with the user's data selector in \<^verbatim>\<open>ebp\<close>; then the processor goes on at the address in \<^verbatim>\<open>ecx\<close>, in the first case in kernel mode. With an unknown number the same happens with \<^verbatim>\<open>ebx\<close>, \<^verbatim>\<open>ecx\<close>, \<^verbatim>\<open>edx\<close> and \<^verbatim>\<open>esi\<close> in these places.\<close>

theorem syscall_stub_return:
  fixes c :: cpu and jumptable :: "nat \<Rightarrow> routine" and esp0 target :: u32
  assumes "cs_reg c = USER_CS"
  defines "result \<equiv> syscall_stub jumptable (enter_gate esp0 target c)"
  shows "(1 \<le> sint (regs c EAX) \<and> sint (regs c EAX) \<le> 10 \<longrightarrow>
      (result \<noteq> None \<longleftrightarrow> ucast (regs c EDX) = KERNEL_CS \<or> ucast (regs c EDX) = USER_CS \<and> ucast (regs c EBP) = USER_DS)
      \<and> (\<forall>d. result = Some d \<longrightarrow> eip d = regs c ECX \<and> cs_reg d = ucast (regs c EDX) \<and> eflags d = regs c EDI))
    \<and> (\<not> (1 \<le> sint (regs c EAX) \<and> sint (regs c EAX) \<le> 10) \<longrightarrow>
      (result \<noteq> None \<longleftrightarrow> ucast (regs c ECX) = KERNEL_CS \<or> ucast (regs c ECX) = USER_CS \<and> ucast (regs c ESI) = USER_DS)
      \<and> (\<forall>d. result = Some d \<longrightarrow> eip d = regs c EBX \<and> cs_reg d = ucast (regs c ECX) \<and> eflags d = regs c EDX))"
  unfolding result_def using assms(1)
  by (auto simp: syscall_stub_def enter_gate_def iret_def stack_code Let_def segments split: if_splits)

theorem syscall_stub_return_witness:
  "syscall_stub (\<lambda>_ _. (\<lambda>_. 3, 2)) (enter_gate 0x800000 0x400000
     \<lparr>regs = (\<lambda>_. 0)(EAX := 4, EBX := 1, ECX := 0x08049000, EDX := 5), eflags = 0x202, eip = 0x08048000,
      cs_reg = USER_CS, ss_reg = USER_DS, esp_reg = 0x083FFFF0, stack = []\<rparr>) = None"
proof -
  let ?c = "\<lparr>regs = (\<lambda>_. 0)(EAX := 4, EBX := 1, ECX := 0x08049000, EDX := 5), eflags = 0x202, eip = 0x08048000,
      cs_reg = USER_CS, ss_reg = USER_DS, esp_reg = 0x083FFFF0, stack = []\<rparr>"
  show ?thesis
    using syscall_stub_return [of ?c]
    by (simp add: KERNEL_CS_def USER_CS_def)
qed

end
