(* ===== verification/Boot.thy ===== *)
theory Boot
  imports Multitasking Entry_Stubs
begin

text \<open>
  Starting the kernel (\<open>entry\<close> of \<^verbatim>\<open>kernel.c\<close>): \<open>entry_report\<close> prints what the boot loader passed and finds the file
  system image, \<open>entry_setup\<close> builds the descriptor tables, initialises the devices and paging and creates
  the three shells. The loops over the modules and the memory map run as long as memory says, so they
  are partial functions: \<open>None\<close> is a loop that does not end or a string that does not. The addresses the
  linker chooses are a record of their own; the contents of uninitialised local variables are arguments.
  Setting up is modelled without interrupts in between.
\<close>

section \<open>The report on the boot loader's data\<close>

definition MULTIBOOT_BOOTLOADER_MAGIC :: u32 where
  "MULTIBOOT_BOOTLOADER_MAGIC = 0x2BADB002"

definition CHECK_FLAG :: "u32 \<Rightarrow> nat \<Rightarrow> bool" where
  "CHECK_FLAG fl b \<longleftrightarrow> bit fl b"

text \<open>The fields of the structures of \<^verbatim>\<open>multiboot.h\<close> as offsets: all are 32 bits wide.\<close>

definition mbi_flags :: "mem \<Rightarrow> addr \<Rightarrow> u32" where "mbi_flags M mbi = load32 M mbi"
definition mem_lower :: "mem \<Rightarrow> addr \<Rightarrow> u32" where "mem_lower M mbi = load32 M (mbi + 4)"
definition mem_upper :: "mem \<Rightarrow> addr \<Rightarrow> u32" where "mem_upper M mbi = load32 M (mbi + 8)"
definition boot_device :: "mem \<Rightarrow> addr \<Rightarrow> u32" where "boot_device M mbi = load32 M (mbi + 12)"
definition cmdline :: "mem \<Rightarrow> addr \<Rightarrow> u32" where "cmdline M mbi = load32 M (mbi + 16)"
definition mods_count :: "mem \<Rightarrow> addr \<Rightarrow> u32" where "mods_count M mbi = load32 M (mbi + 20)"
definition mods_addr :: "mem \<Rightarrow> addr \<Rightarrow> u32" where "mods_addr M mbi = load32 M (mbi + 24)"
definition elf_sec :: "addr \<Rightarrow> addr" where "elf_sec mbi = mbi + 28"
definition mmap_length :: "mem \<Rightarrow> addr \<Rightarrow> u32" where "mmap_length M mbi = load32 M (mbi + 44)"
definition mmap_addr :: "mem \<Rightarrow> addr \<Rightarrow> u32" where "mmap_addr M mbi = load32 M (mbi + 48)"
definition mod_start :: "mem \<Rightarrow> addr \<Rightarrow> u32" where "mod_start M md = load32 M md"
definition mod_end :: "mem \<Rightarrow> addr \<Rightarrow> u32" where "mod_end M md = load32 M (md + 4)"

definition kprintf :: "string \<Rightarrow> byte list \<Rightarrow> printf_arg list \<Rightarrow> kstate \<Rightarrow> kstate option" where
  "kprintf format tail args s = map_option snd (printf (chars format @ tail) args s)"

text \<open>\<^verbatim>\<open>%x\<close> of a plain \<open>char\<close>: the byte is sign-extended.\<close>

definition print_byte :: "addr \<Rightarrow> nat \<Rightarrow> kstate \<Rightarrow> kstate option" where
  "print_byte start i s = kprintf ''0x%x '' [] [Num (scast (vload s (start + of_nat i)))] s"

primrec print_bytes :: "addr \<Rightarrow> nat list \<Rightarrow> kstate \<Rightarrow> kstate option" where
  "print_bytes start [] s = Some s"
| "print_bytes start (i # is) s = Option.bind (print_byte start i s) (print_bytes start is)"

definition print_module :: "u32 \<Rightarrow> addr \<Rightarrow> kstate \<Rightarrow> kstate option" where
  "print_module count md s =
     Option.bind (kprintf ''Module %d loaded at address: 0x%#x'' [newline] [Num count, Num (mod_start (view s) md)] s) (\<lambda>s.
     Option.bind (kprintf ''Module %d ends at address: 0x%#x'' [newline] [Num count, Num (mod_end (view s) md)] s) (\<lambda>s.
     Option.bind (kprintf ''First few bytes of module:'' [newline] [] s) (\<lambda>s.
     Option.bind (print_bytes (mod_start (view s) md) [0..<16] s) (\<lambda>s.
     kprintf '''' [newline] [] s))))"

partial_function (option) print_modules :: "addr \<Rightarrow> u32 \<Rightarrow> addr \<Rightarrow> kstate \<Rightarrow> kstate option" where
  "print_modules mbi count md s =
     (if count < mods_count (view s) mbi
      then Option.bind (print_module count md s) (\<lambda>s. print_modules mbi (count + 1) (md + 16) s)
      else Some s)"

definition print_region :: "addr \<Rightarrow> kstate \<Rightarrow> kstate option" where
  "print_region m s =
     (let M = view s
      in kprintf ''    size = 0x%x, base_addr = 0x%#x%#x''
           ([newline] @ chars ''    type = 0x%x,  length    = 0x%#x%#x'' @ [newline])
           [Num (load32 M m), Num (load32 M (m + 8)), Num (load32 M (m + 4)), Num (load32 M (m + 20)),
            Num (load32 M (m + 16)), Num (load32 M (m + 12))] s)"

partial_function (option) print_regions :: "addr \<Rightarrow> addr \<Rightarrow> kstate \<Rightarrow> kstate option" where
  "print_regions mbi m s =
     (if m < mmap_addr (view s) mbi + mmap_length (view s) mbi
      then Option.bind (print_region m s) (\<lambda>s. print_regions mbi (m + load32 (view s) m + 4) s)
      else Some s)"

text \<open>One part of the report: printed only when its flag is set, looked up when its turn comes.\<close>

definition when_flag :: "addr \<Rightarrow> nat \<Rightarrow> (kstate \<Rightarrow> kstate option) \<Rightarrow> kstate \<Rightarrow> kstate option" where
  "when_flag mbi b f s = (if CHECK_FLAG (mbi_flags (view s) mbi) b then f s else Some s)"

definition report_memory :: "addr \<Rightarrow> kstate \<Rightarrow> kstate option" where
  "report_memory mbi s = kprintf ''mem_lower = %uKB, mem_upper = %uKB'' [newline]
     [Num (mem_lower (view s) mbi), Num (mem_upper (view s) mbi)] s"

definition report_device :: "addr \<Rightarrow> kstate \<Rightarrow> kstate option" where
  "report_device mbi s = kprintf ''boot_device = 0x%#x'' [newline] [Num (boot_device (view s) mbi)] s"

definition report_cmdline :: "addr \<Rightarrow> kstate \<Rightarrow> kstate option" where
  "report_cmdline mbi s = Option.bind (string_at (view s) (cmdline (view s) mbi))
     (\<lambda>cs. kprintf ''cmdline = %s'' [newline] [Str cs] s)"

definition load_modules :: "addr \<Rightarrow> kstate \<Rightarrow> kstate option" where
  "load_modules mbi s =
     (let md = mods_addr (view s) mbi;
          s = s\<lparr>boot_block_pointer := init_filesystem (mod_start (view s) md)\<rparr>
      in print_modules mbi 0 md s)"

definition report_sections :: "addr \<Rightarrow> kstate \<Rightarrow> kstate option" where
  "report_sections mbi s =
     (let e = elf_sec mbi; M = view s
      in kprintf ''elf_sec: num = %u, size = 0x%#x, addr = 0x%#x, shndx = 0x%#x'' [newline]
           [Num (load32 M e), Num (load32 M (e + 4)), Num (load32 M (e + 8)), Num (load32 M (e + 12))] s)"

definition report_map :: "addr \<Rightarrow> kstate \<Rightarrow> kstate option" where
  "report_map mbi s =
     Option.bind (kprintf ''mmap_addr = 0x%#x, mmap_length = 0x%x'' [newline]
       [Num (mmap_addr (view s) mbi), Num (mmap_length (view s) mbi)] s)
       (\<lambda>s. print_regions mbi (mmap_addr (view s) mbi) s)"

text \<open>The result says whether starting goes on.\<close>

definition entry_report :: "u32 \<Rightarrow> addr \<Rightarrow> kstate \<Rightarrow> (bool \<times> kstate) option" where
  "entry_report magic mbi s =
     (let s = clear s
      in if magic \<noteq> MULTIBOOT_BOOTLOADER_MAGIC
         then map_option (Pair False) (kprintf ''Invalid magic number: 0x%#x'' [newline] [Num magic] s)
         else
           Option.bind (kprintf ''flags = 0x%#x'' [newline] [Num (mbi_flags (view s) mbi)] s) (\<lambda>s.
           Option.bind (when_flag mbi 0 (report_memory mbi) s) (\<lambda>s.
           Option.bind (when_flag mbi 1 (report_device mbi) s) (\<lambda>s.
           Option.bind (when_flag mbi 2 (report_cmdline mbi) s) (\<lambda>s.
           Option.bind (when_flag mbi 3 (load_modules mbi) s) (\<lambda>s.
           if CHECK_FLAG (mbi_flags (view s) mbi) 4 \<and> CHECK_FLAG (mbi_flags (view s) mbi) 5
           then map_option (Pair False) (kprintf ''Both bits 4 and 5 are set.'' [newline] [] s)
           else
             Option.bind (when_flag mbi 5 (report_sections mbi) s) (\<lambda>s.
             map_option (Pair True) (when_flag mbi 6 (report_map mbi) s))))))))"

section \<open>Setting up\<close>

definition KERNEL_TSS :: "16 word" where
  "KERNEL_TSS = 0x0030"

definition KERNEL_LDT :: "16 word" where
  "KERNEL_LDT = 0x0038"

text \<open>What the linker and the tables of \<^verbatim>\<open>x86_desc.S\<close> fix.\<close>

record link_map =
  ldt_at :: u32
  ldt_size :: u32
  tss_at :: u32
  tss_size :: u32
  idt_at :: u32
  handler_at :: "handler \<Rightarrow> u32"

record machine =
  kernel :: kstate
  ldt_desc_ptr :: seg_desc
  tss_desc_ptr :: seg_desc
  tss_ldt_segment_selector :: "16 word"
  tss_ss0 :: "16 word"
  ldtr :: "16 word"
  task_register :: "16 word"
  idt :: "byte \<Rightarrow> idt_desc"
  idtr :: table_register

definition entry_segments :: "link_map \<Rightarrow> seg_desc \<Rightarrow> seg_desc \<Rightarrow> machine \<Rightarrow> machine" where
  "entry_segments lk junk1 junk2 m = m\<lparr>
     ldt_desc_ptr := the_ldt_desc (ldt_at lk) (ldt_size lk) junk1, ldtr := KERNEL_LDT,
     tss_desc_ptr := the_tss_desc (tss_at lk) (tss_size lk) junk2,
     tss_ldt_segment_selector := KERNEL_LDT, tss_ss0 := KERNEL_DS,
     kernel := (kernel m)\<lparr>tss_esp0 := 0x800000\<rparr>, task_register := KERNEL_TSS\<rparr>"

definition entry_devices :: "kstate \<Rightarrow> kstate" where
  "entry_devices s =
     (let s = keyboard_init s;
          s = rtc_enable_pie s;
          s = enable_irq IRQ_NUMBER_REAL_TIME_CLOCK s;
          s = s\<lparr>pages := page_initialize (pages s)\<rparr>;
          s = kprint (chars ''Enabling Interrupts'' @ [newline]) s
      in clear s)"

definition entry_shells :: "byte list \<Rightarrow> byte list \<Rightarrow> byte list \<Rightarrow> kstate \<Rightarrow> kstate option" where
  "entry_shells buf1 buf2 buf3 s =
     Option.bind (create_terminal_1_shell buf1 s) (\<lambda>s.
     Option.bind (create_terminal_2_shell buf2 s) (\<lambda>s.
     create_terminal_3_shell buf3 s))"

definition entry_setup ::
  "link_map \<Rightarrow> seg_desc \<Rightarrow> seg_desc \<Rightarrow> byte list \<Rightarrow> byte list \<Rightarrow> byte list \<Rightarrow> machine \<Rightarrow> machine option"
where
  "entry_setup lk junk1 junk2 buf1 buf2 buf3 m =
     (let m = entry_segments lk junk1 junk2 m;
          m = m\<lparr>kernel := i8259_init (kernel m)\<rparr>;
          (table, r) = idt_init (handler_at lk) (idt_at lk) (idt m);
          m = m\<lparr>idt := table, idtr := r\<rparr>
      in map_option (\<lambda>s. m\<lparr>kernel := sti (pit_init s)\<rparr>)
           (entry_shells buf1 buf2 buf3 (entry_devices (kernel m))))"

text \<open>The whole function; \<open>Inl\<close> when it returns early, \<open>Inr\<close> when it ends in the idle loop.\<close>

definition kernel_entry :: "link_map \<Rightarrow> seg_desc \<Rightarrow> seg_desc \<Rightarrow> byte list \<Rightarrow> byte list \<Rightarrow> byte list
    \<Rightarrow> u32 \<Rightarrow> addr \<Rightarrow> machine \<Rightarrow> (machine + machine) option"
where
  "kernel_entry lk junk1 junk2 buf1 buf2 buf3 magic addr m =
     Option.bind (entry_report magic addr (kernel m)) (\<lambda>(go, s).
       let m = m\<lparr>kernel := s\<rparr>
       in if go then map_option Inr (entry_setup lk junk1 junk2 buf1 buf2 buf3 m) else Some (Inl m))"

section \<open>What the report leaves alone\<close>

definition boot_view where
  "boot_view s = (pages s, (\<lambda>t. (terminals s t)\<lparr>screen_x := 0, screen_y := 0\<rparr>), active_terminal s, current_terminal s,
     active_pid s, process_count s, processes s, pcbs s, shift_pressed s, caps_lock s)"

interpretation boot: output_view boot_view
  by unfold_locales (auto simp: boot_view_def fun_eq_iff)

text \<open>Everything but the memory, the cursors, the output to ports and the interrupt flag.\<close>

definition all_variables :: "kstate \<Rightarrow> kstate" where
  "all_variables s = s\<lparr>pmem := (\<lambda>_ _. 0), terminals := (\<lambda>t. (terminals s t)\<lparr>screen_x := 0, screen_y := 0\<rparr>), io_log := [], iflag := False\<rparr>"

interpretation variables: output_view all_variables
  by unfold_locales (auto simp: all_variables_def upd_terminal_def fun_eq_iff)

lemma padded_digits:
  "\<exists>ds. conv_padded v = Some (map digit_char ds) \<and> length ds = 8 \<and> horner 16 ds = unat v \<and> set ds \<subseteq> {..<16}"
  using printf_hex_digits [of v] conv_padded_text [of v] by (auto simp: convert_def)

text \<open>The steps of the report as functions that keep an observation.\<close>

definition keeps :: "(kstate \<Rightarrow> 'v) \<Rightarrow> (kstate \<Rightarrow> kstate option) \<Rightarrow> bool" where
  "keeps obs f \<longleftrightarrow> (\<forall>s u. f s = Some u \<longrightarrow> obs u = obs s)"

lemma keepsD: "keeps obs f \<Longrightarrow> f s = Some u \<Longrightarrow> obs u = obs s"
  by (simp add: keeps_def)

lemma keeps_when_flag: "keeps obs f \<Longrightarrow> keeps obs (when_flag mbi b f)"
  by (auto simp: keeps_def when_flag_def)

lemma kprintf_keeps: "kprintf format tail args s = Some u \<Longrightarrow> boot_view u = boot_view s"
  using boot.obs_printf by (auto simp: kprintf_def)

lemma print_bytes_keeps: "print_bytes start is s = Some u \<Longrightarrow> boot_view u = boot_view s"
  by (induction "is" arbitrary: s) (auto simp: bind_eq_Some_conv print_byte_def dest!: kprintf_keeps)

lemma print_module_keeps: "print_module count md s = Some u \<Longrightarrow> boot_view u = boot_view s"
  by (auto simp: print_module_def bind_eq_Some_conv dest!: kprintf_keeps print_bytes_keeps)

lemma print_modules_keeps: "print_modules mbi count md s = Some u \<Longrightarrow> boot_view u = boot_view s"
  by (rule print_modules.raw_induct [where P = "\<lambda>mbi count md s u. boot_view u = boot_view s"])
    (auto simp: bind_eq_Some_conv dest!: print_module_keeps split: if_splits)

lemma print_regions_keeps: "print_regions mbi m s = Some u \<Longrightarrow> boot_view u = boot_view s"
  by (rule print_regions.raw_induct [where P = "\<lambda>mbi m s u. boot_view u = boot_view s"])
    (auto simp: bind_eq_Some_conv print_region_def Let_def dest!: kprintf_keeps split: if_splits)

lemma report_parts_keep:
  "keeps boot_view (report_memory mbi)" "keeps boot_view (report_device mbi)" "keeps boot_view (report_cmdline mbi)"
  "keeps boot_view (load_modules mbi)" "keeps boot_view (report_sections mbi)" "keeps boot_view (report_map mbi)"
proof -
  have "boot_view (s\<lparr>boot_block_pointer := p\<rparr>) = boot_view s" for s p by (simp add: boot_view_def)
  then show "keeps boot_view (load_modules mbi)" by (auto simp: keeps_def load_modules_def Let_def dest!: print_modules_keeps)
qed (auto simp: keeps_def report_memory_def report_device_def report_cmdline_def report_sections_def report_map_def
    Let_def bind_eq_Some_conv dest!: kprintf_keeps print_regions_keeps)

lemmas report_keeps_parts = report_parts_keep [THEN keeps_when_flag, THEN keepsD]

lemma entry_report_keeps:
  assumes "entry_report magic mbi s = Some (go, u)"
  shows "boot_view u = boot_view s"
proof -
  have "boot_view (clear s) = boot_view s" by simp
  then show ?thesis
    using assms unfolding entry_report_def Let_def
    by (auto simp: bind_eq_Some_conv simp del: boot.obs_console split: if_splits
        dest!: kprintf_keeps report_keeps_parts)
qed

section \<open>What setting up establishes\<close>

lemma boot_view_ports [simp]:
  "boot_view (i8259_init s) = boot_view s" "boot_view (rtc_enable_pie s) = boot_view s"
  "boot_view (s\<lparr>tss_esp0 := w\<rparr>) = boot_view s"
  by (simp_all add: i8259_init_def rtc_enable_pie_def Let_def) (simp add: boot_view_def)

lemma pmem_ports [simp]:
  "pmem (outb v p s) = pmem s" "pmem (enable_irq n s) = pmem s"
  "pmem (i8259_init s) = pmem s" "pmem (rtc_enable_pie s) = pmem s"
  by (simp_all add: i8259_init_def rtc_enable_pie_def enable_irq_def outb_def Let_def)

lemma clear_ok:
  assumes "keyboard_ok s"
  shows "keyboard_ok (clear s)" and "kernel_memory (clear s) = kernel_memory s"
proof -
  have v: "video_ok s" using assms by (simp add: keyboard_ok_def)
  note b = video_bases [OF v]
  have c: "console_becomes (active_terminal s) (low_frame VIDEO s) s \<lparr>cells = replicate 2000 (blank, ATTRIB), col = 0, row = 0\<rparr> (clear s)"
    unfolding clear_def by (rule clear_at_spec [OF b(3,5) refl])
  have "cursor_ok (terminals (clear s) (active_terminal s))"
    using console_becomes_frame(10) [OF c] by (simp add: cursor_ok_def)
  then show "keyboard_ok (clear s)" by (rule keyboard_ok_becomes [OF assms c])
  show "kernel_memory (clear s) = kernel_memory s" by (rule kernel_memory_becomes [OF c video_targets(1) [OF v]])
qed

lemma keyboard_ok_execute:
  assumes "keyboard_ok s" and "pid \<le> 6"
  shows "keyboard_ok (paging_execute pid s)"
  using assms wf_set_user_page [OF _ assms(2), of "pages s"]
  by (simp add: keyboard_ok_def video_ok_def paging_execute_def low_frame_def shown_frame_def)
    (simp add: set_user_page_def)

text \<open>The state the boot loader leaves, whatever the report printed.\<close>

definition loaded :: "kstate \<Rightarrow> bool" where
  "loaded s \<longleftrightarrow> (\<exists>blocks tab_at vidmap_at memory dev. frame_of tab_at \<noteq> frame_of vidmap_at
     \<and> boot_view s = boot_view (static_state blocks tab_at vidmap_at memory dev))"

lemma loaded_fields:
  assumes "loaded s"
  shows "frame_of (pg_tab_1_at (pages s)) \<noteq> frame_of (vidmap_pg_tab_1_at (pages s))"
    and "length (key_buf (terminals s t)) = 128" and "active_terminal s = Terminal_1" "current_terminal s = Terminal_1"
    and "active_pid s = 0" "process_count s = 3" "processes s = [1, 1, 1, 1, 0, 0, 0]"
    and "shift_pressed s = 0" "caps_lock s = 0"
proof -
  obtain blocks tab_at vidmap_at memory dev where ne: "frame_of tab_at \<noteq> frame_of vidmap_at"
    and e: "boot_view s = boot_view (static_state blocks tab_at vidmap_at memory dev)"
    using assms unfolding loaded_def by blast
  have "(terminals s t)\<lparr>screen_x := 0, screen_y := 0\<rparr> = zero_terminal\<lparr>screen_x := 0, screen_y := 0\<rparr>"
    using e by (simp add: boot_view_def static_state_def fun_eq_iff)
  then have "key_buf ((terminals s t)\<lparr>screen_x := 0, screen_y := 0\<rparr>) = key_buf (zero_terminal\<lparr>screen_x := 0, screen_y := 0\<rparr>)"
    by simp
  then show "length (key_buf (terminals s t)) = 128" by (simp add: zero_terminal_def)
qed (use assms in \<open>auto simp: loaded_def boot_view_def static_state_def static_tables_def\<close>)

lemma loaded_view: "boot_view s' = boot_view s \<Longrightarrow> loaded s' = loaded s"
  by (simp add: loaded_def)

text \<open>The state in which paging has just been turned on.\<close>

definition paged :: "kstate \<Rightarrow> kstate" where
  "paged s = (let s = enable_irq IRQ_NUMBER_REAL_TIME_CLOCK (rtc_enable_pie (keyboard_init s))
     in s\<lparr>pages := page_initialize (pages s)\<rparr>)"

lemma paged_fields:
  "pages (paged s) = page_initialize (pages s)" "active_terminal (paged s) = active_terminal s"
  "current_terminal (paged s) = current_terminal s" "shift_pressed (paged s) = shift_pressed s"
  "caps_lock (paged s) = caps_lock s" "pmem (paged s) = pmem s" "terminals (paged s) = terminals (keyboard_init s)"
  "active_pid (paged s) = active_pid s" "process_count (paged s) = process_count s" "processes (paged s) = processes s"
  "pcbs (paged s) = pcbs s" "boot_block_pointer (paged s) = boot_block_pointer s"
  by (simp_all add: paged_def Let_def rtc_enable_pie_def enable_irq_def outb_def keyboard_init_def init_terminal_def)

lemma paged_ok:
  assumes "loaded s"
  shows "keyboard_ok (paged s)" and "kernel_memory (paged s) = kernel_memory s"
    and "proc_view (paged s) = proc_view (keyboard_init s)"
proof -
  note l = loaded_fields [OF assms]
  have wf: "wf_pages (pages (paged s))" unfolding paged_fields by (rule wf_page_initialize [OF l(1)])
  have "low_frame VIDEO (paged s) = shown_frame (active_terminal (paged s)) (paged s)"
    by (simp add: low_frame_def shown_frame_def paged_fields l page_initialize_def VIDEO_def page_index_def
        video_pte_def video_consts frame_of_def)
  then show "keyboard_ok (paged s)"
    using wf l by (auto simp: keyboard_ok_def video_ok_def keyboard_init_terminals cursor_ok_def line_ok_def
        VIDEO_MEM_def paged_fields)
  show "kernel_memory (paged s) = kernel_memory s" by (rule kernel_memory_pmem) (simp add: paged_fields)
  show "proc_view (paged s) = proc_view (keyboard_init s)"
    by (simp add: proc_view_def paged_fields) (simp add: keyboard_init_def init_terminal_def Let_def enable_irq_def outb_def)
qed

lemma entry_devices_ok:
  assumes "loaded s"
  shows "keyboard_ok (entry_devices s)" and "kernel_memory (entry_devices s) = kernel_memory s"
    and "proc_view (entry_devices s) = proc_view (keyboard_init s)"
    and "boot_block_pointer (entry_devices s) = boot_block_pointer s"
    and "read_view (entry_devices s) = read_view (keyboard_init s)"
proof -
  let ?m = "chars ''Enabling Interrupts'' @ [newline]"
  have e: "entry_devices s = clear (kprint ?m (paged s))" by (simp add: entry_devices_def paged_def Let_def)
  note p = paged_ok [OF assms]
  have k: "keyboard_ok (kprint ?m (paged s))" by (rule keyboard_ok_kprint [OF p(1)])
  show "keyboard_ok (entry_devices s)" unfolding e by (rule clear_ok(1) [OF k])
  show "kernel_memory (entry_devices s) = kernel_memory s"
    unfolding e clear_ok(2) [OF k] kernel_memory_kprint [OF p(1)] p(2) by (rule refl)
  show "proc_view (entry_devices s) = proc_view (keyboard_init s)" unfolding e by (simp add: p(3))
  show "boot_block_pointer (entry_devices s) = boot_block_pointer s" unfolding e by (simp add: paged_fields)
  have "read_view (paged s) = read_view (keyboard_init s)" by (simp add: read_view_def paged_fields(7))
  then show "read_view (entry_devices s) = read_view (keyboard_init s)" unfolding e by simp
qed

text \<open>
  The image in the kernel's page contains an executable file \<open>shell\<close>: every state that agrees on that page
  and on where the image starts finds it, whatever the buffer for the magic bytes held.
\<close>

definition shell_installed :: "kstate \<Rightarrow> bool" where
  "shell_installed s \<longleftrightarrow> (\<forall>u junk. wf_pages (pages u) \<and> kernel_memory u = kernel_memory s
       \<and> boot_block_pointer u = boot_block_pointer s
     \<longrightarrow> (\<exists>r fd. file_open (view u) (boot_block_pointer u) (-1) (Some (cptr_of (chars ''shell''))) = Some (r, fd)
          \<and> r \<noteq> -1 \<and> is_executable (view u) (boot_block_pointer u) fd junk))"

lemma shell_installed_same:
  "kernel_memory u = kernel_memory s \<Longrightarrow> boot_block_pointer u = boot_block_pointer s
     \<Longrightarrow> shell_installed u = shell_installed s"
  by (simp add: shell_installed_def)

text \<open>What creating a shell does, apart from loading its program.\<close>

definition shell_created :: "term_ptr \<Rightarrow> u32 \<Rightarrow> kstate \<Rightarrow> kstate \<Rightarrow> bool" where
  "shell_created t pid s u \<longleftrightarrow> keyboard_ok u \<and> kernel_memory u = kernel_memory s
     \<and> boot_block_pointer u = boot_block_pointer s \<and> read_view u = read_view s
     \<and> (\<exists>f. proc_view u = proc_view (upd_terminal t (\<lambda>T. T\<lparr>current_process_id := 0\<rparr>) (upd_pcb pid f s))
         \<and> pcbs u = pcbs (upd_pcb pid f s)
         \<and> (\<forall>p. fd_table_ok (f p) \<and> parent_pid (f p) = 0 \<and> pcb_terminal (f p) = t))"

lemma proc_view_execute_congr:
  "proc_view (paging_execute pid s) = proc_view s"
  by (simp add: proc_view_def paging_execute_def)

lemma create_shell_ok:
  assumes ok: "keyboard_ok s" and pid: "pid \<le> 6" and sh: "shell_installed s"
  shows "\<exists>u. create_shell t pid junk s = Some u \<and> shell_created t pid s u"
proof -
  have wf: "wf_pages (pages s)" using ok by (simp add: keyboard_ok_def video_ok_def)
  obtain r fd where fo: "file_open (view s) (boot_block_pointer s) (-1) (Some (cptr_of (chars ''shell''))) = Some (r, fd)"
      "r \<noteq> -1" "is_executable (view s) (boot_block_pointer s) fd junk"
    using sh wf unfolding shell_installed_def by blast
  let ?v = "paging_execute pid s" and ?w = "load_program fd (paging_execute pid s)"
  define f where "f = (\<lambda>p. (snd (file_descriptor_table_init p))\<lparr>current_pid := pid, parent_pid := 0,
      current_esp := USER_STACK_BASE_ADDRESS, current_ebp := USER_STACK_BASE_ADDRESS,
      current_eip := entry_point ?w, vidmap_flag := 0, pcb_terminal := t, pcb_arg_buf := replicate MAX_ARG_LENGTH 0\<rparr>)"
  let ?u = "upd_terminal t (\<lambda>T. T\<lparr>current_process_id := 0\<rparr>) (upd_pcb pid f ?w)"
  have e: "create_shell t pid junk s = Some ?u" by (simp add: create_shell_def fo Let_def f_def)
  have kv: "keyboard_ok ?v" by (rule keyboard_ok_execute [OF ok pid])
  have sv: "screen_view ?u = screen_view ?v"
    by (simp add: screen_view_upd_terminal term_core_def load_program_def)
  have 1: "keyboard_ok ?u" using keyboard_ok_view [OF sv] kv by simp
  have wv: "wf_pages (pages ?v)" using kv by (simp add: keyboard_ok_def video_ok_def)
  have 2: "kernel_memory ?u = kernel_memory s"
    using kernel_memory_load_program [OF wv, of fd] kernel_memory_pmem [of ?u ?w] by simp
  have 3: "boot_block_pointer ?u = boot_block_pointer s" "read_view ?u = read_view s" by simp_all
  have pw: "pcbs ?w = pcbs s" by simp
  have pvw: "proc_view ?w = proc_view s" by (simp add: proc_view_execute_congr)
  have 4: "proc_view ?u = proc_view (upd_terminal t (\<lambda>T. T\<lparr>current_process_id := 0\<rparr>) (upd_pcb pid f s))"
    using pvw pw by (auto simp: proc_view_def upd_pcb_def pcb_of_def fun_eq_iff)
  have 5: "pcbs ?u = pcbs (upd_pcb pid f s)" using pw by (simp add: upd_pcb_def pcb_of_def)
  have 6: "fd_table_ok (f p) \<and> parent_pid (f p) = 0 \<and> pcb_terminal (f p) = t" for p
    using table_init_ok [of p] by (simp add: f_def fd_table_ok_def)
  show ?thesis unfolding shell_created_def using e 1 2 3 4 5 6 by blast
qed

text \<open>The three shells are set up, none has been entered.\<close>

lemma entry_shells_ok:
  assumes ok: "keyboard_ok s" and sh: "shell_installed s"
  shows "\<exists>u. entry_shells b1 b2 b3 s = Some u \<and> keyboard_ok u \<and> kernel_memory u = kernel_memory s
    \<and> boot_block_pointer u = boot_block_pointer s \<and> read_view u = read_view s
    \<and> (\<forall>t. fd_table_ok (pcb_of (root_pid t) u) \<and> pcb_terminal (pcb_of (root_pid t) u) = t)
    \<and> active_terminal u = active_terminal s \<and> active_pid u = active_pid s \<and> process_count u = process_count s
    \<and> processes u = processes s \<and> (\<forall>t. current_process_id (terminals u t) = 0)"
proof -
  obtain u1 where u1: "create_shell Terminal_1 1 b1 s = Some u1" "shell_created Terminal_1 1 s u1"
    using create_shell_ok [OF ok _ sh, of 1] by auto
  then have 1: "keyboard_ok u1" "shell_installed u1"
    using shell_installed_same [of u1 s] sh by (simp_all add: shell_created_def)
  obtain u2 where u2: "create_shell Terminal_2 2 b2 u1 = Some u2" "shell_created Terminal_2 2 u1 u2"
    using create_shell_ok [OF 1(1) _ 1(2), of 2] by auto
  then have 2: "keyboard_ok u2" "shell_installed u2"
    using shell_installed_same [of u2 u1] 1 by (simp_all add: shell_created_def)
  obtain u3 where u3: "create_shell Terminal_3 3 b3 u2 = Some u3" "shell_created Terminal_3 3 u2 u3"
    using create_shell_ok [OF 2(1) _ 2(2), of 3] by auto
  obtain f1 f2 f3 where p1: "pcbs u1 = pcbs (upd_pcb 1 f1 s)" and p2: "pcbs u2 = pcbs (upd_pcb 2 f2 u1)"
    and p3: "pcbs u3 = pcbs (upd_pcb 3 f3 u2)"
    and f: "\<And>p. fd_table_ok (f1 p) \<and> pcb_terminal (f1 p) = Terminal_1" "\<And>p. fd_table_ok (f2 p) \<and> pcb_terminal (f2 p) = Terminal_2"
      "\<And>p. fd_table_ok (f3 p) \<and> pcb_terminal (f3 p) = Terminal_3"
    using u1(2) u2(2) u3(2) unfolding shell_created_def by blast
  have pc: "fd_table_ok (pcb_of (root_pid t) u3) \<and> pcb_terminal (pcb_of (root_pid t) u3) = t" for t
    using f by (cases t) (simp_all add: root_pid_def pcb_of_def p1 p2 p3 upd_pcb_def pcb_addr_small)
  have "entry_shells b1 b2 b3 s = Some u3"
    using u1 u2 u3 by (simp add: entry_shells_def create_terminal_1_shell_def create_terminal_2_shell_def create_terminal_3_shell_def)
  moreover have "current_process_id (terminals u3 t) = 0" for t
    using u1(2) u2(2) u3(2) by (cases t) (auto simp: shell_created_def proc_view_def fun_eq_iff split: if_splits)
  ultimately show ?thesis
    using pc u1(2) u2(2) u3(2) unfolding shell_created_def by (auto simp: proc_view_def)
qed

lemma refines_boot:
  assumes "active_terminal u = Terminal_1" "active_pid u = 0" "process_count u = 3" "processes u = [1, 1, 1, 1, 0, 0, 0]"
    and "\<And>t. current_process_id (terminals u t) = 0" and "\<And>t. pcb_terminal (pcb_of (root_pid t) u) = t"
  shows "refines spec_boot u"
proof -
  have s: "sp_running spec_boot t = 0" "sp_chain spec_boot t = [root_pid t]" "sp_all spec_boot = []" for t
    by (simp_all add: sp_running_def sp_chain_def sp_all_def spec_boot_def)
  show ?thesis unfolding refines_def s using assms by (simp add: spec_boot_def spec_ok_def sp_all_def pool_of_def)
qed

section \<open>Properties\<close>

text \<open>The last part of starting: with three shells installed and the lines empty, the timer is started and interrupts
  are let in.\<close>

lemma timer_started_ok:
  assumes "refines spec_boot u" and "keyboard_ok u"
    and "\<forall>t. fd_table_ok (pcb_of (root_pid t) u) \<and> pcb_terminal (pcb_of (root_pid t) u) = t"
    and "read_view u = read_view (keyboard_init k)"
  defines "v \<equiv> sti (pit_init u)"
  shows "refines spec_boot v" "system_ok \<lparr>sys_kernel = v, sys_waits = (\<lambda>_. None)\<rparr>"
    "kernel_memory v = kernel_memory u" "iflag v"
proof -
  have v: "screen_view v = screen_view u" "proc_view v = proc_view u" "pcbs v = pcbs u" "pmem v = pmem u" "read_view v = read_view u"
    by (simp_all add: v_def pit_init_def Let_def enable_irq_def sti_def)
  show r: "refines spec_boot v" using refines_proc_view [OF v(2)] assms(1) by simp
  have "tables_ok spec_boot v"
    using assms(3) unfolding tables_ok_def pcb_of_def v(3) by (simp add: sp_chain_def spec_boot_def)
  moreover have "keyboard_ok v" using keyboard_ok_view [OF v(1)] assms(2) by simp
  moreover have "active_pid v = 0" using r by (simp add: refines_def spec_boot_def sp_running_def)
  ultimately have "kernel_ok v" "program_mapped v"
    unfolding kernel_ok_def program_mapped_def using r by blast+
  moreover have "read_data_of (terminals v t) = read_data_of (terminals (keyboard_init k) t)" for t
    using v(5) assms(4) by (simp add: read_view_def fun_eq_iff)
  then have "wait_ok None (terminals v t)" for t
    using wait_ok_data [of "terminals v t" "terminals (keyboard_init k) t" None]
    by (simp add: wait_ok_def keyboard_init_terminals)
  ultimately show "system_ok \<lparr>sys_kernel = v, sys_waits = (\<lambda>_. None)\<rparr>" by (simp add: system_ok_def)
  show "kernel_memory v = kernel_memory u" by (rule kernel_memory_pmem [OF v(4)])
  show "iflag v" by (simp add: v_def sti_def)
qed

text \<open>C17: Booting establishes everything the running kernel relies on. From the state the boot loader leaves, with a file system image that contains an executable \<open>shell\<close>, setting up always completes, and the resulting state satisfies the invariant of the whole system with no process waiting: paging, the keyboard, the terminals with empty lines and the descriptor tables of the three shells are well formed, the process structure is the one in which three shells wait to be entered, the kernel's memory is untouched, interrupts are enabled, and the interrupt descriptor table is filled and loaded.\<close>

theorem boot_establishes_kernel:
  assumes "loaded (kernel m)" and "shell_installed (kernel m)"
  shows "\<exists>m'. entry_setup lk junk1 junk2 buf1 buf2 buf3 m = Some m'
    \<and> system_ok \<lparr>sys_kernel = kernel m', sys_waits = (\<lambda>_. None)\<rparr> \<and> refines spec_boot (kernel m')
    \<and> kernel_memory (kernel m') = kernel_memory (kernel m) \<and> iflag (kernel m')
    \<and> (idt m', idtr m') = idt_init (handler_at lk) (idt_at lk) (idt m) \<and> tss_desc_ptr m' = the_tss_desc (tss_at lk) (tss_size lk) junk2"
proof -
  let ?k = "i8259_init ((kernel m)\<lparr>tss_esp0 := 0x800000\<rparr>)"
  have l: "loaded ?k" using assms(1) loaded_view [of ?k "kernel m"] by simp
  have km: "kernel_memory ?k = kernel_memory (kernel m)" by (rule kernel_memory_pmem) simp
  have bp: "boot_block_pointer ?k = boot_block_pointer (kernel m)" by (simp add: i8259_init_def Let_def)
  note d = entry_devices_ok [OF l]
  have sh: "shell_installed (entry_devices ?k)"
    using shell_installed_same [OF _ trans [OF d(4) bp]] assms(2) d(2) km by simp
  obtain u where u: "entry_shells buf1 buf2 buf3 (entry_devices ?k) = Some u" "keyboard_ok u"
      "kernel_memory u = kernel_memory (entry_devices ?k)"
      "\<forall>t. fd_table_ok (pcb_of (root_pid t) u) \<and> pcb_terminal (pcb_of (root_pid t) u) = t"
      "active_terminal u = active_terminal (entry_devices ?k)" "active_pid u = active_pid (entry_devices ?k)"
      "process_count u = process_count (entry_devices ?k)" "processes u = processes (entry_devices ?k)"
      "\<forall>t. current_process_id (terminals u t) = 0" "read_view u = read_view (entry_devices ?k)"
    using entry_shells_ok [OF d(1) sh, of buf1 buf2 buf3] by blast
  have pv: "proc_view (entry_devices ?k) = proc_view (keyboard_init ?k)" by (rule d(3))
  have "active_pid (keyboard_init s) = active_pid s" "process_count (keyboard_init s) = process_count s"
    "processes (keyboard_init s) = processes s" for s
    by (simp_all add: keyboard_init_def init_terminal_def Let_def enable_irq_def outb_def)
  then have r: "refines spec_boot u"
    using u(4-9) pv loaded_fields [OF l] by (intro refines_boot) (auto simp: proc_view_def)
  have rv: "read_view u = read_view (keyboard_init ?k)" using u(10) d(5) by simp
  have "entry_setup lk junk1 junk2 buf1 buf2 buf3 m = Some ((entry_segments lk junk1 junk2 m)
      \<lparr>kernel := sti (pit_init u), idt := fst (idt_init (handler_at lk) (idt_at lk) (idt m)),
        idtr := snd (idt_init (handler_at lk) (idt_at lk) (idt m))\<rparr>)"
    using u(1) by (simp add: entry_setup_def entry_segments_def Let_def split: prod.split)
  then show ?thesis
    using timer_started_ok [OF r u(2,4) rv] u(3) d(2) km by (simp add: entry_segments_def)
qed

text \<open>C23: A boot loader that does not identify itself is refused: with a wrong magic number \<open>entry\<close> clears the screen, prints one message with the number in eight hexadecimal digits, and returns. The descriptor tables and registers and all variables of the kernel are as before, the file system pointer, the page tables and the process table included; only the memory of the screen, the cursor, the output to ports and the interrupt flag (which moving the cursor sets) can differ.\<close>

theorem entry_refuses_unknown_loader:
  assumes "magic \<noteq> MULTIBOOT_BOOTLOADER_MAGIC"
  shows "\<exists>ds s. kernel_entry lk junk1 junk2 buf1 buf2 buf3 magic addr m = Some (Inl (m\<lparr>kernel := s\<rparr>))
    \<and> s = fold putc (chars ''Invalid magic number: 0x'' @ map digit_char ds @ [newline]) (clear (kernel m))
    \<and> length ds = 8 \<and> horner 16 ds = unat magic \<and> set ds \<subseteq> {..<16}
    \<and> all_variables s = all_variables (kernel m)"
proof -
  obtain ds where ds: "conv_padded magic = Some (map digit_char ds)" "length ds = 8" "horner 16 ds = unat magic" "set ds \<subseteq> {..<16}"
    using padded_digits by blast
  let ?s = "fold putc (chars ''Invalid magic number: 0x'' @ map digit_char ds @ [newline]) (clear (kernel m))"
  have "printf_text (chars ''Invalid magic number: 0x%#x'' @ [newline]) [Num magic]
      = Some (chars ''Invalid magic number: 0x'' @ map digit_char ds @ [newline])"
    using ds(1) by (simp add: convert_def chars_def)
  then have "kprintf ''Invalid magic number: 0x%#x'' [newline] [Num magic] (clear (kernel m)) = Some ?s"
    by (simp add: kprintf_def printf_def)
  then have "kernel_entry lk junk1 junk2 buf1 buf2 buf3 magic addr m = Some (Inl (m\<lparr>kernel := ?s\<rparr>))"
    using assms by (simp add: kernel_entry_def entry_report_def Let_def)
  moreover have "all_variables ?s = all_variables (kernel m)" by (simp add: variables.obs_fold)
  ultimately show ?thesis using ds by blast
qed

text \<open>A machine on which nothing is initialised, with a disk at \<open>0x450000\<close> whose first file is \<open>shell\<close>.\<close>

definition boot_image :: mem where
  "boot_image = (\<lambda>_. 0)(0x450000 := 1, 0x450004 := 2, 0x450008 := 1, 0x450040 := 115, 0x450041 := 104, 0x450042 := 101,
     0x450043 := 108, 0x450044 := 108, 0x450060 := 2, 0x450064 := 1, 0x452000 := 5, 0x453000 := 0x7f, 0x453001 := 0x45,
     0x453002 := 0x4c, 0x453003 := 0x46)"

definition sample_link :: link_map where
  "sample_link = \<lparr>ldt_at = 0x410000, ldt_size = 31, tss_at = 0x410100, tss_size = 103, idt_at = 0x410200,
     handler_at = (\<lambda>_. 0x411000)\<rparr>"

definition zero_seg :: seg_desc where
  "zero_seg = \<lparr>seg_lim_15_00 = 0, base_15_00 = 0, base_23_16 = 0, seg_type = 0, seg_sys = 0, seg_dpl = 0,
     seg_present = 0, seg_lim_19_16 = 0, seg_avail = 0, seg_reserved = 0, seg_opsize = 0, seg_granularity = 0,
     base_31_24 = 0\<rparr>"

definition zero_gate :: idt_desc where
  "zero_gate = \<lparr>offset_15_00 = 0, seg_selector = 0, idt_reserved4 = 0, idt_reserved3 = 0, idt_reserved2 = 0,
     idt_reserved1 = 0, idt_size = 0, idt_reserved0 = 0, idt_dpl = 0, idt_present = 0, offset_31_16 = 0\<rparr>"

definition sample_machine :: machine where
  "sample_machine = \<lparr>kernel = (static_state (\<lambda>_. empty_pcb) 0x401000 0x402000
        (\<lambda>f off. boot_image (push_bit 12 (ucast f) OR ucast off)) (\<lambda>_ _. 0))\<lparr>boot_block_pointer := 0x450000\<rparr>,
     ldt_desc_ptr = zero_seg, tss_desc_ptr = zero_seg, tss_ldt_segment_selector = 0, tss_ss0 = 0, ldtr = 0,
     task_register = 0, idt = (\<lambda>_. zero_gate), idtr = \<lparr>tb_limit = 0, tb_base = 0\<rparr>\<rparr>"

lemma sample_loaded: "loaded (kernel sample_machine)"
proof -
  have "frame_of 0x401000 \<noteq> frame_of 0x402000" by (simp add: frame_of_def)
  moreover have "boot_view (kernel sample_machine) = boot_view (static_state (\<lambda>_. empty_pcb) 0x401000 0x402000 (\<lambda>_ _. 0) (\<lambda>_ _. 0))"
    by (simp add: sample_machine_def boot_view_def static_state_def)
  ultimately show ?thesis unfolding loaded_def by blast
qed

lemma sample_view:
  assumes "wf_pages (pages u)" and "kernel_memory u = kernel_memory (kernel sample_machine)" and "dir_index va = 1"
  shows "view u va = boot_image (push_bit 12 (ucast (0x400 + (frame_of va AND 0x003FF))) OR ucast (ucast va :: 12 word))"
proof -
  let ?f = "0x400 + (frame_of va AND 0x003FF) :: 20 word"
  have "unat ?f = 0x400 + unat (frame_of va AND 0x003FF)"
    using low_bits_bound [of "frame_of va"] by (simp add: unat_word_ariths)
  then have "kernel_frame ?f"
    using low_bits_bound [of "frame_of va"] by (simp add: kernel_frame_def word_le_nat_alt word_less_nat_alt)
  then show ?thesis
    using view_kernel [OF assms(1,3)] by (simp add: assms(2) kernel_memory_def sample_machine_def static_state_def)
qed

lemma sample_shell_file:
  assumes "\<And>va. dir_index va = 1
    \<Longrightarrow> M va = boot_image (push_bit 12 (ucast (0x400 + (frame_of va AND 0x003FF))) OR ucast (ucast va :: 12 word))"
  shows "file_open M 0x450000 (-1) (Some (cptr_of (chars ''shell''))) = Some (0, 1)" and "is_executable M 0x450000 1 junk"
proof -
  have m: "M 0x450004 = 2" "M 0x450005 = 0" "M 0x450006 = 0" "M 0x450007 = 0" "M 0x450040 = 115" "M 0x450041 = 104"
    "M 0x450042 = 101" "M 0x450043 = 108" "M 0x450044 = 108" "M 0x450045 = 0"
    "M 0x450060 = 2" "M 0x450061 = 0" "M 0x450062 = 0" "M 0x450063 = 0"
    "M 0x450064 = 1" "M 0x450065 = 0" "M 0x450066 = 0" "M 0x450067 = 0"
    "M 0x452000 = 5" "M 0x452001 = 0" "M 0x452002 = 0" "M 0x452003 = 0"
    "M 0x452004 = 0" "M 0x452005 = 0" "M 0x452006 = 0" "M 0x452007 = 0"
    "M 0x453000 = 0x7f" "M 0x453001 = 0x45" "M 0x453002 = 0x4c" "M 0x453003 = 0x46"
    using assms by (simp_all add: dir_index_def frame_of_def boot_image_def)
  have c: "chars ''shell'' = [115, 104, 101, 108, 108]" by (simp add: chars_def)
  have n: "cstr (cptr_of (chars ''shell'')) [115, 104, 101, 108, 108]"
    by (simp add: c cstr_def cptr_of_def less_Suc_eq)
  have e: "cstr (at M 0x450040) [115, 104, 101, 108, 108]" using m by (simp add: cstr_def at_def less_Suc_eq)
  have "strncmp (cptr_of (chars ''shell'')) (at M 0x450040) 5 = 0"
    unfolding strncmp_def
    by (subst strncmp_loop.simps, subst strncmp_loop.simps, subst strncmp_loop.simps, subst strncmp_loop.simps,
        subst strncmp_loop.simps, subst strncmp_loop.simps) (use m in \<open>simp add: c cptr_of_def at_def\<close>)
  moreover have "[0..<MAX_DIRECTORY_NUMBER] = 0 # [1..<MAX_DIRECTORY_NUMBER]"
    by (simp add: MAX_DIRECTORY_NUMBER_def upt_conv_Cons)
  ultimately have "read_dentry_by_name M 0x450000 (Some (cptr_of (chars ''shell''))) = Some (Some (direntries M 0x450000 0))"
    unfolding read_dentry_by_name_def
    by (simp add: strlen_cstr [OF n] direntry_addr_def strlen_cstr [OF e] FILENAME_LEN_def)
  moreover have "filetype (direntries M 0x450000 0) = TYPE_FILE" "inode_num (direntries M 0x450000 0) = 1"
    using m by (simp_all add: direntries_def direntry_addr_def load32_def TYPE_FILE_def Let_def)
  ultimately show "file_open M 0x450000 (-1) (Some (cptr_of (chars ''shell''))) = Some (0, 1)"
    by (simp add: file_open_def)
  have v: "valid_inode M 0x450000 1" "i_node_length M 0x450000 1 = 5"
    using m by (simp_all add: valid_inode_def inode_count_def i_node_length_def i_node_addr_def load32_def BLOCK_SIZE_def)
  have "file_byte M 0x450000 1 k = [0x7f, 0x45, 0x4c, 0x46] ! k" if "k < 4" for k
  proof -
    have "k = 0 \<or> k = 1 \<or> k = 2 \<or> k = 3" using that by auto
    then show ?thesis
      using m by (auto simp: file_byte_def data_block_addr_def data_block_num_def inode_count_def i_node_addr_def
          load32_def BLOCK_SIZE_def)
  qed
  then have "take 4 (file_content M 0x450000 1) = [0x7f, 0x45, 0x4c, 0x46]"
    by (simp add: file_content_def v(2) take_map upt_rec)
  then have "read_data M 0x450000 1 0 1 4 = (4, [0x7f, 0x45, 0x4c, 0x46])"
    using read_data_valid [OF v(1), of 1 0 4] by (simp add: Let_def)
  then show "is_executable M 0x450000 1 junk" by (simp add: is_executable_def elf_magic_def)
qed

lemma sample_installed: "shell_installed (kernel sample_machine)"
  unfolding shell_installed_def
proof (intro allI impI, elim conjE)
  fix u junk
  assume w: "wf_pages (pages u)" "kernel_memory u = kernel_memory (kernel sample_machine)"
    and b: "boot_block_pointer u = boot_block_pointer (kernel sample_machine)"
  note f = sample_shell_file [OF sample_view [OF w]]
  have "boot_block_pointer u = 0x450000" using b by (simp add: sample_machine_def)
  then show "\<exists>r fd. file_open (view u) (boot_block_pointer u) (-1) (Some (cptr_of (chars ''shell''))) = Some (r, fd)
      \<and> r \<noteq> -1 \<and> is_executable (view u) (boot_block_pointer u) fd junk"
    using f by simp
qed

theorem boot_establishes_kernel_witness:
  "\<exists>m'. entry_setup sample_link zero_seg zero_seg [] [] [] sample_machine = Some m'
    \<and> system_ok \<lparr>sys_kernel = kernel m', sys_waits = (\<lambda>_. None)\<rparr> \<and> refines spec_boot (kernel m')"
  using boot_establishes_kernel [OF sample_loaded sample_installed] by blast

theorem entry_refuses_unknown_loader_witness:
  "\<exists>s. kernel_entry sample_link zero_seg zero_seg [] [] [] 0x1BADB002 0 sample_machine = Some (Inl (sample_machine\<lparr>kernel := s\<rparr>))
    \<and> boot_block_pointer s = 0x450000"
proof -
  have "(0x1BADB002 :: u32) \<noteq> MULTIBOOT_BOOTLOADER_MAGIC" by (simp add: MULTIBOOT_BOOTLOADER_MAGIC_def)
  from entry_refuses_unknown_loader [OF this, of sample_link zero_seg zero_seg "[]" "[]" "[]" 0 sample_machine]
  obtain s where s: "kernel_entry sample_link zero_seg zero_seg [] [] [] 0x1BADB002 0 sample_machine = Some (Inl (sample_machine\<lparr>kernel := s\<rparr>))"
    "all_variables s = all_variables (kernel sample_machine)" by blast
  from arg_cong [OF s(2), of boot_block_pointer] have "boot_block_pointer s = 0x450000"
    by (simp add: all_variables_def sample_machine_def)
  then show ?thesis using s(1) by blast
qed

end
