(* ===== verification/Boot_Assembly.thy ===== *)
theory Boot_Assembly
  imports Boot
begin

text \<open>
  The assembly that runs before and beside the C code of the kernel: the global descriptor table of
  \<^verbatim>\<open>x86_desc.S\<close> with the macros \<open>ltr\<close> and \<open>lldt\<close> of \<^verbatim>\<open>x86_desc.h\<close>, the layout of the task state segment, the
  start of the kernel in \<^verbatim>\<open>boot.S\<close>, and \<open>paging_enable\<close> of \<^verbatim>\<open>enable_paging.S\<close>. The status flags, which no
  code here reads, are not followed.
\<close>

unbundle bit_operations_syntax

section \<open>The global descriptor table\<close>

text \<open>A quad word of the table as its two 32-bit words.\<close>

definition quad :: "64 word \<Rightarrow> u32 \<times> u32" where
  "quad q = (ucast q, ucast (drop_bit 32 q))"

text \<open>
  The entries at \<open>gdt\<close>: two empty ones, kernel code and data, user code and data, and room for the task state
  segment (\<open>tss_desc_ptr\<close>) and the local descriptor table (\<open>ldt_desc_ptr\<close>).
\<close>

definition gdt :: "(u32 \<times> u32) list" where
  "gdt = map quad [0, 0, 0x00CF9A000000FFFF, 0x00CF92000000FFFF, 0x00CFFA000000FFFF, 0x00CFF2000000FFFF, 0, 0]"

text \<open>The table once \<open>entry\<close> has stored its two descriptors.\<close>

definition gdt_of :: "machine \<Rightarrow> (u32 \<times> u32) list" where
  "gdt_of m = gdt[6 := seg_val (tss_desc_ptr m), 7 := seg_val (ldt_desc_ptr m)]"

text \<open>
  What the processor does with a selector: the two low bits are a privilege level, the third selects the local
  table, the rest is an index; entry 0 is never used. The limit counts pages when the granularity bit is set.
\<close>

definition selected :: "16 word \<Rightarrow> (u32 \<times> u32) list \<Rightarrow> (u32 \<times> u32) option" where
  "selected sel table =
     (let i = unat (drop_bit 3 sel)
      in if bit sel 2 \<or> i = 0 \<or> length table \<le> i then None else Some (table ! i))"

definition segment_of :: "16 word \<Rightarrow> (u32 \<times> u32) list \<Rightarrow> segment option" where
  "segment_of sel table = Option.bind (selected sel table)
     (\<lambda>v. let d = decode_segment v in if sg_here d then Some d else None)"

definition segment_end :: "u32 \<times> u32 \<Rightarrow> u32" where
  "segment_end v =
     (if bit (snd v) 23 then push_bit 12 (ucast (sg_limit (decode_segment v))) OR 0xFFF
      else ucast (sg_limit (decode_segment v)))"

text \<open>A segment over the whole address space.\<close>

definition flat :: "5 word \<Rightarrow> 2 word \<Rightarrow> segment" where
  "flat kind level = \<lparr>sg_base = 0, sg_limit = 0xFFFFF, sg_kind = kind, sg_level = level, sg_here = True\<rparr>"

text \<open>
  \<open>ltr\<close> takes an available 32-bit task state segment (kind 9) of the table and marks it as busy; \<open>lldt\<close> takes a
  local descriptor table (kind 2); both fault otherwise.
\<close>

definition ltr :: "16 word \<Rightarrow> (u32 \<times> u32) list \<Rightarrow> (segment \<times> (u32 \<times> u32) list) option" where
  "ltr sel table = Option.bind (segment_of sel table) (\<lambda>d.
     if sg_kind d = 9
     then let i = unat (drop_bit 3 sel); (lo, hi) = table ! i in Some (d, table[i := (lo, hi OR 0x200)])
     else None)"

definition lldt :: "16 word \<Rightarrow> (u32 \<times> u32) list \<Rightarrow> segment option" where
  "lldt sel table = Option.bind (segment_of sel table) (\<lambda>d. if sg_kind d = 2 then Some d else None)"

section \<open>The task state segment\<close>

record tss_t =
  prev_task_link :: "16 word"   prev_task_link_pad :: "16 word"
  esp0 :: u32   ss0 :: "16 word"   ss0_pad :: "16 word"
  esp1 :: u32   ss1 :: "16 word"   ss1_pad :: "16 word"
  esp2 :: u32   ss2 :: "16 word"   ss2_pad :: "16 word"
  tss_cr3 :: u32   tss_eip :: u32   tss_eflags :: u32
  tss_eax :: u32   tss_ecx :: u32   tss_edx :: u32   tss_ebx :: u32
  tss_esp :: u32   tss_ebp :: u32   tss_esi :: u32   tss_edi :: u32
  tss_es :: "16 word"   es_pad :: "16 word"   tss_cs :: "16 word"   cs_pad :: "16 word"
  tss_ss :: "16 word"   ss_pad :: "16 word"   tss_ds :: "16 word"   ds_pad :: "16 word"
  tss_fs :: "16 word"   fs_pad :: "16 word"   tss_gs :: "16 word"   gs_pad :: "16 word"
  ldt_segment_selector :: "16 word"   ldt_pad :: "16 word"
  debug_trap :: "1 word"   io_pad :: "15 word"   io_base_addr :: "16 word"

text \<open>The packed structure in memory.\<close>

definition tss_bytes :: "tss_t \<Rightarrow> byte list" where
  "tss_bytes t = half_bytes (prev_task_link t) @ half_bytes (prev_task_link_pad t)
     @ word_bytes (esp0 t) @ half_bytes (ss0 t) @ half_bytes (ss0_pad t)
     @ word_bytes (esp1 t) @ half_bytes (ss1 t) @ half_bytes (ss1_pad t)
     @ word_bytes (esp2 t) @ half_bytes (ss2 t) @ half_bytes (ss2_pad t)
     @ word_bytes (tss_cr3 t) @ word_bytes (tss_eip t) @ word_bytes (tss_eflags t)
     @ word_bytes (tss_eax t) @ word_bytes (tss_ecx t) @ word_bytes (tss_edx t) @ word_bytes (tss_ebx t)
     @ word_bytes (tss_esp t) @ word_bytes (tss_ebp t) @ word_bytes (tss_esi t) @ word_bytes (tss_edi t)
     @ half_bytes (tss_es t) @ half_bytes (es_pad t) @ half_bytes (tss_cs t) @ half_bytes (cs_pad t)
     @ half_bytes (tss_ss t) @ half_bytes (ss_pad t) @ half_bytes (tss_ds t) @ half_bytes (ds_pad t)
     @ half_bytes (tss_fs t) @ half_bytes (fs_pad t) @ half_bytes (tss_gs t) @ half_bytes (gs_pad t)
     @ half_bytes (ldt_segment_selector t) @ half_bytes (ldt_pad t)
     @ half_bytes (ucast (debug_trap t) OR push_bit 1 (ucast (io_pad t))) @ half_bytes (io_base_addr t)"

text \<open>Where the processor finds the stack for an entry from user mode.\<close>

definition ring0_stack :: "byte list \<Rightarrow> 16 word \<times> u32" where
  "ring0_stack bs =
     (ucast (bs ! 8) OR push_bit 8 (ucast (bs ! 9)),
      ucast (bs ! 4) OR push_bit 8 (ucast (bs ! 5)) OR push_bit 16 (ucast (bs ! 6)) OR push_bit 24 (ucast (bs ! 7)))"

section \<open>boot.S\<close>

text \<open>The processor of the stubs with its other segment registers, the descriptor table register and the control
  registers.\<close>

record boot_cpu = cpu +
  bc_ds :: "16 word"
  bc_es :: "16 word"
  bc_fs :: "16 word"
  bc_gs :: "16 word"
  bc_gdtr :: table_register
  bc_if :: bool
  cr0 :: u32
  cr3 :: u32
  cr4 :: u32

definition bpush :: "u32 \<Rightarrow> boot_cpu \<Rightarrow> boot_cpu" where
  "bpush w c = c\<lparr>esp_reg := esp_reg c - 4, stack := w # stack c\<rparr>"

text \<open>The operand of \<open>lgdt\<close>: the size of the table less one, and its address.\<close>

definition gdt_desc_ptr :: "u32 \<Rightarrow> table_register" where
  "gdt_desc_ptr gdt_at = \<lparr>tb_limit = of_nat (8 * length gdt) - 1, tb_base = gdt_at\<rparr>"

text \<open>
  From \<open>start\<close> to the call of \<open>entry\<close>. Moving \<open>esp\<close> to \<open>0x800000\<close> makes a new, empty stack; \<open>halt_at\<close> is the address
  behind the call.
\<close>

definition start :: "u32 \<Rightarrow> u32 \<Rightarrow> u32 \<Rightarrow> boot_cpu \<Rightarrow> boot_cpu" where
  "start gdt_at halt_at entry c =
     (let c = c\<lparr>bc_if := False\<rparr>;
          c = c\<lparr>bc_gdtr := gdt_desc_ptr gdt_at\<rparr>;
          c = c\<lparr>cs_reg := KERNEL_CS\<rparr>;
          c = c\<lparr>esp_reg := 0x800000, stack := []\<rparr>;
          c = c\<lparr>regs := (regs c)(ECX := (regs c ECX AND 0xFFFF0000) OR ucast KERNEL_DS)\<rparr>;
          c = c\<lparr>ss_reg := ucast (regs c ECX)\<rparr>;
          c = c\<lparr>bc_ds := ucast (regs c ECX)\<rparr>;
          c = c\<lparr>bc_es := ucast (regs c ECX)\<rparr>;
          c = c\<lparr>bc_fs := ucast (regs c ECX)\<rparr>;
          c = c\<lparr>bc_gs := ucast (regs c ECX)\<rparr>;
          c = bpush (regs c EBX) c;
          c = bpush (regs c EAX) c
      in (bpush halt_at c)\<lparr>eip := entry\<rparr>)"

text \<open>The arguments a C function finds on the stack when it is entered: behind the return address.\<close>

definition c_argument :: "nat \<Rightarrow> boot_cpu \<Rightarrow> u32 option" where
  "c_argument i c = (if Suc i < length (stack c) then Some (stack c ! Suc i) else None)"

section \<open>paging_enable\<close>

text \<open>A word of the stack by its address, and a \<open>pop\<close>; \<open>None\<close> when it lies outside.\<close>

definition stack_word :: "u32 \<Rightarrow> boot_cpu \<Rightarrow> u32 option" where
  "stack_word a c =
     (let i = unat (a - esp_reg c) div 4 in if i < length (stack c) then Some (stack c ! i) else None)"

definition bpop :: "reg \<Rightarrow> boot_cpu \<Rightarrow> boot_cpu option" where
  "bpop r c = (case stack c of [] \<Rightarrow> None
     | w # ws \<Rightarrow> Some (c\<lparr>esp_reg := esp_reg c + 4, stack := ws, regs := (regs c)(r := w)\<rparr>))"

definition leave :: "boot_cpu \<Rightarrow> boot_cpu option" where
  "leave c = bpop EBP (c\<lparr>stack := drop (unat (regs c EBP - esp_reg c) div 4) (stack c), esp_reg := regs c EBP\<rparr>)"

definition ret :: "boot_cpu \<Rightarrow> boot_cpu option" where
  "ret c = (case stack c of [] \<Rightarrow> None
     | w # ws \<Rightarrow> Some (c\<lparr>esp_reg := esp_reg c + 4, stack := ws, eip := w\<rparr>))"

definition set_reg :: "reg \<Rightarrow> u32 \<Rightarrow> boot_cpu \<Rightarrow> boot_cpu" where
  "set_reg r w c = c\<lparr>regs := (regs c)(r := w)\<rparr>"

definition paging_enable :: "boot_cpu \<Rightarrow> boot_cpu option" where
  "paging_enable c =
     (let c = bpush (regs c EBP) c;
          c = set_reg EBP (esp_reg c) c;
          c = bpush (regs c ESI) c;
          c = bpush (regs c EBX) c;
          c = bpush (regs c EDI) c;
          c = set_reg ECX (regs c ECX XOR regs c ECX) c
      in Option.bind (stack_word (regs c EBP + 8) c) (\<lambda>w.
         let c = set_reg ECX w c;
             c = c\<lparr>cr3 := regs c ECX\<rparr>;
             c = set_reg EDX (regs c EDX XOR regs c EDX) c;
             c = set_reg EDX (cr4 c) c;
             c = set_reg EDX (regs c EDX OR 0x00000090) c;
             c = c\<lparr>cr4 := regs c EDX\<rparr>;
             c = set_reg EAX (regs c EAX XOR regs c EAX) c;
             c = set_reg EAX (cr0 c) c;
             c = set_reg EAX (regs c EAX OR 0x80000001) c;
             c = c\<lparr>cr0 := regs c EAX\<rparr>
         in Option.bind (bpop EDI c) (\<lambda>c. Option.bind (bpop EBX c) (\<lambda>c. Option.bind (bpop ESI c) (\<lambda>c.
            Option.bind (leave c) ret)))))"

section \<open>Lemmas\<close>

text \<open>The packed task state segment has 104 bytes; the stack for kernel mode is in bytes 4 to 9.\<close>

lemma tss_layout: "length (tss_bytes t) = 104" "ring0_stack (tss_bytes t) = (ss0 t, esp0 t)"
proof -
  show "length (tss_bytes t) = 104" by (simp add: tss_bytes_def half_bytes_def word_bytes_def)
  have "tss_bytes t ! 4 = ucast (esp0 t)" "tss_bytes t ! 5 = ucast (drop_bit 8 (esp0 t))"
    "tss_bytes t ! 6 = ucast (drop_bit 16 (esp0 t))" "tss_bytes t ! 7 = ucast (drop_bit 24 (esp0 t))"
    "tss_bytes t ! 8 = ucast (ss0 t)" "tss_bytes t ! 9 = ucast (drop_bit 8 (ss0 t))"
    by (simp_all add: tss_bytes_def half_bytes_def word_bytes_def nth_append)
  then show "ring0_stack (tss_bytes t) = (ss0 t, esp0 t)"
    unfolding ring0_stack_def using half_join [of "ss0 t"] word_join [of "esp0 t"] by simp
qed

lemma gdt_length [simp]: "length (gdt_of m) = 8"
  by (simp add: gdt_of_def gdt_def)

lemma selector_indices:
  "unat (drop_bit 3 KERNEL_CS) = 2" "unat (drop_bit 3 KERNEL_DS) = 3" "unat (drop_bit 3 USER_CS) = 4"
  "unat (drop_bit 3 USER_DS) = 5" "unat (drop_bit 3 KERNEL_TSS) = 6" "unat (drop_bit 3 KERNEL_LDT) = 7"
  "\<not> bit KERNEL_CS 2" "\<not> bit KERNEL_DS 2" "\<not> bit USER_CS 2" "\<not> bit USER_DS 2" "\<not> bit KERNEL_TSS 2" "\<not> bit KERNEL_LDT 2"
  by (simp_all add: KERNEL_CS_def KERNEL_DS_def USER_CS_def USER_DS_def KERNEL_TSS_def KERNEL_LDT_def)

lemma selected_entry:
  "bit sel 2 = False \<Longrightarrow> unat (drop_bit 3 sel) = i \<Longrightarrow> 0 < i \<Longrightarrow> i < length table \<Longrightarrow> selected sel table = Some (table ! i)"
  by (simp add: selected_def)

lemma gdt_entries:
  "gdt_of m ! 2 = quad 0x00CF9A000000FFFF" "gdt_of m ! 3 = quad 0x00CF92000000FFFF"
  "gdt_of m ! 4 = quad 0x00CFFA000000FFFF" "gdt_of m ! 5 = quad 0x00CFF2000000FFFF"
  "gdt_of m ! 6 = seg_val (tss_desc_ptr m)" "gdt_of m ! 7 = seg_val (ldt_desc_ptr m)"
  by (simp_all add: gdt_of_def gdt_def)

lemma flat_quads:
  "decode_segment (quad 0x00CF9A000000FFFF) = flat 0x1A 0" "segment_end (quad 0x00CF9A000000FFFF) = 0xFFFFFFFF"
  "decode_segment (quad 0x00CF92000000FFFF) = flat 0x12 0" "segment_end (quad 0x00CF92000000FFFF) = 0xFFFFFFFF"
  "decode_segment (quad 0x00CFFA000000FFFF) = flat 0x1A 3" "segment_end (quad 0x00CFFA000000FFFF) = 0xFFFFFFFF"
  "decode_segment (quad 0x00CFF2000000FFFF) = flat 0x12 3" "segment_end (quad 0x00CFF2000000FFFF) = 0xFFFFFFFF"
  by (simp_all add: quad_def decode_segment_def flat_def segment_end_def)

lemma segment_ofI:
  "selected sel table = Some v \<Longrightarrow> sg_here (decode_segment v) \<Longrightarrow> segment_of sel table = Some (decode_segment v)"
  by (simp add: segment_of_def)

text \<open>The selectors the kernel uses.\<close>

lemma gdt_selected:
  "selected KERNEL_CS (gdt_of m) = Some (quad 0x00CF9A000000FFFF)"
  "selected KERNEL_DS (gdt_of m) = Some (quad 0x00CF92000000FFFF)"
  "selected USER_CS (gdt_of m) = Some (quad 0x00CFFA000000FFFF)"
  "selected USER_DS (gdt_of m) = Some (quad 0x00CFF2000000FFFF)"
  "selected KERNEL_TSS (gdt_of m) = Some (seg_val (tss_desc_ptr m))"
  "selected KERNEL_LDT (gdt_of m) = Some (seg_val (ldt_desc_ptr m))"
  by (simp_all add: selected_entry [OF _ selector_indices(1)] selected_entry [OF _ selector_indices(2)]
      selected_entry [OF _ selector_indices(3)] selected_entry [OF _ selector_indices(4)]
      selected_entry [OF _ selector_indices(5)] selected_entry [OF _ selector_indices(6)] selector_indices gdt_entries)

text \<open>The start of the kernel in the registers.\<close>

lemma low_half: "(ucast ((w AND 0xFFFF0000) OR ucast v :: u32) :: 16 word) = v"
  by (rule bit_word_eqI) (auto simp: word_bits)

lemma start_state:
  "start g h e c = c\<lparr>bc_if := False, bc_gdtr := gdt_desc_ptr g, cs_reg := KERNEL_CS, esp_reg := 0x7FFFF4,
     stack := [h, regs c EAX, regs c EBX], regs := (regs c)(ECX := (regs c ECX AND 0xFFFF0000) OR ucast KERNEL_DS),
     ss_reg := KERNEL_DS, bc_ds := KERNEL_DS, bc_es := KERNEL_DS, bc_fs := KERNEL_DS, bc_gs := KERNEL_DS, eip := e\<rparr>"
  by (simp add: start_def bpush_def low_half Let_def)

text \<open>A \<open>pop\<close> from a stack with a word, \<open>leave\<close> on a stack whose top is the saved \<open>ebp\<close>, and evaluation that follows the
  instructions one after the other.\<close>

lemma bpop_Cons:
  "stack c = w # ws \<Longrightarrow> bpop r c = Some (c\<lparr>esp_reg := esp_reg c + 4, stack := ws, regs := (regs c)(r := w)\<rparr>)"
  by (simp add: bpop_def)

lemma leave_here:
  "regs c EBP = esp_reg c \<Longrightarrow> stack c = w # ws \<Longrightarrow>
     leave c = Some (c\<lparr>esp_reg := esp_reg c + 4, stack := ws, regs := (regs c)(EBP := w)\<rparr>)"
  by (simp add: leave_def bpop_def)

lemma bind_weak_cong: "a = b \<Longrightarrow> Option.bind a f = Option.bind b f"
  by simp

section \<open>Properties\<close>

text \<open>C21: The segments are set up as the processor needs them. In the table that \<open>entry\<close> leaves, the code and data selectors of kernel and user are flat segments over the whole 4 GB with privilege 0 and 3; loading the task register and the local table register with the selectors of the code does not fault, whatever the uninitialised variables held, and finds the task state segment and the local table at their addresses with their limits; and a task state segment is 104 bytes long, with \<open>ss0\<close> and \<open>esp0\<close> where the processor looks for the kernel stack.\<close>

theorem segments_set_up:
  fixes m :: machine and lk :: link_map and junk1 junk2 :: seg_desc
  defines "m' \<equiv> entry_segments lk junk1 junk2 m"
  shows "segment_of KERNEL_CS (gdt_of m') = Some (flat 0x1A 0) \<and> segment_of KERNEL_DS (gdt_of m') = Some (flat 0x12 0)
    \<and> segment_of USER_CS (gdt_of m') = Some (flat 0x1A 3) \<and> segment_of USER_DS (gdt_of m') = Some (flat 0x12 3)
    \<and> (\<forall>sel\<in>{KERNEL_CS, KERNEL_DS, USER_CS, USER_DS}. map_option segment_end (selected sel (gdt_of m')) = Some 0xFFFFFFFF)
    \<and> map_option fst (ltr (task_register m') (gdt_of m')) =
        Some \<lparr>sg_base = tss_at lk, sg_limit = ucast (tss_size lk), sg_kind = 9, sg_level = 0, sg_here = True\<rparr>
    \<and> lldt (ldtr m') (gdt_of m') =
        Some \<lparr>sg_base = ldt_at lk, sg_limit = ucast (ldt_size lk), sg_kind = 2, sg_level = 0, sg_here = True\<rparr>
    \<and> length (tss_bytes t) = 104 \<and> ring0_stack (tss_bytes t) = (ss0 t, esp0 t)"
proof -
  have f: "sg_here (flat k l)" for k l by (simp add: flat_def)
  have td: "decode_segment (seg_val (tss_desc_ptr m')) =
      \<lparr>sg_base = tss_at lk, sg_limit = ucast (tss_size lk), sg_kind = 9, sg_level = 0, sg_here = True\<rparr>"
    and ld: "decode_segment (seg_val (ldt_desc_ptr m')) =
      \<lparr>sg_base = ldt_at lk, sg_limit = ucast (ldt_size lk), sg_kind = 2, sg_level = 0, sg_here = True\<rparr>"
    using gdt_descriptors by (simp_all add: m'_def entry_segments_def)
  have r: "task_register m' = KERNEL_TSS" "ldtr m' = KERNEL_LDT" by (simp_all add: m'_def entry_segments_def)
  have "segment_of KERNEL_TSS (gdt_of m') = Some (decode_segment (seg_val (tss_desc_ptr m')))"
    "segment_of KERNEL_LDT (gdt_of m') = Some (decode_segment (seg_val (ldt_desc_ptr m')))"
    using segment_ofI [OF gdt_selected(5)] segment_ofI [OF gdt_selected(6)] td ld by simp_all
  moreover have "segment_of KERNEL_CS (gdt_of m') = Some (flat 0x1A 0)" "segment_of KERNEL_DS (gdt_of m') = Some (flat 0x12 0)"
    "segment_of USER_CS (gdt_of m') = Some (flat 0x1A 3)" "segment_of USER_DS (gdt_of m') = Some (flat 0x12 3)"
    using segment_ofI [OF gdt_selected(1)] segment_ofI [OF gdt_selected(2)] segment_ofI [OF gdt_selected(3)]
      segment_ofI [OF gdt_selected(4)] f by (simp_all add: flat_quads)
  moreover have "\<forall>sel\<in>{KERNEL_CS, KERNEL_DS, USER_CS, USER_DS}. map_option segment_end (selected sel (gdt_of m')) = Some 0xFFFFFFFF"
    by (simp only: gdt_selected flat_quads option.map ball_simps simp_thms)
  ultimately show ?thesis
    using td ld r tss_layout by (simp add: ltr_def lldt_def Let_def split: prod.split)
qed

theorem segments_set_up_witness:
  "segment_of USER_CS (gdt_of (entry_segments sample_link zero_seg zero_seg sample_machine)) = Some (flat 0x1A 3)
   \<and> map_option segment_end (selected USER_DS (gdt_of (entry_segments sample_link zero_seg zero_seg sample_machine))) = Some 0xFFFFFFFF"
  using segments_set_up [of sample_link zero_seg zero_seg sample_machine] by simp

text \<open>The C code of the kernel starts on firm ground. Whatever the boot loader left in the segment registers and on its stack, \<open>start\<close> calls \<open>entry\<close> with interrupts off, with the kernel's code segment and its flat data segment in all six segment registers, on an empty stack that ends at 8 MB, and with the two arguments \<open>entry\<close> expects: the magic number from \<open>eax\<close> and the address of the boot information from \<open>ebx\<close>.\<close>

lemma entry_is_called:
  fixes c :: boot_cpu and g h e :: u32
  defines "d \<equiv> start g h e c"
  shows "eip d = e \<and> \<not> bc_if d \<and> bc_gdtr d = \<lparr>tb_limit = 63, tb_base = g\<rparr> \<and> cs_reg d = KERNEL_CS
    \<and> {ss_reg d, bc_ds d, bc_es d, bc_fs d, bc_gs d} = {KERNEL_DS} \<and> esp_reg d = 0x800000 - 12
    \<and> c_argument 0 d = Some (regs c EAX) \<and> c_argument 1 d = Some (regs c EBX) \<and> c_argument 2 d = None"
  by (simp add: d_def start_state c_argument_def gdt_desc_ptr_def gdt_def)

text \<open>\<open>paging_enable\<close> is a correct C function that turns paging on. Called with the address of a page directory on the stack it returns to its caller, with the registers a C function must keep (\<open>ebp\<close>, \<open>ebx\<close>, \<open>esi\<close>, \<open>edi\<close> and the stack pointer) as they were; the page directory register holds the address, 4 MB and global pages are switched on in \<open>cr4\<close>, paging and protected mode in \<open>cr0\<close>, and no other bit of these registers has changed.\<close>

lemma paging_enable_turns_paging_on:
  assumes "stack c = ra # directory # ws"
  shows "\<exists>d. paging_enable c = Some d \<and> eip d = ra \<and> esp_reg d = esp_reg c + 4 \<and> stack d = directory # ws
    \<and> (\<forall>r\<in>{EBP, EBX, ESI, EDI}. regs d r = regs c r)
    \<and> cr3 d = directory \<and> cr4 d = (cr4 c OR 0x90) \<and> cr0 d = (cr0 c OR 0x80000001)"
  unfolding paging_enable_def
  by (simp add: bpush_def set_reg_def stack_word_def bpop_Cons leave_here ret_def assms Let_def
      cong: let_weak_cong bind_weak_cong)

end
