(* ===== verification/User_Cat.thy ===== *)
theory User_Cat
  imports Filesystem
begin

text \<open>
  The user program \<^verbatim>\<open>syscalls/ece391cat.c\<close>. The system calls it makes are arguments, functions of a
  state that holds what the calls change (\<open>'s\<close> for the open file, \<open>'o\<close> for the output), so that the
  program can be run against the kernel's own definitions. The loop runs as long as reads
  return data, hence the option: not returning is \<open>None\<close>.
\<close>

definition ascii :: "string \<Rightarrow> byte list" where
  "ascii cs = map (\<lambda>c. of_nat (of_char c)) cs"

text \<open>\<open>rd\<close> is \<^verbatim>\<open>ece391_read(fd, buf, 1024)\<close>, \<open>wr\<close> is \<^verbatim>\<open>ece391_write(1, ...)\<close>; \<open>buf\<close> is the buffer of 1024 bytes.\<close>

partial_function (option) cat_loop ::
  "('s \<Rightarrow> int \<times> byte list \<times> 's) \<Rightarrow> (byte list \<Rightarrow> 'o \<Rightarrow> int \<times> 'o) \<Rightarrow> 's \<Rightarrow> byte list \<Rightarrow> 'o
    \<Rightarrow> (int \<times> 'o) option"
where
  "cat_loop rd wr s buf out =
     (let cnt = fst (rd s); bs = fst (snd (rd s)); s' = snd (snd (rd s));
          buf' = bs @ drop (length bs) buf
      in if cnt = 0 then Some (0, out)
         else if cnt = -1 then Some (3, snd (wr (ascii ''file read failed\<newline>'') out))
         else let w = wr (take (nat cnt) buf') out
              in if fst w = -1 then Some (3, snd w)
                 else cat_loop rd wr s' buf' (snd w))"

definition cat_main ::
  "(byte list \<Rightarrow> int \<times> byte list) \<Rightarrow> (byte list \<Rightarrow> int \<times> 's) \<Rightarrow> ('s \<Rightarrow> int \<times> byte list \<times> 's)
    \<Rightarrow> (byte list \<Rightarrow> 'o \<Rightarrow> int \<times> 'o) \<Rightarrow> byte list \<Rightarrow> 'o \<Rightarrow> (int \<times> 'o) option"
where
  "cat_main getargs opn rd wr buf out =
     (let g = getargs buf
      in if fst g \<noteq> 0 then Some (3, snd (wr (ascii ''could not read arguments\<newline>'') out))
         else if fst (opn (snd g)) = -1 then Some (2, snd (wr (ascii ''file not found\<newline>'') out))
         else cat_loop rd wr (snd (opn (snd g))) (snd g) out)"

text \<open>Against any byte source, with an output that never fails, \<open>cat\<close> ends and writes the whole file in order.\<close>

context byte_source
begin

lemma cat_loop_writes_rest:
  assumes "ok s" and "\<And>bs out. fst (wr bs out) \<noteq> -1"
  shows "\<exists>chunks. concat chunks = rest s \<and> (\<forall>c\<in>set chunks. length c \<le> chunk)
    \<and> cat_loop rd wr s buf out = Some (0, fold (\<lambda>c out. snd (wr c out)) chunks out)"
  using assms(1)
proof (induction "length (rest s)" arbitrary: s buf out rule: less_induct)
  case less
  obtain s' where rd: "rd s = (int (length (take chunk (rest s))), take chunk (rest s), s')"
    and s': "rest s' = drop chunk (rest s)" "ok s'"
    using rd_ok [OF less.prems] by blast
  show ?case
  proof (cases "rest s = []")
    case True
    then show ?thesis using rd by (intro exI [of _ "[]"]) (subst cat_loop.simps, simp)
  next
    case False
    define c where "c = take chunk (rest s)"
    let ?buf = "c @ drop (length c) buf"
    have c: "length c \<noteq> 0" "c @ rest s' = rest s" "length c \<le> chunk"
      using False chunk_pos s' by (auto simp: c_def)
    have "length (rest s') < length (rest s)" using s' False chunk_pos by simp
    from less.hyps [OF this s'(2), of ?buf "snd (wr c out)"] obtain cs where
      cs: "concat cs = rest s'" "\<forall>c\<in>set cs. length c \<le> chunk"
        "cat_loop rd wr s' ?buf (snd (wr c out)) = Some (0, fold (\<lambda>c out. snd (wr c out)) cs (snd (wr c out)))"
      by blast
    have "cat_loop rd wr s buf out = cat_loop rd wr s' ?buf (snd (wr c out))"
      using rd assms(2) c(1) unfolding c_def [symmetric] by (subst cat_loop.simps) (simp add: Let_def)
    then show ?thesis using cs c by (intro exI [of _ "c # cs"]) simp
  qed
qed

end

end
