(* ===== verification/User_Lib.thy ===== *)
theory User_Lib
  imports User_Cat "HOL-Library.Monad_Syntax"
begin

text \<open>
  The support library of the user programs (\<^verbatim>\<open>syscalls/ece391support.c\<close>) and the system calls as the programs see
  them. A program runs against a record \<open>os\<close> of system calls on a state of type \<open>'w\<close>; a call that does not
  return gives \<open>None\<close>. Strings and buffers are lists of bytes; behind the end of a list the library
  functions find a NUL.
\<close>

section \<open>System calls\<close>

text \<open>
  Every call returns its result and the new state. \<open>os_read\<close> and \<open>os_getargs\<close> also return the bytes that the
  buffer holds from its start afterwards. \<open>os_number\<close> makes a call by number (\<open>call_sys\<close> of \<^verbatim>\<open>ece391syserr.c\<close>).
\<close>

record 'w os =
  os_execute :: "byte list \<Rightarrow> 'w \<Rightarrow> (int \<times> 'w) option"
  os_read :: "int \<Rightarrow> int \<Rightarrow> 'w \<Rightarrow> (int \<times> byte list \<times> 'w) option"
  os_write :: "int \<Rightarrow> byte list \<Rightarrow> 'w \<Rightarrow> (int \<times> 'w) option"
  os_open :: "byte list \<Rightarrow> 'w \<Rightarrow> (int \<times> 'w) option"
  os_close :: "int \<Rightarrow> 'w \<Rightarrow> (int \<times> 'w) option"
  os_getargs :: "int \<Rightarrow> 'w \<Rightarrow> (int \<times> byte list \<times> 'w) option"
  os_vidmap :: "u32 \<Rightarrow> 'w \<Rightarrow> (int \<times> 'w) option"
  os_set_handler :: "int \<Rightarrow> u32 \<Rightarrow> 'w \<Rightarrow> (int \<times> 'w) option"
  os_number :: "u32 \<Rightarrow> 'w \<Rightarrow> (int \<times> 'w) option"

text \<open>What a buffer holds after a call has stored bytes from index \<open>i\<close> on.\<close>

definition fill :: "nat \<Rightarrow> byte list \<Rightarrow> byte list \<Rightarrow> byte list" where
  "fill i bs buf = take i buf @ bs @ drop (i + length bs) buf"

section \<open>Strings\<close>

fun ece391_strlen :: "byte list \<Rightarrow> nat" where
  "ece391_strlen [] = 0"
| "ece391_strlen (c # s) = (if c = 0 then 0 else Suc (ece391_strlen s))"

definition ece391_fdputs :: "'w os \<Rightarrow> int \<Rightarrow> byte list \<Rightarrow> 'w \<Rightarrow> 'w option" where
  "ece391_fdputs os fd s w = map_option snd (os_write os fd (take (ece391_strlen s) s) w)"

fun ece391_strcmp :: "byte list \<Rightarrow> byte list \<Rightarrow> int" where
  "ece391_strcmp (a # s1) (b # s2) =
     (if a = b then if a = 0 then 0 else ece391_strcmp s1 s2 else uint a - uint b)"
| "ece391_strcmp [] (b # s2) = - uint b"
| "ece391_strcmp (a # s1) [] = uint a"
| "ece391_strcmp [] [] = 0"

fun ece391_strncmp :: "byte list \<Rightarrow> byte list \<Rightarrow> nat \<Rightarrow> int" where
  "ece391_strncmp s1 s2 0 = 0"
| "ece391_strncmp (a # s1) (b # s2) (Suc n) =
     (if a = b then if a = 0 \<or> n = 0 then 0 else ece391_strncmp s1 s2 n else uint a - uint b)"
| "ece391_strncmp [] (b # s2) (Suc n) = - uint b"
| "ece391_strncmp (a # s1) [] (Suc n) = uint a"
| "ece391_strncmp [] [] (Suc n) = 0"

text \<open>\<open>ece391_strcpy\<close> from index \<open>j\<close> down to index \<open>i\<close> of the same buffer; no result when no NUL ends the source.\<close>

function strcpy_down :: "nat \<Rightarrow> nat \<Rightarrow> byte list \<Rightarrow> byte list option" where
  "strcpy_down i j buf =
     (if j < length buf then
        let buf' = buf[i := buf ! j] in if buf ! j = 0 then Some buf' else strcpy_down (Suc i) (Suc j) buf'
      else None)"
  by pat_completeness auto
termination
  by (relation "measure (\<lambda>(i, j, buf). length buf - j)") auto

declare strcpy_down.simps [simp del]

text \<open>\<open>ece391_itoa\<close>: the digits from the lowest to the highest, then reversed. The radix is between 2 and 36
  (the C function does not return for 0 and 1).\<close>

definition lookup :: "byte list" where
  "lookup = ascii ''0123456789ABCDEFGHIJKLMNOPQRSTUVWXYZ''"

function itoa_chars :: "u32 \<Rightarrow> u32 \<Rightarrow> byte list" where
  "itoa_chars radix newval =
     (if newval = 0 \<or> radix \<le> 1 then []
      else lookup ! unat (newval mod radix) # itoa_chars radix (newval div radix))"
  by pat_completeness auto
termination
proof (relation "measure (\<lambda>(radix, newval). unat newval)")
  fix radix newval :: u32
  assume "\<not> (newval = 0 \<or> radix \<le> 1)"
  then have "0 < unat newval" "1 < unat radix"
    by (auto simp: word_le_nat_alt unat_gt_0)
  then show "((radix, newval div radix), radix, newval) \<in> measure (\<lambda>(radix, newval). unat newval)"
    by (simp add: unat_div)
qed simp

declare itoa_chars.simps [simp del]

text \<open>\<open>ece391_strrev\<close> swaps the ends of a string until they meet.\<close>

function strrev_chars :: "nat \<Rightarrow> nat \<Rightarrow> byte list \<Rightarrow> byte list" where
  "strrev_chars b e s =
     (if b < e then strrev_chars (Suc b) (e - 1) (s[e := s ! b, b := s ! e]) else s)"
  by pat_completeness auto
termination
  by (relation "measure (\<lambda>(b, e, s). e - b)") auto

declare strrev_chars.simps [simp del]

definition ece391_strrev :: "byte list \<Rightarrow> byte list" where
  "ece391_strrev s = (if length s \<le> 1 then s else strrev_chars 0 (length s - 1) s)"

definition ece391_itoa :: "u32 \<Rightarrow> u32 \<Rightarrow> byte list" where
  "ece391_itoa value radix = (if value = 0 then ascii ''0'' else ece391_strrev (itoa_chars radix value))"

section \<open>Lemmas\<close>

lemma ece391_strlen_takeWhile: "ece391_strlen s = length (takeWhile (\<lambda>c. c \<noteq> 0) s)"
  by (induction s) auto

lemma ece391_strlen_id: "0 \<notin> set s \<Longrightarrow> ece391_strlen s = length s"
  by (induction s) auto

lemma ece391_strcmp_eq:
  "0 \<notin> set s1 \<Longrightarrow> 0 \<notin> set s2 \<Longrightarrow> ece391_strcmp s1 s2 = 0 \<longleftrightarrow> s1 = s2"
  by (induction s1 s2 rule: ece391_strcmp.induct) (auto simp: word_uint_eq_iff)

lemma strrev_chars_nth:
  "e < length s \<Longrightarrow> length (strrev_chars b e s) = length s
     \<and> (\<forall>i < length s. strrev_chars b e s ! i = (if b \<le> i \<and> i \<le> e then s ! (b + e - i) else s ! i))"
proof (induction b e s rule: strrev_chars.induct)
  case (1 b e s)
  show ?case
  proof (cases "b < e")
    case True
    let ?s = "s[e := s ! b, b := s ! e]"
    have IH: "length (strrev_chars (Suc b) (e - 1) ?s) = length ?s"
        "\<And>i. i < length ?s \<Longrightarrow> strrev_chars (Suc b) (e - 1) ?s ! i
           = (if Suc b \<le> i \<and> i \<le> e - 1 then ?s ! (Suc b + (e - 1) - i) else ?s ! i)"
      using "1.IH" [OF True] "1.prems" by auto
    have "strrev_chars (Suc b) (e - 1) ?s ! i = (if b \<le> i \<and> i \<le> e then s ! (b + e - i) else s ! i)"
      if i: "i < length s" for i
    proof -
      consider "i < b \<or> e < i" | "i = b" | "i = e" | "Suc b \<le> i" "i \<le> e - 1" by linarith
      then show ?thesis using IH(2) [of i] i True "1.prems" by cases (auto simp: nth_list_update)
    qed
    then show ?thesis using IH(1) True by (simp add: strrev_chars.simps [of b e s])
  next
    case False
    then have "s ! (b + e - i) = s ! i" if "b \<le> i" "i \<le> e" for i
      using that by (metis add_diff_cancel_left' le_antisym le_less_linear le_trans)
    then show ?thesis using False by (simp add: strrev_chars.simps [of b e s])
  qed
qed

lemma ece391_strrev_rev: "ece391_strrev s = rev s"
proof (cases "length s \<le> 1")
  case True
  then show ?thesis by (cases s) (auto simp: ece391_strrev_def)
next
  case False
  then have "length s - 1 < length s" by simp
  from strrev_chars_nth [OF this, of 0] show ?thesis
    using False by (intro nth_equalityI) (auto simp: ece391_strrev_def rev_nth)
qed

end
