(* ===== verification/User_Programs.thy ===== *)
theory User_Programs
  imports User_Lib "HOL-Library.Sublist"
begin

text \<open>
  User programs of \<^verbatim>\<open>syscalls/\<close>, written in the option monad over the state of the system calls. Loops that
  run as long as a system call says so are partial functions. The contents of a local buffer before
  it is written are an argument \<open>buf\<close>. String literals are written without their NUL.
\<close>

section \<open>hello and testprint\<close>

definition hello_main :: "'w os \<Rightarrow> byte list \<Rightarrow> 'w \<Rightarrow> (int \<times> 'w) option" where
  "hello_main os buf w = do {
     w \<leftarrow> ece391_fdputs os 1 (ascii ''Hi, what's your name? '') w;
     (cnt, bs, w) \<leftarrow> os_read os 0 1023 w;
     if cnt = -1 then do {
       w \<leftarrow> ece391_fdputs os 1 (ascii ''Can't read name from keyboard.\<newline>'') w;
       Some (3, w)
     } else do {
       w \<leftarrow> ece391_fdputs os 1 (ascii ''Hello, '') w;
       w \<leftarrow> ece391_fdputs os 1 ((fill 0 bs buf)[nat cnt := 0]) w;
       Some (0, w)
     }
   }"

definition testprint_main :: "'w os \<Rightarrow> 'w \<Rightarrow> (int \<times> 'w) option" where
  "testprint_main os w = do {
     w \<leftarrow> ece391_fdputs os 1 (ascii ''Hello, if this ran, the program was correct. Yay!\<newline>'') w;
     Some (0, w)
   }"

section \<open>counter\<close>

definition counter_print :: "'w os \<Rightarrow> nat \<Rightarrow> 'w \<Rightarrow> 'w option" where
  "counter_print os i w = do {
     w \<leftarrow> ece391_fdputs os 1 (ece391_itoa (of_nat i + 1) 10) w;
     ece391_fdputs os 1 (ascii ''\<newline>'') w
   }"

primrec counter_loop :: "'w os \<Rightarrow> nat list \<Rightarrow> 'w \<Rightarrow> 'w option" where
  "counter_loop os [] w = Some w"
| "counter_loop os (i # is) w = Option.bind (counter_print os i w) (counter_loop os is)"

definition counter_max :: "byte \<Rightarrow> nat" where
  "counter_max c = (if c = 48 then 100 else if c = 49 then 10000 else if c = 50 then 100000 else 0)"

definition counter_main :: "'w os \<Rightarrow> byte list \<Rightarrow> 'w \<Rightarrow> (int \<times> 'w) option" where
  "counter_main os buf w = do {
     w \<leftarrow> ece391_fdputs os 1 (ascii ''Enter the Test Number: (0): 100, (1): 10000, (2): 100000\<newline>'') w;
     (cnt, bs, w) \<leftarrow> os_read os 0 1023 w;
     if cnt = -1 then do {
       w \<leftarrow> ece391_fdputs os 1 (ascii ''Can't read the number from keyboard.\<newline>'') w;
       Some (3, w)
     } else
       let buf = (fill 0 bs buf)[nat cnt := 0]; n = ece391_strlen buf
       in if 2 < n \<or> n = 2 \<and> (buf ! 0 < 48 \<or> 50 < buf ! 0) then do {
            w \<leftarrow> ece391_fdputs os 1 (ascii ''Wrong Choice!\<newline>'') w;
            Some (0, w)
          } else do {
            w \<leftarrow> counter_loop os [0..<counter_max (buf ! 0)] w;
            Some (0, w)
          }
   }"

section \<open>ls\<close>

definition SBUFSIZE :: int where
  "SBUFSIZE = 33"

partial_function (option) ls_loop :: "'w os \<Rightarrow> int \<Rightarrow> byte list \<Rightarrow> 'w \<Rightarrow> (int \<times> 'w) option" where
  "ls_loop os fd buf w =
     Option.bind (os_read os fd (SBUFSIZE - 1) w) (\<lambda>(cnt, bs, w).
       if cnt = 0 then Some (0, w)
       else if cnt = -1
       then map_option (Pair 3) (ece391_fdputs os 1 (ascii ''directory entry read failed\<newline>'') w)
       else
         let buf = (fill 0 bs buf)[nat cnt := 10]
         in Option.bind (os_write os 1 (take (nat cnt + 1) buf) w) (\<lambda>(r, w).
              if r = -1 then Some (3, w) else ls_loop os fd buf w))"

definition ls_main :: "'w os \<Rightarrow> byte list \<Rightarrow> 'w \<Rightarrow> (int \<times> 'w) option" where
  "ls_main os buf w = do {
     (fd, w) \<leftarrow> os_open os (ascii ''.'') w;
     if fd = -1 then map_option (Pair 2) (ece391_fdputs os 1 (ascii ''directory open failed\<newline>'') w)
     else ls_loop os fd buf w
   }"

section \<open>shell\<close>

text \<open>What the shell says about the result of a command.\<close>

definition shell_verdict :: "int \<Rightarrow> byte list option" where
  "shell_verdict rval =
     (if rval = -1 then Some (ascii ''no such command\<newline>'')
      else if rval = 256 then Some (ascii ''program terminated by exception\<newline>'')
      else if rval \<noteq> 0 then Some (ascii ''program terminated abnormally\<newline>'')
      else None)"

definition shell_run :: "'w os \<Rightarrow> byte list \<Rightarrow> 'w \<Rightarrow> 'w option" where
  "shell_run os command w = do {
     (rval, w) \<leftarrow> os_execute os (take (ece391_strlen command) command) w;
     case shell_verdict rval of None \<Rightarrow> Some w | Some msg \<Rightarrow> ece391_fdputs os 1 msg w
   }"

text \<open>The line without its newline, terminated.\<close>

definition shell_line :: "int \<Rightarrow> byte list \<Rightarrow> byte list" where
  "shell_line cnt buf =
     (let cnt = (if 0 < cnt \<and> buf ! nat (cnt - 1) = 10 then cnt - 1 else cnt) in buf[nat cnt := 0])"

partial_function (option) shell_loop :: "'w os \<Rightarrow> byte list \<Rightarrow> 'w \<Rightarrow> (int \<times> 'w) option" where
  "shell_loop os buf w =
     Option.bind (ece391_fdputs os 1 (ascii ''391OS> '') w) (\<lambda>w.
     Option.bind (os_read os 0 1023 w) (\<lambda>(cnt, bs, w).
       if cnt = -1
       then map_option (Pair 3) (ece391_fdputs os 1 (ascii ''read from keyboard failed\<newline>'') w)
       else
         let buf = shell_line cnt (fill 0 bs buf)
         in if ece391_strcmp buf (ascii ''exit'') = 0 then Some (0, w)
            else if buf ! 0 = 0 then shell_loop os buf w
            else Option.bind (shell_run os buf w) (\<lambda>w. shell_loop os buf w)))"

definition shell_main :: "'w os \<Rightarrow> byte list \<Rightarrow> 'w \<Rightarrow> (int \<times> 'w) option" where
  "shell_main os buf w = do {
     w \<leftarrow> ece391_fdputs os 1 (ascii ''Starting 391 Shell\<newline>'') w;
     shell_loop os buf w
   }"

section \<open>grep\<close>

text \<open>The end of the line that starts at \<open>i\<close>: the next newline, or the end of the data.\<close>

function line_end :: "byte list \<Rightarrow> nat \<Rightarrow> nat \<Rightarrow> nat" where
  "line_end data dend i = (if i < dend \<and> data ! i \<noteq> 10 then line_end data dend (Suc i) else i)"
  by pat_completeness auto
termination
  by (relation "measure (\<lambda>(data, dend, i). dend - i)") auto

declare line_end.simps [simp del]

text \<open>Whether the string occurs in the line: the first place where it starts ends the search.\<close>

definition line_matches :: "byte list \<Rightarrow> byte list \<Rightarrow> nat \<Rightarrow> nat \<Rightarrow> bool" where
  "line_matches s data first dend =
     list_ex (\<lambda>check. (case s of [] \<Rightarrow> 0 | c # _ \<Rightarrow> c) = data ! check
       \<and> ece391_strncmp (drop check data) s (ece391_strlen s) = 0) [first..<dend]"

definition print_match :: "'w os \<Rightarrow> byte list \<Rightarrow> byte list \<Rightarrow> 'w \<Rightarrow> 'w option" where
  "print_match os fname line w = do {
     w \<leftarrow> ece391_fdputs os 1 fname w;
     w \<leftarrow> ece391_fdputs os 1 (ascii '':'') w;
     w \<leftarrow> ece391_fdputs os 1 line w;
     ece391_fdputs os 1 (ascii ''\<newline>'') w
   }"

text \<open>The lines of the buffer: the result is the buffer and how much of it is carried over.\<close>

partial_function (option) grep_lines ::
  "'w os \<Rightarrow> byte list \<Rightarrow> byte list \<Rightarrow> int \<Rightarrow> byte list \<Rightarrow> nat \<Rightarrow> nat \<Rightarrow> 'w \<Rightarrow> (byte list \<times> nat \<times> 'w) option"
where
  "grep_lines os s fname cnt data dend start w =
     (let e = line_end data dend start
      in if data ! e \<noteq> 10 \<and> cnt \<noteq> 0 \<and> start \<noteq> 0
         then Option.bind (strcpy_down 0 start (data[e := 0])) (\<lambda>data. Some (data, dend - start, w))
         else
           let data = data[e := 0]
           in Option.bind (if line_matches s data start e then print_match os fname (drop start data) w else Some w) (\<lambda>w.
                if dend \<le> Suc e then Some (data, 0, w) else grep_lines os s fname cnt data dend (Suc e) w))"

partial_function (option) grep_loop ::
  "'w os \<Rightarrow> byte list \<Rightarrow> byte list \<Rightarrow> int \<Rightarrow> byte list \<Rightarrow> nat \<Rightarrow> 'w \<Rightarrow> (int \<times> 'w) option"
where
  "grep_loop os s fname fd data dend w =
     Option.bind (os_read os fd (1024 - int dend) w) (\<lambda>(cnt, bs, w).
       if cnt = -1 then map_option (Pair (-1)) (ece391_fdputs os 1 (ascii ''file read failed\<newline>'') w)
       else
         Option.bind (grep_lines os s fname cnt (fill dend bs data) (dend + nat cnt) 0 w) (\<lambda>(data, dend, w).
           if cnt = 0 then Some (0, w) else grep_loop os s fname fd data dend w))"

definition do_one_file :: "'w os \<Rightarrow> byte list \<Rightarrow> byte list \<Rightarrow> byte list \<Rightarrow> 'w \<Rightarrow> (int \<times> 'w) option" where
  "do_one_file os s fname data w = do {
     (fd, w) \<leftarrow> os_open os (take (ece391_strlen fname) fname) w;
     if fd = -1 then map_option (Pair (-1)) (ece391_fdputs os 1 (ascii ''file open failed\<newline>'') w)
     else do {
       (r, w) \<leftarrow> grep_loop os s fname fd data 0 w;
       if r = -1 then Some (-1, w)
       else do {
         (c, w) \<leftarrow> os_close os fd w;
         if c = -1 then map_option (Pair (-1)) (ece391_fdputs os 1 (ascii ''file close failed\<newline>'') w)
         else Some (0, w)
       }
     }
   }"

partial_function (option) grep_files ::
  "'w os \<Rightarrow> byte list \<Rightarrow> int \<Rightarrow> byte list \<Rightarrow> byte list \<Rightarrow> 'w \<Rightarrow> (int \<times> 'w) option"
where
  "grep_files os search fd buf data w =
     Option.bind (os_read os fd (SBUFSIZE - 1) w) (\<lambda>(cnt, bs, w).
       if cnt = 0 then Some (0, w)
       else if cnt = -1
       then map_option (Pair 3) (ece391_fdputs os 1 (ascii ''directory entry read failed\<newline>'') w)
       else
         let buf = fill 0 bs buf
         in if buf ! 0 = 46 then grep_files os search fd buf data w
            else
              let buf = buf[nat cnt := 0]
              in Option.bind (do_one_file os search buf data w) (\<lambda>(r, w).
                   if r \<noteq> 0 then Some (3, w) else grep_files os search fd buf data w))"

definition grep_main :: "'w os \<Rightarrow> byte list \<Rightarrow> byte list \<Rightarrow> byte list \<Rightarrow> 'w \<Rightarrow> (int \<times> 'w) option" where
  "grep_main os search buf data w = do {
     (r, bs, w) \<leftarrow> os_getargs os 1024 w;
     if r \<noteq> 0 then map_option (Pair 3) (ece391_fdputs os 1 (ascii ''could not read argument\<newline>'') w)
     else do {
       (fd, w) \<leftarrow> os_open os (ascii ''.'') w;
       if fd = -1 then map_option (Pair 2) (ece391_fdputs os 1 (ascii ''directory open failed\<newline>'') w)
       else grep_files os (fill 0 bs search) fd buf data w
     }
   }"

section \<open>Lemmas\<close>

lemma strncmp_prefix: "0 \<notin> set s \<Longrightarrow> ece391_strncmp x s (length s) = 0 \<longleftrightarrow> prefix s x"
proof (induction x s "length s" rule: ece391_strncmp.induct)
  case (2 a s1 b s2 n)
  then show ?case by (cases "n = 0") (auto simp: word_uint_eq_iff)
qed (auto simp: word_uint_eq_iff)

lemma prefix_before_nul:
  assumes "prefix s (drop k data)" and "0 \<notin> set s" and "data ! e = 0" and "k < e" and "e < length data"
  shows "k + length s \<le> e"
proof (rule ccontr)
  assume "\<not> k + length s \<le> e"
  then have i: "e - k < length s" using assms(4) by simp
  obtain zs where "drop k data = s @ zs" using assms(1) by (auto simp: prefix_def)
  then have "s ! (e - k) = drop k data ! (e - k)" using i by (simp add: nth_append)
  also have "\<dots> = 0" using assms(3-5) by simp
  finally show False using i assms(2) by (metis nth_mem)
qed

text \<open>The search succeeds if and only if the string is a substring of the line; a match never extends beyond its end.\<close>

lemma line_matches_sublist:
  assumes "0 \<notin> set s" and "s \<noteq> []" and "first \<le> e" and "e < length data" and "data ! e = 0"
  shows "line_matches s data first e \<longleftrightarrow> sublist s (take (e - first) (drop first data))"
proof -
  let ?line = "take (e - first) (drop first data)"
  have m: "line_matches s data first e \<longleftrightarrow> (\<exists>k. first \<le> k \<and> k < e \<and> s ! 0 = data ! k \<and> prefix s (drop k data))"
    using assms(1,2) strncmp_prefix [OF assms(1)]
    by (cases s) (auto simp: line_matches_def list_ex_iff ece391_strlen_id)
  show ?thesis
  proof
    assume "line_matches s data first e"
    then obtain k where k: "first \<le> k" "k < e" "prefix s (drop k data)" using m by blast
    have l: "k + length s \<le> e" by (rule prefix_before_nul [OF k(3) assms(1,5) k(2) assms(4)])
    have "s = take (length s) (drop k data)" using k(3) by (simp add: prefix_def) (metis append_eq_conv_conj)
    also have "\<dots> = take (length s) (drop (k - first) ?line)"
      using k(1,2) l by (simp add: drop_take min_def)
    finally have "s = take (length s) (drop (k - first) ?line)" .
    then show "sublist s ?line" by (metis sublist_drop sublist_order.order_trans sublist_take)
  next
    assume "sublist s ?line"
    then obtain ps zs where z: "?line = ps @ s @ zs" by (auto simp: sublist_def)
    let ?k = "first + length ps"
    have "length ?line = e - first" using assms(4) by simp
    then have len: "length ps + length s + length zs = e - first" using z by simp
    have "drop first data = ?line @ drop (e - first) (drop first data)" by (rule append_take_drop_id [symmetric])
    then have d: "drop ?k data = s @ zs @ drop (e - first) (drop first data)"
      using z by (metis (no_types, lifting) append.assoc append_eq_conv_conj drop_drop add.commute)
    have "0 < length s" using assms(2) by simp
    then have "?k < e" using len by linarith
    moreover have "data ! ?k = s ! 0" using d assms(2,4) \<open>?k < e\<close> by (metis hd_append2 hd_conv_nth hd_drop_conv_nth order.strict_trans)
    moreover have "prefix s (drop ?k data)" using d by simp
    ultimately show "line_matches s data first e" using m by (metis le_add1)
  qed
qed

end
