(* ===== verification/User_Kernel.thy ===== *)
theory User_Kernel
  imports Program_Memory User_Programs Entry_Stubs
begin

text \<open>
  User programs on the kernel. \<open>do_call\<close> is the library stub of a system call up to the instruction behind \<^verbatim>\<open>INT\<close>, on
  the processor, through the kernel's gate and its stub. \<open>kernel_os\<close> gives a program the kernel's own C functions
  (\<open>syscall_dispatch\<close>) as its system calls, with the way back as a parameter: \<open>back\<close> says which calls, by their four
  registers, reach the instruction behind \<^verbatim>\<open>INT\<close> again. With \<open>c_os\<close> every answer of a C function reaches the program: what is
  proved about programs on it is about the C code of the kernel. \<open>through_stub\<close> says that the way back is the one of
  \<^verbatim>\<open>syscallWrapper.S\<close>, which loses the caller (\<open>syscall_stub_return\<close>). A program keeps the strings and buffers it passes at an
  address \<open>A\<close> of its own page; \<open>kernel_os\<close> stores what is passed there and reads back what the kernel stored. A call that enters
  another program or still waits gives no result here.
\<close>

section \<open>The way to the kernel and back\<close>

text \<open>
  \<open>DO_CALL\<close>: \<open>ebx\<close> is pushed on the program's stack, the number and the three words above the return address are loaded into
  registers, and \<^verbatim>\<open>INT\<close> enters the gate; \<open>ret_at\<close> is the address behind it. The result is the processor when the stub
  has left the kernel, wherever it goes on.
\<close>

definition do_call :: "(nat \<Rightarrow> routine) \<Rightarrow> u32 \<Rightarrow> u32 \<Rightarrow> u32 \<Rightarrow> u32 \<Rightarrow> u32 \<Rightarrow> u32 \<Rightarrow> u32 \<Rightarrow> cpu \<Rightarrow> cpu option" where
  "do_call jumptable esp0 target number w1 w2 w3 ret_at c =
     (let c = c\<lparr>esp_reg := esp_reg c - 4\<rparr>;
          c = c\<lparr>regs := (regs c)(EAX := number)\<rparr>;
          c = c\<lparr>regs := (regs c)(EBX := w1)\<rparr>;
          c = c\<lparr>regs := (regs c)(ECX := w2)\<rparr>;
          c = c\<lparr>regs := (regs c)(EDX := w3)\<rparr>
      in syscall_stub jumptable (enter_gate esp0 target (c\<lparr>eip := ret_at\<rparr>)))"

text \<open>The program goes on behind the call, in whatever mode.\<close>

definition comes_back :: "u32 \<Rightarrow> cpu option \<Rightarrow> bool" where
  "comes_back ret_at r \<longleftrightarrow> (case r of None \<Rightarrow> False | Some d \<Rightarrow> eip d = ret_at)"

text \<open>A way back is the stub's when only calls come back that can do so through it.\<close>

definition through_stub :: "(u32 \<Rightarrow> u32 \<Rightarrow> u32 \<Rightarrow> u32 \<Rightarrow> bool) \<Rightarrow> bool" where
  "through_stub back \<longleftrightarrow> (\<forall>eax ebx ecx edx. back eax ebx ecx edx \<longrightarrow>
     (\<exists>jumptable esp0 target ret_at c. cs_reg c = USER_CS
        \<and> comes_back ret_at (do_call jumptable esp0 target eax ebx ecx edx ret_at c)))"

lemma stub_needs_selector:
  assumes "through_stub back" and "back eax ebx ecx edx" and "1 \<le> sint eax" "sint eax \<le> 10"
  shows "ucast edx = KERNEL_CS \<or> ucast edx = USER_CS"
proof -
  obtain jumptable esp0 target ret_at c where c: "cs_reg c = USER_CS"
      and "comes_back ret_at (do_call jumptable esp0 target eax ebx ecx edx ret_at c)"
    using assms(1,2) unfolding through_stub_def by blast
  then obtain d where "do_call jumptable esp0 target eax ebx ecx edx ret_at c = Some d"
    by (auto simp: comes_back_def split: option.splits)
  then show ?thesis
    using c assms(3,4)
    by (auto simp: do_call_def syscall_stub_def enter_gate_def iret_def stack_code Let_def segments split: if_splits)
qed

text \<open>Such a way back: calls with the address behind \<^verbatim>\<open>INT\<close> in \<open>ecx\<close> and the code selector in \<open>edx\<close> do come back, if \<open>ebp\<close> holds
  the data selector.\<close>

definition lucky_call :: "u32 \<Rightarrow> u32 \<Rightarrow> u32 \<Rightarrow> u32 \<Rightarrow> u32 \<Rightarrow> bool" where
  "lucky_call ret_at eax ebx ecx edx \<longleftrightarrow> 1 \<le> sint eax \<and> sint eax \<le> 10 \<and> ecx = ret_at \<and> ucast edx = USER_CS"

lemma lucky_calls_come_back: "through_stub (lucky_call ret_at)"
  unfolding through_stub_def
proof (intro allI impI)
  fix eax ebx ecx edx
  assume l: "lucky_call ret_at eax ebx ecx edx"
  let ?c = "\<lparr>regs = (\<lambda>_. 0)(EBP := 0x2B), eflags = 0x202, eip = 0, cs_reg = USER_CS, ss_reg = USER_DS,
    esp_reg = 0x083FFFF0, stack = []\<rparr> :: cpu"
  have "comes_back ret_at (do_call (\<lambda>_ c. (regs c, eflags c)) 0x800000 0 eax ebx ecx edx ret_at ?c)"
    using l by (auto simp: lucky_call_def comes_back_def do_call_def syscall_stub_def enter_gate_def iret_def stack_code
        Let_def segments USER_DS_def)
  then show "\<exists>jumptable esp0 target ret_at c. cs_reg c = USER_CS
      \<and> comes_back ret_at (do_call jumptable esp0 target eax ebx ecx edx ret_at c)"
    by (intro exI conjI) (auto intro: refl)
qed

section \<open>System calls of a program\<close>

definition int80 :: "(u32 \<Rightarrow> u32 \<Rightarrow> u32 \<Rightarrow> u32 \<Rightarrow> bool) \<Rightarrow> u32 \<Rightarrow> u32 \<Rightarrow> u32 \<Rightarrow> u32 \<Rightarrow> kstate \<Rightarrow> (int \<times> kstate) option" where
  "int80 back eax ebx ecx edx s =
     (case syscall_dispatch [] 0 0 [] eax ebx ecx edx s of
        Return v s' \<Rightarrow> if back eax ebx ecx edx then Some (v, s') else None
      | _ \<Rightarrow> None)"

text \<open>\<open>junk n\<close> is what register or stack word \<open>n\<close> (0 for \<open>ebx\<close>, 1 for \<open>ecx\<close>, 2 for \<open>edx\<close>) holds where a call has no argument.\<close>

definition kernel_os :: "(u32 \<Rightarrow> u32 \<Rightarrow> u32 \<Rightarrow> u32 \<Rightarrow> bool) \<Rightarrow> (nat \<Rightarrow> u32) \<Rightarrow> addr \<Rightarrow> kstate os" where
  "kernel_os back junk A = \<lparr>
     os_execute = (\<lambda>command s. int80 back 2 A (junk 1) (junk 2) (vstore_bytes A (command @ [0]) s)),
     os_read = (\<lambda>fd n s. map_option (\<lambda>(v, s'). (v, load_bytes (view s') A (nat n), s'))
       (int80 back 3 (of_int fd) A (of_int n) s)),
     os_write = (\<lambda>fd bs s. int80 back 4 (of_int fd) A (of_nat (length bs)) (vstore_bytes A bs s)),
     os_open = (\<lambda>name s. int80 back 5 A (junk 1) (junk 2) (vstore_bytes A (name @ [0]) s)),
     os_close = (\<lambda>fd s. int80 back 6 (of_int fd) (junk 1) (junk 2) s),
     os_getargs = (\<lambda>n s. map_option (\<lambda>(v, s'). (v, load_bytes (view s') A (nat n), s'))
       (int80 back 7 A (of_int n) (junk 2) s)),
     os_vidmap = (\<lambda>p s. int80 back 8 p (junk 1) (junk 2) s),
     os_set_handler = (\<lambda>signum handler s. int80 back 9 (of_int signum) handler (junk 2) s),
     os_number = (\<lambda>n s. int80 back n (junk 0) (junk 1) (junk 2) s)\<rparr>"

abbreviation c_os :: "addr \<Rightarrow> kstate os" where
  "c_os A \<equiv> kernel_os (\<lambda>_ _ _ _. True) (\<lambda>_. 0) A"

lemma int80_calls:
  "int80 (\<lambda>_ _ _ _. True) 3 fd A n s = file_descriptor_table_read [] (active_pid s) (sint fd) A n s"
  "int80 (\<lambda>_ _ _ _. True) 4 fd A n s = Some (file_descriptor_table_write (active_pid s) (sint fd) A n s)"
  "int80 (\<lambda>_ _ _ _. True) 6 fd ecx edx s = Some (fst (file_descriptor_table_close (sint fd) (pcb_of (active_pid s) s)),
     upd_pcb (active_pid s) (\<lambda>_. snd (file_descriptor_table_close (sint fd) (pcb_of (active_pid s) s))) s)"
  by (auto simp: int80_def syscall_dispatch_def syscall_read_def as_outcome_def syscall_write_def syscall_close_def
      split: option.split prod.split)

text \<open>
  Through the stub no read or write comes back whose length, in \<open>edx\<close>, is not one of the code selectors 16 and 35.
\<close>

lemma stub_loses_transfers:
  assumes "through_stub back"
  shows "n mod 65536 \<notin> {16, 35} \<Longrightarrow> os_read (kernel_os back junk A) fd (int n) s = None"
    and "length bs mod 65536 \<notin> {16, 35} \<Longrightarrow> os_write (kernel_os back junk A) fd bs s = None"
proof -
  have sel: "k mod 65536 \<in> {16, 35}" if "ucast (of_nat k :: u32) = KERNEL_CS \<or> ucast (of_nat k :: u32) = USER_CS" for k
  proof -
    have "unat (ucast (of_nat k :: u32) :: 16 word) = k mod 65536"
      by (simp add: unsigned_ucast_eq unsigned_of_nat take_bit_eq_mod mod_mod_cancel)
    then show ?thesis using that by (auto simp: USER_CS_def KERNEL_CS_def)
  qed
  have lost: "int80 back eax ebx ecx (of_nat k) u = None" if "eax \<in> {3, 4}" "k mod 65536 \<notin> {16, 35}" for eax ebx ecx k u
  proof -
    have "1 \<le> sint eax \<and> sint eax \<le> 10" using that(1) by auto
    then have "\<not> back eax ebx ecx (of_nat k)"
      using stub_needs_selector [OF assms] sel [of k] that(2) by blast
    then show ?thesis by (auto simp: int80_def split: outcome.split)
  qed
  show "n mod 65536 \<notin> {16, 35} \<Longrightarrow> os_read (kernel_os back junk A) fd (int n) s = None"
    using lost [of 3 n] by (simp add: kernel_os_def)
  show "length bs mod 65536 \<notin> {16, 35} \<Longrightarrow> os_write (kernel_os back junk A) fd bs s = None"
    using lost [of 4 "length bs"] by (simp add: kernel_os_def)
qed

lemma stub_loses_message:
  assumes "through_stub back" and "0 \<notin> set msg" and "length msg < 35" "length msg \<noteq> 16"
  shows "ece391_fdputs (kernel_os back junk A) fd msg s = None"
proof -
  have "length (take (ece391_strlen msg) msg) mod 65536 \<notin> {16, 35}" using assms(2-4) by (simp add: ece391_strlen_id)
  then show ?thesis using stub_loses_transfers(2) [OF assms(1)] by (simp add: ece391_fdputs_def)
qed

section \<open>Output of a program\<close>

text \<open>Output does not touch the memory of the program.\<close>

lemma putc_becomes:
  assumes "keyboard_ok s"
  shows "console_becomes (active_terminal s) (low_frame VIDEO s) s
    (spec_putc c (console_of (active_terminal s) (low_frame VIDEO s) s)) (putc c s)"
proof -
  have v: "video_ok s" using assms by (simp add: keyboard_ok_def)
  note b = video_bases [OF v]
  show ?thesis unfolding putc_def by (rule putc_at_spec [OF b(3,5,4) refl])
qed

lemma view_putc:
  assumes "keyboard_ok s" and "program_page s" and "dir_index va = 32"
  shows "view (putc c s) va = view s va"
proof -
  obtain p where p: "p \<le> 6" and x: "xlate False (pages s) va = Some (0x800 + p * 0x400 + (frame_of va AND 0x003FF), ucast va)"
    using xlate_program [OF assms(2)] assms(3) by blast
  let ?f = "0x800 + p * 0x400 + (frame_of va AND 0x003FF)"
  have "low_frame VIDEO s \<in> video_frames" using assms(1) by (intro video_targets) (simp add: keyboard_ok_def)
  moreover have "0x800 \<le> unat ?f" using pid_frame(2) [OF p, of "frame_of va"] by simp
  ultimately have "?f \<noteq> low_frame VIDEO s" by (auto simp: video_frames_def)
  then have "pmem (putc c s) ?f = pmem s ?f" by (rule console_becomes_frame(9) [OF putc_becomes [OF assms(1)]])
  then show ?thesis
    using x console_becomes_frame(1) [OF putc_becomes [OF assms(1)]] by (simp add: view_def vload_def)
qed

text \<open>
  Writing a buffer of the program to the terminal puts its bytes on the console of the terminal; the other screens and
  terminals stay as they are.
\<close>

definition other_screens_kept :: "kstate \<Rightarrow> kstate \<Rightarrow> bool" where
  "other_screens_kept s s' \<longleftrightarrow> (\<forall>f\<in>video_frames. f \<noteq> low_frame VIDEO s \<longrightarrow> pmem s' f = pmem s f)
     \<and> (\<forall>t. t \<noteq> active_terminal s \<longrightarrow> terminals s' t = terminals s t)"

definition console_shows :: "byte list \<Rightarrow> kstate \<Rightarrow> kstate \<Rightarrow> bool" where
  "console_shows bs s s' \<longleftrightarrow> keyboard_ok s' \<and> pages s' = pages s \<and> active_terminal s' = active_terminal s
     \<and> kernel_memory s' = kernel_memory s \<and> active_pid s' = active_pid s
     \<and> boot_block_pointer s' = boot_block_pointer s \<and> other_screens_kept s s'
     \<and> console_of (active_terminal s) (low_frame VIDEO s) s'
        = fold spec_putc bs (console_of (active_terminal s) (low_frame VIDEO s) s)"

lemma console_shows_trans:
  assumes "console_shows bs s s'" and "console_shows cs s' s''"
  shows "console_shows (bs @ cs) s s''"
proof -
  have "other_screens_kept s s''"
    using assms by (simp add: console_shows_def other_screens_kept_def low_frame_def)
  then show ?thesis using assms by (simp add: console_shows_def low_frame_def)
qed

lemma console_shows_putc: "keyboard_ok s \<Longrightarrow> console_shows [c] s (putc c s)"
  using console_becomes_frame [OF putc_becomes] console_becomes_console(1) [OF putc_becomes] keyboard_ok_putc
  by (simp add: console_shows_def other_screens_kept_def kernel_memory_putc)

lemma fold_putc_shows:
  "keyboard_ok s \<Longrightarrow> program_page s \<Longrightarrow> console_shows bs s (fold putc bs s)
     \<and> (\<forall>va. dir_index va = 32 \<longrightarrow> view (fold putc bs s) va = view s va)"
proof (induction bs arbitrary: s)
  case Nil
  then show ?case by (simp add: console_shows_def other_screens_kept_def)
next
  case (Cons c bs)
  have 1: "console_shows [c] s (putc c s)" by (rule console_shows_putc [OF Cons.prems(1)])
  then have "keyboard_ok (putc c s)" "program_page (putc c s)"
    using Cons.prems program_page_pages [of "putc c s" s] by (simp_all add: console_shows_def)
  from Cons.IH [OF this] show ?case
    using console_shows_trans [OF 1, of bs] view_putc [OF Cons.prems] by simp
qed

lemma terminal_write_fold:
  assumes "keyboard_ok s" and "program_page s" and "program_range a (length bs)"
    and "load_bytes (view s) a (length bs) = bs" and "bs \<noteq> []"
  shows "terminal_write a (of_nat (length bs)) s = (int (length bs), fold putc bs s)"
proof -
  have "fold (\<lambda>i s. putc (vload s (a + of_nat i)) s) [0..<n] s = fold putc (take n bs) s" if "n \<le> length bs" for n
    using that
  proof (induction n)
    case (Suc n)
    have "vload (fold putc (take n bs) s) (a + of_nat n) = view s (a + of_nat n)"
      using fold_putc_shows [OF assms(1,2), of "take n bs"] program_range_dir [OF assms(3), of n] Suc.prems
      by (simp add: view_def)
    also have "\<dots> = bs ! n" using assms(4) Suc.prems by (metis Suc_le_lessD nth_load_bytes)
    finally show ?case using Suc by (simp add: take_Suc_conv_app_nth)
  qed simp
  from this [of "length bs"] have f: "fold (\<lambda>i s. putc (vload s (a + of_nat i)) s) [0..<length bs] s = fold putc bs s"
    by simp
  have l: "length bs < 2 ^ 31" using assms(3) by (simp add: program_range_def)
  then have u: "unat (of_nat (length bs) :: u32) = length bs" by (simp add: unat_of_nat)
  moreover have "sint (of_nat (length bs) :: u32) = int (length bs)"
    by (rule sint_small_nat) (use l in simp)
  moreover have "a \<noteq> NULL" using assms(3) by (auto simp: program_range_def)
  moreover have "of_nat (length bs) \<noteq> (0 :: u32)" using u assms(5) by (metis length_0_conv unat_0)
  ultimately show ?thesis using f by (simp add: terminal_write_def)
qed

end
