(* ===== verification/User_Syserr.thy ===== *)
theory User_Syserr
  imports User_Kernel
begin

text \<open>
  The test program \<^verbatim>\<open>syscalls/ece391syserr.c\<close>: eight tests that call the system with bad arguments and report
  whether it answers with errors. It is a specification of the kernel's error behaviour that can be
  run; below, the tests that do not depend on the contents of the disk are run against the kernel's own
  C functions, and all of them against its system call stub.
\<close>

section \<open>The program\<close>

definition NEG_FD :: int where
  "NEG_FD = -1073741823"

definition BIG_FD :: int where
  "BIG_FD = 1073741823"

text \<open>One check: make a call; if it does not answer -1, print a message and remember the failure.\<close>

definition check :: "'w os \<Rightarrow> byte list \<Rightarrow> ('w \<Rightarrow> (int \<times> 'w) option) \<Rightarrow> int \<times> 'w \<Rightarrow> (int \<times> 'w) option" where
  "check os msg call st = (case st of (fail, w) \<Rightarrow> do {
     (r, w) \<leftarrow> call w;
     if r \<noteq> -1 then map_option (Pair 2) (ece391_fdputs os 1 msg w) else Some (fail, w)
   })"

primrec checks :: "'w os \<Rightarrow> (byte list \<times> ('w \<Rightarrow> (int \<times> 'w) option)) list \<Rightarrow> int \<times> 'w \<Rightarrow> (int \<times> 'w) option" where
  "checks os [] st = Some st"
| "checks os (c # cs) st = Option.bind (check os (fst c) (snd c) st) (checks os cs)"

definition verdict :: "'w os \<Rightarrow> byte list \<Rightarrow> int \<times> 'w \<Rightarrow> (int \<times> 'w) option" where
  "verdict os name st = (case st of (fail, w) \<Rightarrow>
     map_option (Pair fail)
       (ece391_fdputs os 1 (name @ (if fail \<noteq> 0 then ascii '': FAIL\<newline>'' else ascii '': PASS\<newline>'')) w))"

definition run_test :: "'w os \<Rightarrow> byte list \<Rightarrow> (byte list \<times> ('w \<Rightarrow> (int \<times> 'w) option)) list \<Rightarrow> 'w \<Rightarrow> (int \<times> 'w) option" where
  "run_test os name cs w = Option.bind (checks os cs (0, w)) (verdict os name)"

text \<open>Only the result of a read is looked at.\<close>

definition read_result :: "'w os \<Rightarrow> int \<Rightarrow> 'w \<Rightarrow> (int \<times> 'w) option" where
  "read_result os fd w = map_option (\<lambda>(r, bs, w). (r, w)) (os_read os fd 31 w)"

definition err_neg_fd :: "'w os \<Rightarrow> byte list \<Rightarrow> 'w \<Rightarrow> (int \<times> 'w) option" where
  "err_neg_fd os buf = run_test os (ascii ''err_neg_fd'')
     [(ascii ''read fail\<newline>'', read_result os NEG_FD),
      (ascii ''write fail\<newline>'', os_write os NEG_FD (take 31 buf)),
      (ascii ''close fail\<newline>'', os_close os NEG_FD)]"

definition err_big_fd :: "'w os \<Rightarrow> byte list \<Rightarrow> 'w \<Rightarrow> (int \<times> 'w) option" where
  "err_big_fd os buf = run_test os (ascii ''err_big_fd'')
     [(ascii ''read fail\<newline>'', read_result os BIG_FD),
      (ascii ''write fail\<newline>'', os_write os BIG_FD (take 31 buf)),
      (ascii ''close fail\<newline>'', os_close os BIG_FD)]"

primrec open_lots :: "'w os \<Rightarrow> nat \<Rightarrow> int \<times> 'w \<Rightarrow> (int \<times> 'w) option" where
  "open_lots os 0 st = Some st"
| "open_lots os (Suc n) st = (case st of (cnt, w) \<Rightarrow> do {
     (r, w) \<leftarrow> os_open os (ascii ''.'') w;
     open_lots os n (if r = -1 then cnt + 1 else cnt, w)
   })"

primrec close_fds :: "'w os \<Rightarrow> nat list \<Rightarrow> 'w \<Rightarrow> 'w option" where
  "close_fds os [] w = Some w"
| "close_fds os (i # is) w = do { (r, w) \<leftarrow> os_close os (int i) w; close_fds os is w }"

definition err_open_lots :: "'w os \<Rightarrow> 'w \<Rightarrow> (int \<times> 'w) option" where
  "err_open_lots os w = do {
     (cnt, w) \<leftarrow> open_lots os 7 (0, w);
     w \<leftarrow> close_fds os [2..<8] w;
     if cnt = 1 then map_option (Pair 0) (ece391_fdputs os 1 (ascii ''err_open_lots: PASS\<newline>'') w)
     else map_option (Pair 2) (ece391_fdputs os 1 (ascii ''err_open_lots: FAIL\<newline>'') w)
   }"

definition err_open :: "'w os \<Rightarrow> 'w \<Rightarrow> (int \<times> 'w) option" where
  "err_open os = run_test os (ascii ''err_open'')
     [(ascii '''helloo' fail\<newline>'', os_open os (ascii ''helloo'')),
      (ascii '''shel' fail\<newline>'', os_open os (ascii ''shel'')),
      (ascii ''empty string fail\<newline>'', os_open os (ascii ''''))]"

definition err_unopened :: "'w os \<Rightarrow> byte list \<Rightarrow> 'w \<Rightarrow> (int \<times> 'w) option" where
  "err_unopened os buf = run_test os (ascii ''err_unopened'')
     (map (\<lambda>i. (ascii ''close unopened or invalid fd fail\<newline>'', os_close os (int i))) [0..<8]
      @ map (\<lambda>i. (ascii ''read from unopened fd fail\<newline>'', read_result os (int i))) [2..<8]
      @ map (\<lambda>i. (ascii ''write to unopened fd fail\<newline>'', os_write os (int i) (take 31 buf))) [2..<8])"

definition err_vidmap :: "'w os \<Rightarrow> 'w \<Rightarrow> (int \<times> 'w) option" where
  "err_vidmap os = run_test os (ascii ''err_vidmap'')
     [(ascii ''Null pointer fail\<newline>'', os_vidmap os 0x0),
      (ascii ''Kernel pointer fail fail\<newline>'', os_vidmap os 0x400000)]"

definition err_stdin_out :: "'w os \<Rightarrow> byte list \<Rightarrow> 'w \<Rightarrow> (int \<times> 'w) option" where
  "err_stdin_out os buf = run_test os (ascii ''err_stdin_out'')
     [(ascii ''write to stdin fail\<newline>'', os_write os 0 (take 31 buf)),
      (ascii ''read from stdout fail\<newline>'', read_result os 1)]"

definition err_syscall_num :: "'w os \<Rightarrow> 'w \<Rightarrow> (int \<times> 'w) option" where
  "err_syscall_num os = run_test os (ascii ''err_syscall_num'')
     [(ascii ''syscall 0 fail\<newline>'', os_number os 1073741823),
      (ascii ''big num syscall fail\<newline>'', os_number os (-1073741823)),
      (ascii ''neg num syscall fail\<newline>'', os_number os 0)]"

text \<open>The tests in order; each has a buffer of its own on the stack.\<close>

definition syserr_tests :: "'w os \<Rightarrow> byte list \<Rightarrow> ('w \<Rightarrow> (int \<times> 'w) option) list" where
  "syserr_tests os buf = [err_neg_fd os buf, err_big_fd os buf, err_open_lots os, err_open os, err_unopened os buf,
     err_vidmap os, err_stdin_out os buf, err_syscall_num os]"

primrec run_all :: "('w \<Rightarrow> (int \<times> 'w) option) list \<Rightarrow> int \<times> 'w \<Rightarrow> (int \<times> 'w) option" where
  "run_all [] st = Some st"
| "run_all (t # ts) st = (case st of (fail, w) \<Rightarrow> do { (r, w) \<leftarrow> t w; run_all ts (fail + r, w) })"

definition syserr_main :: "'w os \<Rightarrow> byte list \<Rightarrow> byte list \<Rightarrow> 'w \<Rightarrow> (int \<times> 'w) option" where
  "syserr_main os buf tbuf w = do {
     w \<leftarrow> ece391_fdputs os 1 (ascii ''Choose from tests 1-8. 0 to run all: '') w;
     (cnt, bs, w) \<leftarrow> os_read os 0 127 w;
     if cnt = -1 then map_option (Pair 2) (ece391_fdputs os 1 (ascii ''Can't read test #\<newline>'') w)
     else
       let select = uint (fill 0 bs buf ! 0) - 48
       in if select = 0 then do {
            (fail, w) \<leftarrow> run_all (syserr_tests os tbuf) (0, w);
            map_option (Pair fail) (ece391_fdputs os 1 (if fail \<noteq> 0 then ascii ''\<newline>Overall Tests: FAIL\<newline>''
              else ascii ''\<newline>Overall Tests: PASS\<newline>'') w)
          } else if 1 \<le> select \<and> select \<le> 8 then (syserr_tests os tbuf ! nat (select - 1)) w
          else map_option (Pair 0) (ece391_fdputs os 1 (ascii ''Invalid test number. Choose from tests 1-8 or 0'') w)
   }"

section \<open>The tests on the kernel\<close>

text \<open>A process that has opened nothing: only the two descriptors of the terminal work.\<close>

definition nothing_open :: "kstate \<Rightarrow> bool" where
  "nothing_open s \<longleftrightarrow> (let tab = file_descriptor_array (pcb_of (active_pid s) s)
     in fd_table_ok (pcb_of (active_pid s) s)
        \<and> (\<forall>i. 2 \<le> i \<and> i < MAX_NUM_FILES \<longrightarrow> file_ops (tab ! i) = Ops_null \<and> inode (tab ! i) = -1))"

definition same_process :: "kstate \<Rightarrow> kstate \<Rightarrow> bool" where
  "same_process s u \<longleftrightarrow> active_pid u = active_pid s \<and> pcbs u = pcbs s"

lemma same_process_nothing: "same_process s u \<Longrightarrow> nothing_open u = nothing_open s"
  by (simp add: same_process_def nothing_open_def pcb_of_def)

lemma active_pid_same: "proc_view u = proc_view s \<Longrightarrow> active_pid u = active_pid s"
  by (simp add: proc_view_def)

lemma write_same: "\<exists>r u. os_write (c_os A) fd bs s = Some (r, u) \<and> same_process s u"
proof -
  let ?s = "vstore_bytes A bs s" and ?n = "of_nat (length bs)"
  let ?w = "file_descriptor_table_write (active_pid ?s) (sint (of_int fd :: u32)) A ?n ?s"
  have "pcbs (snd ?w) = pcbs ?s" by (rule blocks.obs_write)
  moreover have "active_pid (snd ?w) = active_pid ?s" by (rule active_pid_same [OF proc.obs_write])
  moreover have "active_pid ?s = active_pid s" by (rule active_pid_same) simp
  ultimately have "same_process s (snd ?w)" by (simp add: same_process_def)
  then show ?thesis by (simp add: kernel_os_def int80_calls) (metis prod.collapse)
qed

lemma fdputs_same: "\<exists>u. ece391_fdputs (c_os A) fd msg s = Some u \<and> same_process s u"
  using write_same [of A fd _ s] by (fastforce simp: ece391_fdputs_def)

text \<open>Calls that are refused: they answer -1 and leave the process alone.\<close>

definition refused :: "kstate \<Rightarrow> (kstate \<Rightarrow> (int \<times> kstate) option) \<Rightarrow> bool" where
  "refused s call \<longleftrightarrow> (\<forall>u. same_process s u \<longrightarrow> (\<exists>u'. call u = Some (-1, u') \<and> same_process s u'))"

lemma checks_refused:
  assumes "\<forall>c\<in>set cs. refused s (snd c)" and "same_process s u"
  shows "\<exists>u'. checks os cs (0, u) = Some (0, u') \<and> same_process s u'"
  using assms
proof (induction cs arbitrary: u)
  case (Cons c cs)
  then obtain v where v: "snd c u = Some (-1, v)" "same_process s v" by (auto simp: refused_def)
  then obtain u' where "checks os cs (0, v) = Some (0, u')" "same_process s u'" using Cons by auto
  then show ?case using v by (simp add: check_def)
qed simp

lemma run_test_refused:
  assumes "\<forall>c\<in>set cs. refused s (snd c)"
  shows "\<exists>u. run_test (c_os A) name cs s = Some (0, u) \<and> same_process s u"
proof -
  have "same_process s s" by (simp add: same_process_def)
  then obtain v where v: "checks (c_os A) cs (0, s) = Some (0, v)" "same_process s v"
    using checks_refused [OF assms] by blast
  obtain u where "ece391_fdputs (c_os A) 1 (name @ ascii '': PASS\<newline>'') v = Some u" "same_process v u"
    using fdputs_same by blast
  then show ?thesis using v by (simp add: run_test_def verdict_def same_process_def)
qed

lemma same_process_pcb: "same_process s u \<Longrightarrow> pcb_of (active_pid u) u = pcb_of (active_pid s) s"
  by (simp add: same_process_def pcb_of_def)

definition unreadable :: "kstate \<Rightarrow> int \<Rightarrow> bool" where
  "unreadable s fd \<longleftrightarrow> fd < 0 \<or> int MAX_NUM_FILES \<le> fd
     \<or> file_ops (file_descriptor_array (pcb_of (active_pid s) s) ! nat fd) \<in> {Ops_null, Ops_stdout}"

definition unwritable :: "kstate \<Rightarrow> int \<Rightarrow> bool" where
  "unwritable s fd \<longleftrightarrow> fd < 0 \<or> int MAX_NUM_FILES \<le> fd
     \<or> file_ops (file_descriptor_array (pcb_of (active_pid s) s) ! nat fd) \<in> {Ops_null, Ops_stdin}"

definition unclosable :: "kstate \<Rightarrow> int \<Rightarrow> bool" where
  "unclosable s fd \<longleftrightarrow> fd < 0 \<or> int MAX_NUM_FILES \<le> fd
     \<or> inode (file_descriptor_array (pcb_of (active_pid s) s) ! nat fd) = -1"

lemma read_refused:
  assumes "sint (of_int fd :: u32) = fd" and "unreadable s fd"
  shows "refused s (read_result (c_os A) fd)"
  unfolding refused_def
proof (intro allI impI)
  fix u
  assume sp: "same_process s u"
  have "file_descriptor_table_read [] (active_pid u) fd A 31 u = Some (-1, u)"
    using assms(2) same_process_pcb [OF sp] by (auto simp: unreadable_def file_descriptor_table_read_def Let_def)
  then show "\<exists>u'. read_result (c_os A) fd u = Some (-1, u') \<and> same_process s u'"
    using sp assms(1) by (simp add: read_result_def kernel_os_def int80_calls)
qed

lemma write_refused:
  assumes "sint (of_int fd :: u32) = fd" and "unwritable s fd"
  shows "refused s (os_write (c_os A) fd bs)"
  unfolding refused_def
proof (intro allI impI)
  fix u
  assume sp: "same_process s u"
  let ?u = "vstore_bytes A bs u"
  have "active_pid ?u = active_pid u" by (rule active_pid_same) simp
  then have sp': "same_process s ?u" using sp by (simp add: same_process_def)
  have "file_descriptor_table_write (active_pid ?u) fd A (of_nat (length bs)) ?u = (-1, ?u)"
    using assms(2) same_process_pcb [OF sp'] by (auto simp: unwritable_def file_descriptor_table_write_def Let_def)
  then show "\<exists>u'. os_write (c_os A) fd bs u = Some (-1, u') \<and> same_process s u'"
    using sp' assms(1) by (simp add: kernel_os_def int80_calls)
qed

lemma close_refused:
  assumes "sint (of_int fd :: u32) = fd" and "unclosable s fd"
  shows "refused s (os_close (c_os A) fd)"
  unfolding refused_def
proof (intro allI impI)
  fix u
  assume sp: "same_process s u"
  let ?p = "pcb_of (active_pid u) u"
  have c: "file_descriptor_table_close fd ?p = (-1, ?p)"
    using assms(2) same_process_pcb [OF sp] by (auto simp: unclosable_def file_descriptor_table_close_def file_close_def Let_def)
  have "same_process s (upd_pcb (active_pid u) (\<lambda>_. ?p) u)"
    using sp by (simp add: same_process_def upd_pcb_def pcb_of_def)
  then show "\<exists>u'. os_close (c_os A) fd u = Some (-1, u') \<and> same_process s u'"
    using c assms(1) by (simp add: kernel_os_def int80_calls)
qed

lemma vidmap_refused: "p < VIRTUAL_128MB_START \<Longrightarrow> refused s (os_vidmap (c_os A) p)"
  by (auto simp: refused_def kernel_os_def int80_def syscall_dispatch_def syscall_vidmap_def Let_def)

lemma number_refused: "sint n < 1 \<or> 10 < sint n \<Longrightarrow> refused s (os_number (c_os A) n)"
  by (auto simp: refused_def kernel_os_def int80_def syscall_dispatch_def)

lemma bad_fds: "sint (of_int NEG_FD :: u32) = NEG_FD" "sint (of_int BIG_FD :: u32) = BIG_FD"
  "unreadable s NEG_FD" "unreadable s BIG_FD" "unwritable s NEG_FD" "unwritable s BIG_FD" "unclosable s NEG_FD" "unclosable s BIG_FD"
  by (simp_all add: NEG_FD_def BIG_FD_def unreadable_def unwritable_def unclosable_def MAX_NUM_FILES_def)

lemma small_fd: "i < 8 \<Longrightarrow> sint (of_int (int i) :: u32) = int i"
  using sint_small_nat [of i] by simp

lemma nothing_open_fds:
  assumes "nothing_open s"
  shows "i < 8 \<Longrightarrow> unclosable s (int i)" and "2 \<le> i \<Longrightarrow> i < 8 \<Longrightarrow> unreadable s (int i)"
    and "2 \<le> i \<Longrightarrow> i < 8 \<Longrightarrow> unwritable s (int i)" and "unwritable s 0" and "unreadable s 1"
proof -
  let ?tab = "file_descriptor_array (pcb_of (active_pid s) s)"
  have o: "file_ops (?tab ! i) = Ops_null \<and> inode (?tab ! i) = -1" if "2 \<le> i" "i < 8" for i
    using assms that by (simp add: nothing_open_def Let_def MAX_NUM_FILES_def)
  have t: "file_ops (?tab ! 0) = Ops_stdin" "inode (?tab ! 0) = -1" "file_ops (?tab ! 1) = Ops_stdout" "inode (?tab ! 1) = -1"
    using assms by (simp_all add: nothing_open_def fd_table_ok_def Let_def)
  show "unclosable s (int i)" if "i < 8"
  proof -
    have "i = 0 \<or> i = 1 \<or> 2 \<le> i" by linarith
    then show ?thesis using that o t by (auto simp: unclosable_def)
  qed
  show "2 \<le> i \<Longrightarrow> i < 8 \<Longrightarrow> unreadable s (int i)" "2 \<le> i \<Longrightarrow> i < 8 \<Longrightarrow> unwritable s (int i)"
    using o by (simp_all add: unreadable_def unwritable_def)
  show "unwritable s 0" "unreadable s 1" using t by (simp_all add: unreadable_def unwritable_def)
qed

section \<open>The tests through the stub\<close>

text \<open>Through the stub as it is written no test comes to its verdict: that is printed with a write, which is lost.\<close>

lemma run_test_lost:
  assumes "through_stub back" and "0 \<notin> set name" and "length name < 28" "length name \<noteq> 9"
  shows "run_test (kernel_os back junk A) name cs s = None"
proof -
  have "ece391_fdputs (kernel_os back junk A) 1 (name @ (if b then ascii '': FAIL\<newline>'' else ascii '': PASS\<newline>'')) w = None" for b w
    by (rule stub_loses_message [OF assms(1)]) (use assms(2-4) in \<open>simp_all add: ascii_def\<close>)
  then have "verdict (kernel_os back junk A) name st = None" for st by (cases st) (simp add: verdict_def)
  then show ?thesis by (cases "checks (kernel_os back junk A) cs (0, s)") (simp_all add: run_test_def)
qed

lemma open_lots_lost:
  assumes "through_stub back"
  shows "err_open_lots (kernel_os back junk A) s = None"
proof -
  have "ece391_fdputs (kernel_os back junk A) 1 (ascii ''err_open_lots: PASS\<newline>'') w = None"
    "ece391_fdputs (kernel_os back junk A) 1 (ascii ''err_open_lots: FAIL\<newline>'') w = None" for w
    by (rule stub_loses_message [OF assms]; simp add: ascii_def)+
  then show ?thesis
    by (cases "open_lots (kernel_os back junk A) 7 (0, s)") (auto simp: err_open_lots_def Option.bind_eq_None_conv)
qed

lemma syserr_lost:
  assumes "through_stub back"
  shows "list_all (\<lambda>test. test s = None) (syserr_tests (kernel_os back junk A) buf)"
    and "syserr_main (kernel_os back junk A) buf tbuf s = None"
proof -
  note lost = run_test_lost [OF assms, of _ junk A]
  show "list_all (\<lambda>test. test s = None) (syserr_tests (kernel_os back junk A) buf)"
    by (simp add: syserr_tests_def open_lots_lost [OF assms] err_neg_fd_def err_big_fd_def err_open_def err_unopened_def
        err_vidmap_def err_stdin_out_def err_syscall_num_def lost ascii_def del: upt_rec_numeral)
  let ?m = "ascii ''Choose from tests 1-8. 0 to run all: ''"
  have "length (take (ece391_strlen ?m) ?m) = 37" by (simp add: ascii_def)
  then have "ece391_fdputs (kernel_os back junk A) 1 ?m s = None"
    using stub_loses_transfers(2) [OF assms, of "take (ece391_strlen ?m) ?m" junk A 1 s] by (simp add: ece391_fdputs_def)
  then show "syserr_main (kernel_os back junk A) buf tbuf s = None" by (simp add: syserr_main_def)
qed

section \<open>Properties\<close>

text \<open>C25: The kernel's C code answers bad system calls with errors, as the test program \<open>syserr\<close> demands, and its assembly stub loses the answers. With the answers of the C functions behind the system calls (and the -1 that the stub puts into \<open>eax\<close> for an unknown number), in a process that has opened no file, the tests for negative and too large descriptors, for unopened descriptors, for bad pointers to \<open>vidmap\<close>, for writing to the input and reading from the output, and for unknown system call numbers all complete and report no failure. But when the calls have to come back through the stub of \<^verbatim>\<open>syscallWrapper.S\<close>, none of the eight tests ever completes, and the program does not get past its first message.\<close>

theorem syserr_tests_pass:
  assumes "nothing_open s"
  shows "list_all (\<lambda>test. \<exists>u. test s = Some (0, u) \<and> same_process s u)
      [err_neg_fd (c_os A) buf, err_big_fd (c_os A) buf, err_unopened (c_os A) buf, err_vidmap (c_os A),
       err_stdin_out (c_os A) buf, err_syscall_num (c_os A)]
    \<and> (\<forall>back junk. through_stub back \<longrightarrow>
        list_all (\<lambda>test. test s = None) (syserr_tests (kernel_os back junk A) buf)
        \<and> syserr_main (kernel_os back junk A) buf tbuf s = None)"
proof -
  note fds = nothing_open_fds [OF assms] and s1 = small_fd [of 0] small_fd [of 1]
  have vm: "(0 :: addr) < VIRTUAL_128MB_START" "0x400000 < VIRTUAL_128MB_START" by (simp_all add: VIRTUAL_128MB_START_def)
  have "\<exists>u. err_neg_fd (c_os A) buf s = Some (0, u) \<and> same_process s u"
    unfolding err_neg_fd_def by (rule run_test_refused) (simp add: read_refused write_refused close_refused bad_fds)
  moreover have "\<exists>u. err_big_fd (c_os A) buf s = Some (0, u) \<and> same_process s u"
    unfolding err_big_fd_def by (rule run_test_refused) (simp add: read_refused write_refused close_refused bad_fds)
  moreover have "\<exists>u. err_unopened (c_os A) buf s = Some (0, u) \<and> same_process s u"
    unfolding err_unopened_def
    by (rule run_test_refused)
      (auto simp del: upt_rec_numeral intro!: read_refused write_refused close_refused small_fd fds)
  moreover have "\<exists>u. err_vidmap (c_os A) s = Some (0, u) \<and> same_process s u"
    unfolding err_vidmap_def by (rule run_test_refused) (simp add: vidmap_refused vm)
  moreover have "\<exists>u. err_stdin_out (c_os A) buf s = Some (0, u) \<and> same_process s u"
    unfolding err_stdin_out_def by (rule run_test_refused) (use fds(4,5) s1 in \<open>simp add: read_refused write_refused\<close>)
  moreover have "\<exists>u. err_syscall_num (c_os A) s = Some (0, u) \<and> same_process s u"
    unfolding err_syscall_num_def by (rule run_test_refused) (simp add: number_refused)
  ultimately show ?thesis using syserr_lost by simp
qed

theorem syserr_tests_pass_witness:
  "(\<exists>u. err_unopened (c_os 0x08048000) [] sample_booted = Some (0, u))
   \<and> syserr_main (kernel_os (lucky_call 0x08048010) (\<lambda>_. 0) 0x08048000) [] [] sample_booted = None"
proof -
  have "pcb_of p sample_booted = snd (file_descriptor_table_init empty_pcb)
      \<lparr>pcb_terminal := pcb_terminal (pcb_of p sample_booted)\<rparr>" for p
    by (simp add: sample_booted_def pcb_of_def)
  then have "file_descriptor_array (pcb_of p sample_booted) = map init_fd [0..<8]" for p
    by (simp add: sample_booted_def pcb_of_def file_descriptor_table_init_def MAX_NUM_FILES_def)
  then have "nothing_open sample_booted"
    by (auto simp: nothing_open_def fd_table_ok_def Let_def MAX_NUM_FILES_def init_fd_def simp del: upt_rec_numeral)
  from syserr_tests_pass [OF this, of "0x08048000" "[]" "[]"] show ?thesis using lucky_calls_come_back by auto
qed

end
