(* ===== verification/Command_Line.thy ===== *)
theory Command_Line
  imports Kernel_Memory
begin

text \<open>
  The command line of \<open>execute\<close>: the two loops that take the name of the program and its argument are shown equal
  to a specification by words (\<open>split_command\<close>), and the argument is shown to reach the program through \<open>getargs\<close>.
\<close>

section \<open>Parsing\<close>

text \<open>The first word of a text, and what follows it.\<close>

definition first_word :: "byte list \<Rightarrow> byte list" where
  "first_word xs = takeWhile (\<lambda>b. b \<noteq> blank) (dropWhile (\<lambda>b. b = blank) xs)"

definition after_word :: "byte list \<Rightarrow> byte list" where
  "after_word xs = dropWhile (\<lambda>b. b \<noteq> blank) (dropWhile (\<lambda>b. b = blank) xs)"

definition split_command :: "byte list \<Rightarrow> byte list \<times> byte list" where
  "split_command xs = (first_word xs, first_word (after_word xs))"

lemma parse_word_rest:
  assumes c: "cstr cmd xs" and i: "i \<le> length xs"
  shows "parse_word cmd (Suc (length xs)) i True acc
    = (acc @ takeWhile (\<lambda>b. b \<noteq> blank) (drop i xs) @ [0],
       length xs - length (dropWhile (\<lambda>b. b \<noteq> blank) (drop i xs)))"
  using i
proof (induction "length xs - i" arbitrary: i acc)
  case 0
  then have "i = length xs" by simp
  moreover have "cmd (of_nat (length xs)) = 0" using c by (simp add: cstr_def)
  ultimately show ?case by (subst parse_word.simps) simp
next
  case (Suc n)
  then have lt: "i < length xs" by simp
  then have x: "cmd (of_nat i) = xs ! i" "xs ! i \<noteq> 0" using cstr_nth [OF c] by auto
  have d: "drop i xs = xs ! i # drop (Suc i) xs" using lt by (simp add: Cons_nth_drop_Suc)
  show ?case
  proof (cases "xs ! i = blank")
    case True
    then show ?thesis using lt x by (subst parse_word.simps) (simp add: d)
  next
    case False
    then have "parse_word cmd (Suc (length xs)) i True acc = parse_word cmd (Suc (length xs)) (Suc i) True (acc @ [xs ! i])"
      using lt x by (subst parse_word.simps) simp
    also have "\<dots> = (acc @ [xs ! i] @ takeWhile (\<lambda>b. b \<noteq> blank) (drop (Suc i) xs) @ [0],
        length xs - length (dropWhile (\<lambda>b. b \<noteq> blank) (drop (Suc i) xs)))"
      using Suc.hyps(1) [of "Suc i" "acc @ [xs ! i]"] Suc.hyps(2) lt by simp
    finally show ?thesis using False by (simp add: d)
  qed
qed

lemma parse_word_first:
  assumes c: "cstr cmd xs" and i: "i \<le> length xs"
  shows "parse_word cmd (Suc (length xs)) i False acc
    = (acc @ first_word (drop i xs) @ [0], length xs - length (after_word (drop i xs)))"
  using i
proof (induction "length xs - i" arbitrary: i)
  case 0
  then have "i = length xs" by simp
  moreover have "cmd (of_nat (length xs)) = 0" using c by (simp add: cstr_def)
  ultimately show ?case by (subst parse_word.simps) (simp add: first_word_def after_word_def)
next
  case (Suc n)
  then have lt: "i < length xs" by simp
  then have x: "cmd (of_nat i) = xs ! i" "xs ! i \<noteq> 0" using cstr_nth [OF c] by auto
  have d: "drop i xs = xs ! i # drop (Suc i) xs" using lt by (simp add: Cons_nth_drop_Suc)
  show ?case
  proof (cases "xs ! i = blank")
    case True
    then have "parse_word cmd (Suc (length xs)) i False acc = parse_word cmd (Suc (length xs)) (Suc i) False acc"
      using lt x by (subst parse_word.simps) simp
    then show ?thesis
      using Suc.hyps(1) [of "Suc i"] Suc.hyps(2) lt True by (simp add: d first_word_def after_word_def)
  next
    case False
    then have "parse_word cmd (Suc (length xs)) i False acc = parse_word cmd (Suc (length xs)) (Suc i) True (acc @ [xs ! i])"
      using lt x by (subst parse_word.simps) simp
    then show ?thesis
      using parse_word_rest [OF c, of "Suc i"] lt False by (simp add: d first_word_def after_word_def)
  qed
qed

lemma after_word_suffix: "\<exists>p. xs = p @ after_word xs"
  unfolding after_word_def by (metis append_assoc takeWhile_dropWhile_id)

lemma parse_command:
  assumes c: "cstr cmd xs"
  shows "parse_word cmd (Suc (length xs)) 0 False [] = (first_word xs @ [0], length xs - length (after_word xs))"
    and "fst (parse_word cmd (Suc (length xs)) (length xs - length (after_word xs)) False [])
      = first_word (after_word xs) @ [0]"
proof -
  show "parse_word cmd (Suc (length xs)) 0 False [] = (first_word xs @ [0], length xs - length (after_word xs))"
    using parse_word_first [OF c, of 0 "[]"] by simp
  obtain p where p: "xs = p @ after_word xs" using after_word_suffix by blast
  have "drop (length xs - length (after_word xs)) xs = after_word xs"
    by (subst (2) p) (use arg_cong [OF p, of length] in simp)
  then show "fst (parse_word cmd (Suc (length xs)) (length xs - length (after_word xs)) False [])
      = first_word (after_word xs) @ [0]"
    using parse_word_first [OF c, of "length xs - length (after_word xs)" "[]"] by simp
qed

lemma first_word_nonzero: "0 \<notin> set xs \<Longrightarrow> 0 \<notin> set (first_word xs)"
  unfolding first_word_def by (metis set_dropWhileD set_takeWhileD)

section \<open>From the command line to the program\<close>

interpretation args_flag: kernel_view argument_exist
  by unfold_locales simp_all

lemma view_args [simp]:
  "view (s\<lparr>argument_exist := x\<rparr>) = view s" "view (s\<lparr>arg_buf := b\<rparr>) = view s"
  by (simp_all add: view_def vload_def fun_eq_iff split: option.split)

lemma launched_args:
  "argument_exist (launched fd pid esp ebp s) = argument_exist s"
  "pcb_arg_buf (pcb_of pid (launched fd pid esp ebp s)) = arg_buf s"
proof -
  show "argument_exist (launched fd pid esp ebp s) = argument_exist s"
    by (simp add: launched_def Let_def) (simp add: paging_execute_def)
  obtain u where "arg_buf u = arg_buf s" "pcbs (launched fd pid esp ebp s)
     = pcbs (upd_pcb (active_pid s) (\<lambda>p. p\<lparr>current_esp := esp, current_ebp := ebp\<rparr>) (upd_pcb pid (new_pcb pid u) s))"
    using launched_frame(1) [of s fd pid esp ebp] by blast
  then show "pcb_arg_buf (pcb_of pid (launched fd pid esp ebp s)) = arg_buf s"
    by (simp add: pcb_of_def upd_pcb_def new_pcb_def)
qed

text \<open>The argument as \<open>execute\<close> leaves it in the array of 33 bytes.\<close>

definition arg_array :: "byte list \<Rightarrow> byte list" where
  "arg_array arg = (arg @ [0]) @ replicate (MAX_ARG_LENGTH - length (arg @ [0])) 0"

lemma syscall_execute_start:
  assumes c: "cstr (at (view s) command) xs" and len: "length xs \<le> 36"
    and sp: "split_command xs = (name, arg)" "length name \<le> 32" "length arg \<le> 32"
    and n: "process_count s \<noteq> MAX_NUM_PROCESSES"
    and d: "read_dentry_by_name (view s) (boot_block_pointer s) (Some (cptr_of (name @ [0]))) = Some (Some d)"
      "filetype d = TYPE_FILE"
    and x: "is_executable (view s) (boot_block_pointer s) (inode_num d) junk"
  shows "syscall_execute command esp ebp junk s = start_process (inode_num d) esp ebp
    (s\<lparr>argument_exist := (if arg = [] then 0 else 1), arg_buf := arg_array arg\<rparr>)"
proof -
  have words: "first_word xs = name" "first_word (after_word xs) = arg" using sp(1) by (simp_all add: split_command_def)
  have sl: "strlen (at (view s) command) = Some (of_nat (length xs))" by (rule strlen_cstr [OF c])
  have "sint (of_nat (length xs) :: u32) = int (length xs)" by (rule sint_small_nat) (use len in simp)
  then have l: "sint (of_nat (length xs) :: u32) + 1 = int (Suc (length xs))" by simp
  note pc = parse_command [OF c, unfolded words]
  obtain e where e: "parse_word (at (view s) command) (Suc (length xs)) (length xs - length (after_word xs)) False [] = (arg @ [0], e)"
    using pc(2) by (cases "parse_word (at (view s) command) (Suc (length xs)) (length xs - length (after_word xs)) False []") simp
  have "set (after_word xs) \<subseteq> set xs" using after_word_suffix [of xs] by (metis set_append sup_ge2)
  then have "0 \<notin> set (after_word xs)" using c by (auto simp: cstr_def)
  then have nz: "0 \<notin> set arg" using first_word_nonzero [of "after_word xs"] words(2) by simp
  have flag: "list_ex (\<lambda>b. b \<noteq> 0) arg \<longleftrightarrow> arg \<noteq> []"
    using nz by (cases arg) auto
  have bbp: "boot_block_pointer s \<noteq> 0" using d(1) by (auto simp: read_dentry_by_name_def)
  have swap: "s\<lparr>argument_exist := 0, arg_buf := b, argument_exist := y\<rparr> = s\<lparr>argument_exist := y, arg_buf := b\<rparr>" for b y
    by (cases s) simp
  show ?thesis
    using n len sp(2,3) d x bbp unfolding syscall_execute_def Let_def
    by (simp add: sl l pc(1) e flag file_open_def swap arg_array_def MAX_ARG_LENGTH_def del: of_nat_Suc)
qed

section \<open>Properties\<close>


text \<open>A small disk at \<open>0x450000\<close>: one executable file \<open>a\<close>; the shell of terminal 1 runs and its memory holds the command \<open>a b\<close>.\<close>

definition elf_image :: mem where
  "elf_image = (\<lambda>_. 0)(0x450000 := 1, 0x450004 := 2, 0x450008 := 1, 0x450040 := 97, 0x450060 := 2,
     0x450064 := 1, 0x452000 := 5, 0x453000 := 0x7f, 0x453001 := 0x45, 0x453002 := 0x4c, 0x453003 := 0x46,
     0xC48000 := 97, 0xC48001 := 32, 0xC48002 := 98)"

definition sample_shell :: kstate where
  "sample_shell = (activate Terminal_1 1 sample_booted)
     \<lparr>pmem := (\<lambda>f off. elf_image (push_bit 12 (ucast f) OR ucast off)), boot_block_pointer := 0x450000\<rparr>"

lemma sample_shell_refines: "refines (spec_boot\<lparr>sp_started := (\<lambda>_. False)(Terminal_1 := True)\<rparr>) sample_shell"
proof -
  have "proc_view sample_shell = proc_view (activate Terminal_1 (hd (sp_chain spec_boot Terminal_1)) sample_booted)"
    by (simp add: sample_shell_def sp_chain_def spec_boot_def root_pid_def) (simp add: proc_view_def)
  from refines_activate [OF sample_booted_refines this] show ?thesis by (simp add: spec_boot_def)
qed

lemma sample_shell_view:
  "dir_index va = 1 \<Longrightarrow> view sample_shell va
     = elf_image (push_bit 12 (ucast (0x400 + (frame_of va AND 0x003FF))) OR ucast (ucast va :: 12 word))"
  "dir_index va = 32 \<Longrightarrow> view sample_shell va
     = elf_image (push_bit 12 (ucast (0xC00 + (frame_of va AND 0x003FF))) OR ucast (ucast va :: 12 word))"
proof -
  have pg: "pages sample_shell = set_user_page (0x00400 + 0x00400 + 1 * 0x00400) (page_initialize (static_tables 0x401000 0x402000))"
    by (simp add: sample_shell_def activate_def sample_booted_def ready_state_def)
  have wf: "wf_pages (pages sample_shell)" unfolding pg by (rule wf_set_user_page [OF sample_tables_wf]) simp
  show "dir_index va = 1 \<Longrightarrow> view sample_shell va
      = elf_image (push_bit 12 (ucast (0x400 + (frame_of va AND 0x003FF))) OR ucast (ucast va :: 12 word))"
    using xlate_kernel(1) [OF wf] by (simp add: view_def vload_def) (simp add: sample_shell_def)
  assume d: "dir_index va = 32"
  have en: "paging_enabled (pages sample_shell)" using wf by (simp add: wf_pages_def)
  have "page_dir (pages sample_shell) 32 = user_pde 0xC00" by (simp add: pg set_user_page_def)
  moreover have "(0xC00 AND 0xFFC00) OR (frame_of va AND 0x003FF) = 0xC00 + (frame_of va AND 0x003FF)"
    by (rule large_frame) simp_all
  ultimately have "xlate False (pages sample_shell) va = Some (0xC00 + (frame_of va AND 0x003FF), ucast va)"
    using en d by (simp add: xlate_def user_pde_def)
  then show "view sample_shell va
      = elf_image (push_bit 12 (ucast (0xC00 + (frame_of va AND 0x003FF))) OR ucast (ucast va :: 12 word))"
    by (simp add: view_def vload_def) (simp add: sample_shell_def)
qed

lemma sample_command: "cstr (at (view sample_shell) 0x08048000) [97, 32, 98]"
proof -
  have "view sample_shell 0x08048000 = 97" "view sample_shell 0x08048001 = 32" "view sample_shell 0x08048002 = 98"
    "view sample_shell 0x08048003 = 0"
    by (simp_all add: sample_shell_view dir_index_def frame_of_def elf_image_def)
  then show ?thesis by (simp add: cstr_def at_def less_Suc_eq)
qed

lemma sample_program:
  "read_dentry_by_name (view sample_shell) 0x450000 (Some (cptr_of [97, 0])) = Some (Some (direntries (view sample_shell) 0x450000 0))"
  "filetype (direntries (view sample_shell) 0x450000 0) = TYPE_FILE"
  "inode_num (direntries (view sample_shell) 0x450000 0) = 1"
proof -
  let ?M = "view sample_shell"
  have m: "?M 0x450040 = 97" "?M 0x450041 = 0" "?M 0x450060 = 2" "?M 0x450061 = 0" "?M 0x450062 = 0" "?M 0x450063 = 0"
    "?M 0x450064 = 1" "?M 0x450065 = 0" "?M 0x450066 = 0" "?M 0x450067 = 0"
    by (simp_all add: sample_shell_view dir_index_def frame_of_def elf_image_def)
  have n: "cstr (cptr_of [97, 0]) [97]" by (simp add: cstr_def cptr_of_def)
  have e: "cstr (at ?M 0x450040) [97]" using m by (simp add: cstr_def at_def)
  have "strncmp (cptr_of [97, 0]) (at ?M 0x450040) 1 = 0"
    unfolding strncmp_def using m by (subst strncmp_loop.simps, subst strncmp_loop.simps) (simp add: cptr_of_def at_def)
  moreover have "[0..<MAX_DIRECTORY_NUMBER] = 0 # [1..<MAX_DIRECTORY_NUMBER]"
    by (simp add: MAX_DIRECTORY_NUMBER_def upt_conv_Cons)
  ultimately show "read_dentry_by_name ?M 0x450000 (Some (cptr_of [97, 0])) = Some (Some (direntries ?M 0x450000 0))"
    unfolding read_dentry_by_name_def
    by (simp add: strlen_cstr [OF n] direntry_addr_def strlen_cstr [OF e] FILENAME_LEN_def)
  show "filetype (direntries ?M 0x450000 0) = TYPE_FILE" "inode_num (direntries ?M 0x450000 0) = 1"
    using m by (simp_all add: direntries_def direntry_addr_def load32_def TYPE_FILE_def Let_def)
qed

lemma sample_executable: "is_executable (view sample_shell) 0x450000 1 [0, 0, 0, 0]"
proof -
  let ?M = "view sample_shell"
  have m: "?M 0x450004 = 2" "?M 0x450005 = 0" "?M 0x450006 = 0" "?M 0x450007 = 0"
    "?M 0x452000 = 5" "?M 0x452001 = 0" "?M 0x452002 = 0" "?M 0x452003 = 0"
    "?M 0x452004 = 0" "?M 0x452005 = 0" "?M 0x452006 = 0" "?M 0x452007 = 0"
    "?M 0x453000 = 0x7f" "?M 0x453001 = 0x45" "?M 0x453002 = 0x4c" "?M 0x453003 = 0x46"
    by (simp_all add: sample_shell_view dir_index_def frame_of_def elf_image_def)
  have v: "valid_inode ?M 0x450000 1" "i_node_length ?M 0x450000 1 = 5"
    using m by (simp_all add: valid_inode_def inode_count_def i_node_length_def i_node_addr_def load32_def BLOCK_SIZE_def)
  have "file_byte ?M 0x450000 1 k = [0x7f, 0x45, 0x4c, 0x46] ! k" if "k < 4" for k
  proof -
    have "k = 0 \<or> k = 1 \<or> k = 2 \<or> k = 3" using that by auto
    then show ?thesis
      using m by (auto simp: file_byte_def data_block_addr_def data_block_num_def inode_count_def i_node_addr_def
          load32_def BLOCK_SIZE_def)
  qed
  then have "take 4 (file_content ?M 0x450000 1) = [0x7f, 0x45, 0x4c, 0x46]"
    by (simp add: file_content_def v(2) take_map upt_rec)
  then have "read_data ?M 0x450000 1 0 1 4 = (4, [0x7f, 0x45, 0x4c, 0x46])"
    using read_data_valid [OF v(1), of 1 0 4] by (simp add: Let_def)
  then show ?thesis by (simp add: is_executable_def elf_magic_def)
qed


end
