(* ===== verification/User_Ls.thy ===== *)
theory User_Ls
  imports User_Kernel Command_Line
begin

text \<open>
  The user program \<open>ls\<close> on the kernel, from its system calls to the screen: opening the directory, reading one
  entry per call and writing it to the terminal.
\<close>

section \<open>Storing into a program's memory\<close>

lemma vstore_bytes_fields [simp]:
  "terminals (vstore_bytes a bs s) = terminals s" "active_terminal (vstore_bytes a bs s) = active_terminal s"
  "active_pid (vstore_bytes a bs s) = active_pid s" "screen_view (vstore_bytes a bs s) = screen_view s"
  "low_frame base (vstore_bytes a bs s) = low_frame base s"
proof -
  show "terminals (vstore_bytes a bs s) = terminals s" "active_terminal (vstore_bytes a bs s) = active_terminal s"
    by (induction bs arbitrary: a s) simp_all
  show "active_pid (vstore_bytes a bs s) = active_pid s" using proc.obs_vstore_bytes [of a bs s] by (simp add: proc_view_def)
qed (simp_all add: low_frame_def)

lemma pmem_vstore_bytes:
  assumes "program_page s" and "program_range a (length bs)" and "unat f < 0x800"
  shows "pmem (vstore_bytes a bs s) f = pmem s f"
  using assms
proof (induction bs arbitrary: a s)
  case (Cons b bs)
  have d: "dir_index a = 32" using program_range_dir [OF Cons.prems(2), of 0] by simp
  obtain p where p: "p \<le> 6" and x: "xlate False (pages s) a = Some (0x800 + p * 0x400 + (frame_of a AND 0x003FF), ucast a)"
    using xlate_program [OF Cons.prems(1)] d by blast
  have "f \<noteq> 0x800 + p * 0x400 + (frame_of a AND 0x003FF)" using pid_frame(2) [OF p, of "frame_of a"] Cons.prems(3) by auto
  then have 1: "pmem (vstore a b s) f = pmem s f" using x by (simp add: vstore_def)
  have "unat (a + 1) = unat a + 1" using Cons.prems(2) by (simp add: program_range_def unat_word_ariths)
  then have "program_range (a + 1) (length bs)" using Cons.prems(2) by (simp add: program_range_def)
  then show ?case using Cons 1 program_page_pages [of "vstore a b s" s] by simp
qed simp

text \<open>Everything but the memory of programs: what storing there and reading from it do not change.\<close>

lemma store_shows:
  assumes "keyboard_ok s" and "program_page s" and "program_range a (length bs)"
  shows "console_shows [] s (vstore_bytes a bs s)"
proof -
  have "low_frame VIDEO s \<in> video_frames" using assms(1) by (intro video_targets) (simp add: keyboard_ok_def)
  then have f: "unat (low_frame VIDEO s) < 0x800" by (auto simp: video_frames_def)
  have "console_of (active_terminal s) (low_frame VIDEO s) (vstore_bytes a bs s)
      = console_of (active_terminal s) (low_frame VIDEO s) s"
    using pmem_vstore_bytes [OF assms(2,3) f] by (simp add: console_of_def)
  moreover have "kernel_memory (vstore_bytes a bs s) = kernel_memory s"
    using assms(2,3) by (intro kernel_memory_vstore_bytes) (auto simp: program_page_def program_range_def user_range_def)
  moreover have "keyboard_ok (vstore_bytes a bs s)"
    using keyboard_ok_view [of "vstore_bytes a bs s" s] assms(1) by simp
  moreover have "other_screens_kept s (vstore_bytes a bs s)"
    using pmem_vstore_bytes [OF assms(2,3)] by (auto simp: other_screens_kept_def video_frames_def)
  ultimately show ?thesis by (simp add: console_shows_def)
qed

text \<open>Nor does what a program's descriptor table says.\<close>

lemma console_shows_upd_pcb:
  assumes "console_shows bs s v"
  shows "console_shows bs s (upd_pcb p f v)"
  using assms keyboard_ok_view [of "upd_pcb p f v" v]
  by (simp add: console_shows_def console_of_def other_screens_kept_def)

lemma program_page_mapped:
  assumes "kernel_ok s" and "program_mapped s" and "active_pid s \<noteq> 0"
  shows "program_page s" and "fd_table_ok (pcb_of (active_pid s) s)"
proof -
  obtain a where r: "refines a s" "tables_ok a s" using assms(1) by (auto simp: kernel_ok_def)
  let ?t = "active_terminal s"
  have p: "active_pid s \<in> set (sp_chain a ?t)"
    using r(1) assms(3) by (auto simp: refines_def sp_running_def sp_chain_def hd_append split: if_splits)
  then show "fd_table_ok (pcb_of (active_pid s) s)" using r(2) by (auto simp: tables_ok_def)
  have "active_pid s \<le> 6" using chain_small(1) [OF _ p] r(1) by (simp add: refines_def)
  moreover have "wf_pages (pages s)" using assms(1) by (simp add: kernel_ok_def keyboard_ok_def video_ok_def)
  moreover have "dir_index VIRTUAL_ADDRESS_PROGRAM_START = 32" by (simp add: VIRTUAL_ADDRESS_PROGRAM_START_def dir_index_def)
  ultimately show "program_page s" using assms(2,3) by (auto simp: program_page_def program_mapped_def)
qed

lemma view_upd_pcb [simp]: "view (upd_pcb p f s) = view s"
  by (auto simp: view_def vload_def fun_eq_iff split: option.split)

section \<open>The directory\<close>

text \<open>
  What the disk has to provide: the name \<open>.\<close> stands for a directory, the count that \<open>dir_read\<close> checks is at least
  18, and the entries lie in the kernel's page. Every state with the same kernel memory sees the same disk.
\<close>

definition directory_disk :: "kstate \<Rightarrow> bool" where
  "directory_disk s \<longleftrightarrow> boot_block_pointer s \<noteq> NULL
     \<and> (\<forall>u. wf_pages (pages u) \<and> kernel_memory u = kernel_memory s \<and> boot_block_pointer u = boot_block_pointer s
          \<longrightarrow> 18 \<le> inode_count (view u) (boot_block_pointer s)
            \<and> (\<forall>name. cstr name (ascii ''.'') \<longrightarrow> (\<exists>d. read_dentry_by_name (view u) (boot_block_pointer s) (Some name) = Some (Some d)
                 \<and> filetype d = TYPE_DIRECTORY \<and> inode_num d \<noteq> -1)))
     \<and> (\<forall>i<18. \<forall>k<32. dir_index (direntry_addr (boot_block_pointer s) (of_nat i) + of_nat k) = 1)"

definition entry_name :: "kstate \<Rightarrow> nat \<Rightarrow> byte list" where
  "entry_name s i = load_bytes (view s) (direntry_addr (boot_block_pointer s) (of_nat i)) 32"

definition listing :: "kstate \<Rightarrow> nat \<Rightarrow> byte list" where
  "listing s n = concat (map (\<lambda>i. entry_name s i @ [10]) [0..<n])"

text \<open>The state after \<open>i\<close> entries have been printed; the directory is open as descriptor \<open>n\<close>.\<close>

definition ls_state :: "nat \<Rightarrow> u32 \<Rightarrow> kstate \<Rightarrow> nat \<Rightarrow> kstate \<Rightarrow> bool" where
  "ls_state n ino s i u \<longleftrightarrow> console_shows (listing s i) s u
     \<and> (let tab = file_descriptor_array (pcb_of (active_pid s) u)
        in length tab = 8 \<and> file_ops (tab ! 1) = Ops_stdout \<and> file_ops (tab ! n) = Ops_dir
           \<and> inode (tab ! n) = ino \<and> file_pos (tab ! n) = of_nat i)"

lemma entry_name_same:
  assumes "directory_disk s" and "wf_pages (pages s)" and "wf_pages (pages u)" and "kernel_memory u = kernel_memory s" and "i < 18"
  shows "load_bytes (view u) (direntry_addr (boot_block_pointer s) (of_nat i)) 32 = entry_name s i"
proof (rule nth_equalityI)
  fix k
  assume "k < length (load_bytes (view u) (direntry_addr (boot_block_pointer s) (of_nat i)) 32)"
  then have k: "k < 32" by simp
  then have d: "dir_index (direntry_addr (boot_block_pointer s) (of_nat i) + of_nat k) = 1"
    using assms(1,5) by (simp add: directory_disk_def)
  show "load_bytes (view u) (direntry_addr (boot_block_pointer s) (of_nat i)) 32 ! k = entry_name s i ! k"
    using k by (simp add: entry_name_def nth_load_bytes view_kernel [OF assms(2) d] view_kernel [OF assms(3) d] assms(4))
qed (simp add: entry_name_def)

text \<open>Reading one entry.\<close>

lemma ls_read:
  assumes disk: "directory_disk s" and pg: "program_page s" and A: "program_range A 40" and n: "n < 8" "n \<noteq> 1"
    and ino: "ino \<noteq> -1" and st: "ls_state n ino s i u" and i: "i < 18"
  shows "\<exists>v. os_read (c_os A) (int n) 32 u = Some (if i < 17 then 32 else 0, entry_name s i, v)
    \<and> console_shows (listing s i) s v \<and> (i < 17 \<longrightarrow> (let tab = file_descriptor_array (pcb_of (active_pid s) v)
        in length tab = 8 \<and> file_ops (tab ! 1) = Ops_stdout \<and> file_ops (tab ! n) = Ops_dir
           \<and> inode (tab ! n) = ino \<and> file_pos (tab ! n) = of_nat (Suc i)))"
proof -
  let ?p = "active_pid s" and ?bs = "entry_name s i"
  have sh: "console_shows (listing s i) s u" using st by (simp add: ls_state_def)
  then have u: "keyboard_ok u" "pages u = pages s" "kernel_memory u = kernel_memory s" "active_pid u = ?p"
      "boot_block_pointer u = boot_block_pointer s"
    by (simp_all add: console_shows_def)
  have wf: "wf_pages (pages s)" "wf_pages (pages u)" using pg u(2) by (simp_all add: program_page_def)
  have pu: "program_page u" using pg program_page_pages [OF u(2)] by simp
  have bs: "length ?bs = 32" "program_range A (length ?bs)"
    using A by (simp_all add: entry_name_def program_range_def)
  have tab: "length (file_descriptor_array (pcb_of ?p u)) = 8" "file_ops (file_descriptor_array (pcb_of ?p u) ! 1) = Ops_stdout"
      "file_ops (file_descriptor_array (pcb_of ?p u) ! n) = Ops_dir" "inode (file_descriptor_array (pcb_of ?p u) ! n) = ino"
      "file_pos (file_descriptor_array (pcb_of ?p u) ! n) = of_nat i"
    using st by (simp_all add: ls_state_def Let_def)
  have A0: "A \<noteq> NULL" using A by (auto simp: program_range_def)
  have cnt: "18 \<le> inode_count (view u) (boot_block_pointer s)" and b0: "boot_block_pointer s \<noteq> NULL"
    using disk wf(2) u(3,5) by (simp_all add: directory_disk_def)
  have ui: "unat (of_nat i :: u32) = i" using i by (simp add: unat_of_nat)
  then have lt: "\<not> inode_count (view u) (boot_block_pointer s) \<le> of_nat i"
    using cnt i by (simp add: word_le_nat_alt)
  have "unat (of_nat i + 1 :: u32) = Suc i" using i by (simp add: unat_word_ariths ui)
  then have e: "18 \<le> (of_nat i + 1 :: u32) \<longleftrightarrow> \<not> i < 17" by (simp add: word_le_nat_alt not_less)
  have rd: "dir_read (view u) (boot_block_pointer u) ino A 32 (of_nat i)
      = (if i < 17 then 32 else 0, ?bs, of_nat i + 1)"
    using ino A0 b0 lt entry_name_same [OF disk wf u(3) i]
    by (simp add: dir_read_def u(5) e)
  let ?v = "upd_pcb ?p (set_pos n (of_nat i + 1)) (vstore_bytes A ?bs u)"
  have "file_descriptor_table_read [] ?p (int n) A 32 u = Some (if i < 17 then 32 else 0, ?v)"
    using tab n rd by (simp add: file_descriptor_table_read_def MAX_NUM_FILES_def Let_def)
  moreover have "sint (of_int (int n) :: u32) = int n" using n sint_small_nat [of n] by simp
  moreover have "load_bytes (view ?v) A 32 = ?bs"
    using load_vstore_bytes [OF pu bs(2)] bs(1) by simp
  ultimately have r: "os_read (c_os A) (int n) 32 u = Some (if i < 17 then 32 else 0, ?bs, ?v)"
    by (simp add: kernel_os_def int80_calls u(4))
  have "console_shows [] u (vstore_bytes A ?bs u)" by (rule store_shows [OF u(1) pu bs(2)])
  from console_shows_trans [OF sh this] have "console_shows (listing s i) s (vstore_bytes A ?bs u)" by simp
  then have s2: "console_shows (listing s i) s ?v" by (rule console_shows_upd_pcb)
  have "pcb_of ?p (vstore_bytes A ?bs u) = pcb_of ?p u" by (simp add: pcb_of_def)
  then have "pcb_of ?p ?v = set_pos n (of_nat i + 1) (pcb_of ?p u)" by (simp add: pcb_of_upd_pcb)
  then have "let tab = file_descriptor_array (pcb_of ?p ?v)
        in length tab = 8 \<and> file_ops (tab ! 1) = Ops_stdout \<and> file_ops (tab ! n) = Ops_dir
           \<and> inode (tab ! n) = ino \<and> file_pos (tab ! n) = of_nat (Suc i)"
    using tab n by (simp add: set_pos_def Let_def nth_list_update ac_simps)
  then show ?thesis using r s2 by blast
qed

text \<open>Writing to the terminal.\<close>

lemma ls_write:
  assumes "console_shows cs s v" and pg: "program_page s" and A: "program_range A 40"
    and "length bs \<le> 40" "bs \<noteq> []" and "file_ops (file_descriptor_array (pcb_of (active_pid s) v) ! 1) = Ops_stdout"
  shows "\<exists>w. os_write (c_os A) 1 bs v = Some (int (length bs), w) \<and> console_shows (cs @ bs) s w
    \<and> pcb_of (active_pid s) w = pcb_of (active_pid s) v"
proof -
  have v: "keyboard_ok v" "pages v = pages s" "active_pid v = active_pid s" using assms(1) by (simp_all add: console_shows_def)
  have pv: "program_page v" using pg program_page_pages [OF v(2)] by simp
  have r: "program_range A (length bs)" using A assms(4) by (simp add: program_range_def)
  let ?x = "vstore_bytes A bs v"
  have 1: "console_shows [] v ?x" by (rule store_shows [OF v(1) pv r])
  then have x: "keyboard_ok ?x" "program_page ?x" using pv program_page_pages [of ?x v] by (simp_all add: console_shows_def)
  have tw: "terminal_write A (of_nat (length bs)) ?x = (int (length bs), fold putc bs ?x)"
    by (rule terminal_write_fold [OF x r load_vstore_bytes [OF pv r] assms(5)])
  have px: "pcb_of p ?x = pcb_of p v" for p by (simp add: pcb_of_def)
  have "file_descriptor_table_write (active_pid s) 1 A (of_nat (length bs)) ?x = (int (length bs), fold putc bs ?x)"
    using assms(6) tw px by (simp add: file_descriptor_table_write_def MAX_NUM_FILES_def Let_def)
  then have "os_write (c_os A) 1 bs v = Some (int (length bs), fold putc bs ?x)"
    by (simp add: kernel_os_def int80_calls v(3))
  moreover have "console_shows (cs @ bs) s (fold putc bs ?x)"
    using console_shows_trans [OF console_shows_trans [OF assms(1) 1] fold_putc_shows [OF x, THEN conjunct1]] by simp
  moreover have "pcb_of (active_pid s) (fold putc bs ?x) = pcb_of (active_pid s) v"
    using px by (simp add: pcb_of_def blocks.obs_fold)
  ultimately show ?thesis by blast
qed

lemma ls_loop_lists:
  assumes disk: "directory_disk s" and pg: "program_page s" and A: "program_range A 40" and n: "n < 8" "n \<noteq> 1"
    and ino: "ino \<noteq> -1"
  shows "ls_state n ino s i u \<Longrightarrow> i < 18 \<Longrightarrow> length buf = 33
    \<Longrightarrow> \<exists>w. ls_loop (c_os A) (int n) buf u = Some (0, w) \<and> console_shows (listing s 17) s w"
proof (induction "17 - i" arbitrary: i u buf)
  case 0
  then have i: "i = 17" by simp
  obtain v where "os_read (c_os A) (int n) 32 u = Some (0, entry_name s 17, v)" "console_shows (listing s 17) s v"
    using ls_read [OF disk pg A n ino 0(2,3)] i by auto
  then show ?case by (subst ls_loop.simps) (simp add: SBUFSIZE_def)
next
  case (Suc k)
  then have i: "i < 17" by simp
  let ?e = "entry_name s i"
  obtain v where r: "os_read (c_os A) (int n) 32 u = Some (32, ?e, v)" and sh: "console_shows (listing s i) s v"
    and tab: "let tab = file_descriptor_array (pcb_of (active_pid s) v)
        in length tab = 8 \<and> file_ops (tab ! 1) = Ops_stdout \<and> file_ops (tab ! n) = Ops_dir
           \<and> inode (tab ! n) = ino \<and> file_pos (tab ! n) = of_nat (Suc i)"
    using ls_read [OF disk pg A n ino Suc.prems(1,2)] i by auto
  have le: "length ?e = 32" by (simp add: entry_name_def)
  let ?buf = "(fill 0 ?e buf)[32 := 10]"
  have "length (drop 32 buf) = 1" using Suc.prems(3) by simp
  then obtain x where "drop 32 buf = [x]" by (metis One_nat_def length_0_conv length_Suc_conv)
  then have "?buf = ?e @ [10]" using le by (simp add: fill_def list_update_append)
  then have fl: "take 33 ?buf = ?e @ [10]" "length ?buf = 33" using le by simp_all
  obtain w where w: "os_write (c_os A) 1 (?e @ [10]) v = Some (33, w)" "console_shows (listing s i @ ?e @ [10]) s w"
      "pcb_of (active_pid s) w = pcb_of (active_pid s) v"
    using ls_write [OF sh pg A, of "?e @ [10]"] tab le by (auto simp: Let_def)
  have "listing s (Suc i) = listing s i @ ?e @ [10]" by (simp add: listing_def)
  then have "ls_state n ino s (Suc i) w" using w(2,3) tab by (simp add: ls_state_def)
  moreover have "k = 17 - Suc i" "Suc i < 18" using Suc.hyps(2) i by simp_all
  ultimately obtain x where x: "ls_loop (c_os A) (int n) ?buf w = Some (0, x)" "console_shows (listing s 17) s x"
    using Suc.hyps(1) [of "Suc i" w, OF _ _ _ fl(2)] by blast
  have "ls_loop (c_os A) (int n) buf u = ls_loop (c_os A) (int n) ?buf w"
    using r w(1) fl(1) by (subst ls_loop.simps) (simp add: SBUFSIZE_def Let_def)
  then show ?case using x by auto
qed

section \<open>Properties\<close>

text \<open>Through the stub as it is written, no run of \<open>ls\<close> ends: each of its reads and messages is lost.\<close>

lemma ls_through_stub:
  assumes "through_stub back"
  shows "ls_main (kernel_os back junk A) buf s = None"
proof -
  have "ls_loop (kernel_os back junk A) fd buf w = None" for fd w
    using stub_loses_transfers(1) [OF assms, of 32 junk A fd w] by (subst ls_loop.simps) (simp add: SBUFSIZE_def)
  moreover have "ece391_fdputs (kernel_os back junk A) 1 (ascii ''directory open failed\<newline>'') w = None" for w
    by (rule stub_loses_message [OF assms]) (simp_all add: ascii_def)
  ultimately show ?thesis
    by (cases "os_open (kernel_os back junk A) (ascii ''.'') s") (auto simp: ls_main_def)
qed

text \<open>C24: The kernel's C code serves \<open>ls\<close>, and its assembly stub does not. With the answers of the C functions behind the system calls, in a process of a well-formed kernel with a free descriptor, on a disk with a directory \<open>.\<close> and at least 18 inodes (the count that \<open>dir_read\<close> checks), the program ends with status 0 and has put on the console of its terminal the names of the directory entries 0 to 16 in order, each with its padding to 32 bytes and a newline, and nothing on any other screen or terminal: the entry with index 17, the last one the kernel hands out, is read but never shown, because \<open>dir_read\<close> already reports the end with it. But when the calls have to come back through the stub of \<^verbatim>\<open>syscallWrapper.S\<close>, the program never ends: its first read, at the latest, is lost on the way back.\<close>

theorem ls_prints_directory:
  assumes "kernel_ok s" and "program_mapped s" and "active_pid s \<noteq> 0" and "program_range A 40"
    and "free_fd (file_descriptor_array (pcb_of (active_pid s) s)) 2 < 8" and "directory_disk s" and "length buf = 33"
  shows "(\<exists>s'. ls_main (c_os A) buf s = Some (0, s')
      \<and> console_of (active_terminal s) (low_frame VIDEO s) s'
          = fold spec_putc (concat (map (\<lambda>i. entry_name s i @ [10]) [0..<17])) (console_of (active_terminal s) (low_frame VIDEO s) s)
      \<and> other_screens_kept s s' \<and> kernel_memory s' = kernel_memory s)
    \<and> (\<forall>back junk. through_stub back \<longrightarrow> ls_main (kernel_os back junk A) buf s = None)"
proof -
  let ?p = "active_pid s" and ?n = "free_fd (file_descriptor_array (pcb_of (active_pid s) s)) 2"
  note pg = program_page_mapped [OF assms(1-3)]
  have ok: "keyboard_ok s" and wf: "wf_pages (pages s)" using assms(1) pg(1) by (simp_all add: kernel_ok_def program_page_def)
  have n: "2 \<le> ?n" using free_fd_spec [of 2] by auto
  have r: "program_range A (length (ascii ''.'' @ [0]))" using assms(4) by (simp add: program_range_def ascii_def)
  let ?s = "vstore_bytes A (ascii ''.'' @ [0]) s"
  have sh: "console_shows [] s ?s" by (rule store_shows [OF ok pg(1) r])
  have "load_bytes (view ?s) A 2 = [46, 0]" using load_vstore_bytes [OF pg(1) r] by (simp add: ascii_def numeral_2_eq_2)
  then have v: "view ?s A = 46" "view ?s (A + 1) = 0" by (simp_all add: numeral_2_eq_2)
  have c: "cstr (at (view ?s) A) (ascii ''.'')" unfolding cstr_def at_def using v by (simp add: ascii_def)
  have "wf_pages (pages ?s)" "kernel_memory ?s = kernel_memory s" "boot_block_pointer ?s = boot_block_pointer s"
    using sh wf by (simp_all add: console_shows_def)
  then obtain d where d: "read_dentry_by_name (view ?s) (boot_block_pointer s) (Some (at (view ?s) A)) = Some (Some d)"
      "filetype d = TYPE_DIRECTORY" "inode_num d \<noteq> -1"
    using assms(6) c unfolding directory_disk_def by blast
  let ?pcb = "pcb_of ?p s"
  have ty: "known_type (filetype d)" "ops_of_type (filetype d) = Ops_dir"
    using d(2) by (simp_all add: known_type_def ops_of_type_def TYPE_DIRECTORY_def TYPE_FILE_def)
  let ?u = "upd_pcb ?p (\<lambda>_. ?pcb\<lparr>file_descriptor_array := (file_descriptor_array ?pcb)[?n := opened_fd d]\<rparr>) ?s"
  have A0: "A \<noteq> NULL" using assms(4) by (auto simp: program_range_def)
  have "pcb_of ?p ?s = ?pcb" by (simp add: pcb_of_def)
  then have op: "os_open (c_os A) (ascii ''.'') s = Some (int ?n, ?u)"
    using open_found [OF pg(2) refl assms(5) d(1) ty(1)] A0
    by (simp add: kernel_os_def int80_def syscall_dispatch_def syscall_open_def)
  have s2: "console_shows [] s ?u" by (rule console_shows_upd_pcb [OF sh])
  have "ls_state ?n (inode_num d) s 0 ?u"
    using s2 pg(2) n assms(5) ty(2)
    by (simp add: ls_state_def listing_def pcb_of_upd_pcb fd_table_ok_def Let_def MAX_NUM_FILES_def opened_fd_def)
  from ls_loop_lists [OF assms(6) pg(1) assms(4,5) _ d(3) this _ assms(7)] n obtain w where
    w: "ls_loop (c_os A) (int ?n) buf ?u = Some (0, w)" "console_shows (listing s 17) s w" by auto
  have "ls_main (c_os A) buf s = Some (0, w)" using op w(1) by (simp add: ls_main_def)
  then show ?thesis using w(2) ls_through_stub by (auto simp: console_shows_def listing_def)
qed

text \<open>A process on a disk whose only entry is the directory itself.\<close>

definition dot_image :: mem where
  "dot_image = (\<lambda>_. 0)(0x450000 := 1, 0x450004 := 18, 0x450040 := 46, 0x450060 := 1)"

definition sample_dir :: kstate where
  "sample_dir = sample_shell\<lparr>pmem := (\<lambda>f off. dot_image (push_bit 12 (ucast f) OR ucast off))\<rparr>"

lemma sample_dir_ok: "kernel_ok sample_dir" "program_mapped sample_dir" "active_pid sample_dir = 1"
  "free_fd (file_descriptor_array (pcb_of 1 sample_dir)) 2 = 2"
proof -
  let ?a = "spec_boot\<lparr>sp_started := (\<lambda>_. False)(Terminal_1 := True)\<rparr>"
  have "screen_view sample_dir = screen_view ready_state"
    by (simp add: sample_dir_def sample_shell_def activate_def sample_booted_def) (simp add: screen_view_def term_core_def fun_eq_iff)
  then have k: "keyboard_ok sample_dir" using keyboard_ok_view ready_state_ok by blast
  have "proc_view sample_dir = proc_view sample_shell" by (simp add: sample_dir_def)
  then have r: "refines ?a sample_dir" using refines_proc_view sample_shell_refines by blast
  have pc: "pcbs sample_dir = pcbs sample_booted" by (simp add: sample_dir_def sample_shell_def activate_def)
  have "fd_table_ok (pcb_of p sample_dir)" for p
    using table_init_ok [of empty_pcb] by (simp add: pc sample_booted_def pcb_of_def fd_table_ok_def)
  then show "kernel_ok sample_dir" using k r by (auto simp: kernel_ok_def tables_ok_def)
  show p: "active_pid sample_dir = 1" by (simp add: sample_dir_def sample_shell_def activate_def)
  have "pages sample_dir = pages ready_state" by (simp add: sample_dir_def sample_shell_def activate_def sample_booted_def)
  then show "program_mapped sample_dir" unfolding program_mapped_def p by (simp add: ready_state_def set_user_page_def)
  have "file_descriptor_array (pcb_of 1 sample_dir) = map init_fd [0..<8]"
    by (simp add: pc sample_booted_def pcb_of_def file_descriptor_table_init_def MAX_NUM_FILES_def)
  then show "free_fd (file_descriptor_array (pcb_of 1 sample_dir)) 2 = 2"
    by (intro free_fd_eqI) (auto simp: init_fd_def simp del: upt_rec_numeral)
qed

lemma sample_dir_view:
  assumes "wf_pages (pages u)" and "kernel_memory u = kernel_memory sample_dir" and "dir_index va = 1"
  shows "view u va = dot_image (push_bit 12 (ucast (0x400 + (frame_of va AND 0x003FF))) OR ucast (ucast va :: 12 word))"
proof -
  let ?f = "0x400 + (frame_of va AND 0x003FF) :: 20 word"
  have wf: "wf_pages (pages sample_dir)" using sample_dir_ok(1) by (simp add: kernel_ok_def keyboard_ok_def video_ok_def)
  have "view u va = view sample_dir va" by (simp add: view_kernel [OF assms(1,3)] view_kernel [OF wf assms(3)] assms(2))
  then show ?thesis using xlate_kernel(1) [OF wf assms(3)] by (simp add: view_def vload_def) (simp add: sample_dir_def)
qed

lemma sample_directory: "directory_disk sample_dir"
proof -
  have b: "boot_block_pointer sample_dir = 0x450000" by (simp add: sample_dir_def sample_shell_def)
  have "18 \<le> inode_count (view u) 0x450000 \<and> (\<forall>name. cstr name (ascii ''.'') \<longrightarrow>
      (\<exists>d. read_dentry_by_name (view u) 0x450000 (Some name) = Some (Some d) \<and> filetype d = TYPE_DIRECTORY \<and> inode_num d \<noteq> -1))"
    if "wf_pages (pages u)" "kernel_memory u = kernel_memory sample_dir" for u
  proof -
    let ?M = "view u"
    have m: "?M 0x450004 = 18" "?M 0x450005 = 0" "?M 0x450006 = 0" "?M 0x450007 = 0" "?M 0x450040 = 46" "?M 0x450041 = 0"
      "?M 0x450060 = 1" "?M 0x450061 = 0" "?M 0x450062 = 0" "?M 0x450063 = 0"
      "?M 0x450064 = 0" "?M 0x450065 = 0" "?M 0x450066 = 0" "?M 0x450067 = 0"
      using sample_dir_view [OF that] by (simp_all add: dir_index_def frame_of_def dot_image_def)
    have e: "cstr (at ?M 0x450040) [46]" using m by (simp add: cstr_def at_def)
    have "read_dentry_by_name ?M 0x450000 (Some name) = Some (Some (direntries ?M 0x450000 0))" if n: "cstr name [46]" for name
    proof -
      have c: "name 0 = 46" "name 1 = 0" using n by (auto simp: cstr_def)
      have "strncmp name (at ?M 0x450040) 1 = 0"
        unfolding strncmp_def using m c by (subst strncmp_loop.simps, subst strncmp_loop.simps) (simp add: at_def)
      moreover have "[0..<MAX_DIRECTORY_NUMBER] = 0 # [1..<MAX_DIRECTORY_NUMBER]"
        by (simp add: MAX_DIRECTORY_NUMBER_def upt_conv_Cons)
      ultimately show ?thesis
        unfolding read_dentry_by_name_def
        by (simp add: strlen_cstr [OF n] direntry_addr_def strlen_cstr [OF e] FILENAME_LEN_def)
    qed
    moreover have "filetype (direntries ?M 0x450000 0) = TYPE_DIRECTORY" "inode_num (direntries ?M 0x450000 0) = 0"
      using m by (simp_all add: direntries_def direntry_addr_def load32_def TYPE_DIRECTORY_def Let_def)
    moreover have "18 \<le> inode_count ?M 0x450000" using m by (simp add: inode_count_def load32_def)
    ultimately show ?thesis by (simp add: ascii_def)
  qed
  moreover have "dir_index (direntry_addr 0x450000 (of_nat i) + of_nat k) = 1" if "i < 18" "k < 32" for i k
  proof -
    define m where "m = 0x450040 + 64 * i + k"
    then have m: "0x450040 \<le> m" "m < 0x460000" using that by simp_all
    have e: "direntry_addr 0x450000 (of_nat i) + of_nat k = of_nat m" by (simp add: direntry_addr_def m_def)
    have "unat (of_nat m :: u32) = m" using m by (simp add: unat_of_nat)
    then have "unat (drop_bit 22 (direntry_addr 0x450000 (of_nat i) + of_nat k)) = 1"
      unfolding e using m by (auto simp: unat_drop_bit_div intro!: div_nat_eqI)
    then have "drop_bit 22 (direntry_addr 0x450000 (of_nat i) + of_nat k) = 1" by (simp add: word_unat_eq_iff)
    then show ?thesis by (simp add: dir_index_def)
  qed
  ultimately show ?thesis unfolding directory_disk_def b by simp
qed

theorem ls_prints_directory_witness:
  "(\<exists>s'. ls_main (c_os 0x08050000) (replicate 33 0) sample_dir = Some (0, s'))
   \<and> ls_main (kernel_os (lucky_call 0x08048010) (\<lambda>_. 0) 0x08050000) (replicate 33 0) sample_dir = None"
proof -
  have A: "program_range 0x08050000 40" by (simp add: program_range_def)
  have "free_fd (file_descriptor_array (pcb_of (active_pid sample_dir) sample_dir)) 2 < 8" "active_pid sample_dir \<noteq> 0"
    using sample_dir_ok(3,4) by simp_all
  moreover have "length (replicate 33 0 :: byte list) = 33" by simp
  ultimately show ?thesis
    using ls_prints_directory [OF sample_dir_ok(1,2) _ A _ sample_directory] lucky_calls_come_back by blast
qed

end
