(* ===== verification/User_Grep.thy ===== *)
theory User_Grep
  imports User_Programs Filesystem
begin

text \<open>
  The user program \<open>grep\<close> on one file: its buffer of 1024 bytes, in which an incomplete line at the end is moved to the
  front before the next read, is shown to print exactly the lines of the file that contain the string.
\<close>

section \<open>Lines\<close>

text \<open>The pieces of a text between newlines; the last piece is what follows the last newline.\<close>

fun split_lines :: "byte list \<Rightarrow> byte list list" where
  "split_lines [] = [[]]"
| "split_lines (c # cs) = (if c = 10 then [] # split_lines cs else (c # hd (split_lines cs)) # tl (split_lines cs))"

lemma split_lines_not_Nil [simp]: "split_lines cs \<noteq> []"
  by (cases cs) auto

lemma split_lines_one: "10 \<notin> set cs \<Longrightarrow> split_lines cs = [cs]"
  by (induction cs) auto

lemma split_lines_Cons: "10 \<notin> set l \<Longrightarrow> split_lines (l @ 10 # cs) = l # split_lines cs"
  by (induction l) auto

lemma split_lines_append: "split_lines (x @ y) = butlast (split_lines x) @ split_lines (last (split_lines x) @ y)"
proof (induction "length x" arbitrary: x rule: less_induct)
  case less
  show ?case
  proof (cases "10 \<in> set x")
    case True
    then obtain l z where x: "x = l @ 10 # z" "10 \<notin> set l" by (auto dest: split_list_first)
    have "split_lines (z @ y) = butlast (split_lines z) @ split_lines (last (split_lines z) @ y)" using less x by simp
    then show ?thesis using x by (simp add: split_lines_Cons)
  qed (simp add: split_lines_one)
qed

lemma last_line_no_newline: "10 \<notin> set (last (split_lines cs))"
proof (induction cs)
  case (Cons c cs)
  then show ?case by (cases "split_lines cs") (auto split: if_splits)
qed simp

lemma last_line_part: "set (last (split_lines cs)) \<subseteq> set cs \<and> (10 \<in> set cs \<longrightarrow> length (last (split_lines cs)) < length cs)"
proof (induction "length cs" arbitrary: cs rule: less_induct)
  case less
  show ?case
  proof (cases "10 \<in> set cs")
    case True
    then obtain l z where x: "cs = l @ 10 # z" "10 \<notin> set l" by (auto dest: split_list_first)
    then have "set (last (split_lines z)) \<subseteq> set z" "length (last (split_lines z)) \<le> length z"
      using less [of z] by (auto simp: split_lines_one)
    then show ?thesis using x by (auto simp: split_lines_Cons)
  qed (simp add: split_lines_one)
qed

lemma first_line_long: "10 \<notin> set x \<Longrightarrow> length x \<le> length (hd (split_lines (x @ y)))"
  by (induction x) auto

definition shown_matches :: "byte list \<Rightarrow> byte list \<Rightarrow> byte list list \<Rightarrow> byte list" where
  "shown_matches s fname ls = concat (map (\<lambda>l. fname @ [58] @ l @ [10]) (filter (sublist s) ls))"

lemma shown_matches_append: "shown_matches s fname (xs @ ys) = shown_matches s fname xs @ shown_matches s fname ys"
  by (simp add: shown_matches_def)

lemma shown_matches_Nil: "s \<noteq> [] \<Longrightarrow> shown_matches s fname [[]] = []"
  by (simp add: shown_matches_def)

section \<open>The buffer\<close>

lemma line_end_line:
  assumes "10 \<notin> set l" and "tail = [] \<or> (\<exists>t. tail = 10 # t)"
  shows "line_end (pre @ l @ tail @ post) (length pre + length l + length tail) (length pre) = length pre + length l"
  using assms
proof (induction l arbitrary: pre)
  case Nil
  then show ?case by (subst line_end.simps) (auto simp: nth_append)
next
  case (Cons c l)
  have "line_end ((pre @ [c]) @ l @ tail @ post) (length (pre @ [c]) + length l + length tail) (length (pre @ [c]))
      = length (pre @ [c]) + length l"
    using Cons.prems by (intro Cons.IH) auto
  then show ?case using Cons.prems by (subst line_end.simps) (simp add: nth_append)
qed

text \<open>Moving the last line to the front.\<close>

lemma strcpy_down_nth:
  assumes "i < j" and "j + length k < length buf" and "\<And>m. m < length k \<Longrightarrow> buf ! (j + m) = k ! m"
    and "buf ! (j + length k) = 0" and "0 \<notin> set k"
  shows "\<exists>buf'. strcpy_down i j buf = Some buf' \<and> length buf' = length buf
    \<and> (\<forall>m. buf' ! m = (if i \<le> m \<and> m \<le> i + length k then (k @ [0]) ! (m - i) else buf ! m))"
  using assms
proof (induction k arbitrary: i j buf)
  case Nil
  then show ?case by (subst strcpy_down.simps) (auto simp: nth_list_update)
next
  case (Cons c k)
  let ?buf = "buf[i := c]"
  have c: "buf ! j = c" "c \<noteq> 0" using Cons.prems(3) [of 0] Cons.prems(5) by auto
  have "\<exists>buf'. strcpy_down (Suc i) (Suc j) ?buf = Some buf' \<and> length buf' = length ?buf
    \<and> (\<forall>m. buf' ! m = (if Suc i \<le> m \<and> m \<le> Suc i + length k then (k @ [0]) ! (m - Suc i) else ?buf ! m))"
  proof (rule Cons.IH)
    show "?buf ! (Suc j + m) = k ! m" if "m < length k" for m
      using Cons.prems(1) Cons.prems(3) [of "Suc m"] that by simp
  qed (use Cons.prems in auto)
  then obtain buf' where b: "strcpy_down (Suc i) (Suc j) ?buf = Some buf'" "length buf' = length ?buf"
    "\<And>m. buf' ! m = (if Suc i \<le> m \<and> m \<le> Suc i + length k then (k @ [0]) ! (m - Suc i) else ?buf ! m)" by blast
  have "buf' ! m = (if i \<le> m \<and> m \<le> i + length (c # k) then ((c # k) @ [0]) ! (m - i) else buf ! m)" for m
  proof -
    consider "m < i" | "m = i" | "Suc i \<le> m" by linarith
    then show ?thesis
    proof cases
      case 3
      then have "m - i = Suc (m - Suc i)" by simp
      then show ?thesis using 3 b(3) [of m] by auto
    qed (use b(3) [of m] Cons.prems(1,2) in auto)
  qed
  then show ?case using b(1,2) c Cons.prems(2) by (subst strcpy_down.simps) (auto simp: Let_def)
qed


section \<open>Searching the buffer\<close>

definition cstring :: "byte list \<Rightarrow> byte list" where
  "cstring x = take (ece391_strlen x) x"

lemma cstring_before: "0 \<notin> set x \<Longrightarrow> cstring (x @ 0 # y) = x"
  by (induction x) (auto simp: cstring_def)

text \<open>System calls on a text that is read in order, with an output that is collected.\<close>

locale text_source =
  fixes os :: "'w os" and fd :: int and rest :: "'w \<Rightarrow> byte list" and shown :: "'w \<Rightarrow> byte list" and ok :: "'w \<Rightarrow> bool"
  assumes read_law: "ok w \<Longrightarrow> 0 < n \<Longrightarrow> n \<le> 1024 \<Longrightarrow> \<exists>w'. os_read os fd n w = Some (int (length (take (nat n) (rest w))), take (nat n) (rest w), w')
      \<and> rest w' = drop (nat n) (rest w) \<and> shown w' = shown w \<and> ok w'"
    and write_law: "ok w \<Longrightarrow> \<exists>r w'. os_write os 1 bs w = Some (r, w') \<and> rest w' = rest w \<and> shown w' = shown w @ bs \<and> ok w'"
begin

lemma fdputs_law: "ok w \<Longrightarrow> \<exists>w'. ece391_fdputs os 1 x w = Some w' \<and> rest w' = rest w \<and> shown w' = shown w @ cstring x \<and> ok w'"
  using write_law [of w "cstring x"] by (auto simp: ece391_fdputs_def cstring_def)

lemma print_match_law:
  assumes "ok w"
  shows "\<exists>w'. print_match os fname line w = Some w' \<and> rest w' = rest w
    \<and> shown w' = shown w @ cstring fname @ [58] @ cstring line @ [10] \<and> ok w'"
proof -
  obtain w1 where 1: "ece391_fdputs os 1 fname w = Some w1" "rest w1 = rest w" "shown w1 = shown w @ cstring fname" "ok w1"
    using fdputs_law [OF assms] by blast
  obtain w2 where 2: "ece391_fdputs os 1 (ascii '':'') w1 = Some w2" "rest w2 = rest w" "shown w2 = shown w1 @ cstring (ascii '':'')" "ok w2"
    using fdputs_law [OF 1(4)] 1(2) by metis
  obtain w3 where 3: "ece391_fdputs os 1 line w2 = Some w3" "rest w3 = rest w" "shown w3 = shown w2 @ cstring line" "ok w3"
    using fdputs_law [OF 2(4)] 2(2) by metis
  obtain w4 where 4: "ece391_fdputs os 1 (ascii ''\<newline>'') w3 = Some w4" "rest w4 = rest w" "shown w4 = shown w3 @ cstring (ascii ''\<newline>'')" "ok w4"
    using fdputs_law [OF 3(4)] 3(2) by metis
  have "cstring (ascii '':'') = [58]" "cstring (ascii ''\<newline>'') = [10]" by (simp_all add: cstring_def ascii_def)
  then show ?thesis using 1 2 3 4 by (simp add: print_match_def)
qed

text \<open>One line: it is printed when it contains the string.\<close>

lemma search_line:
  assumes "ok w" and "0 \<notin> set s" and "s \<noteq> []" and "0 \<notin> set l"
  shows "\<exists>w'. (if line_matches s (pre @ l @ 0 # post) (length pre) (length pre + length l)
        then print_match os fname (drop (length pre) (pre @ l @ 0 # post)) w else Some w) = Some w'
    \<and> rest w' = rest w \<and> shown w' = shown w @ shown_matches s (cstring fname) [l] \<and> ok w'"
proof -
  let ?data = "pre @ l @ 0 # post"
  have "line_matches s ?data (length pre) (length pre + length l) \<longleftrightarrow> sublist s l"
    using line_matches_sublist [OF assms(2,3), of "length pre" "length pre + length l" ?data] by (simp add: nth_append)
  moreover have "cstring (drop (length pre) ?data) = l" using cstring_before [OF assms(4)] by simp
  ultimately show ?thesis using print_match_law [OF assms(1), of fname "drop (length pre) ?data"] assms(1)
    by (auto simp: shown_matches_def)
qed


text \<open>The incomplete line that is kept for the next read; without a next read, and for a single line, nothing is kept.\<close>

definition carry :: "int \<Rightarrow> byte list \<Rightarrow> byte list \<Rightarrow> bool" where
  "carry cnt pre tx \<longleftrightarrow> cnt \<noteq> 0 \<and> (pre \<noteq> [] \<or> 10 \<in> set tx)"

definition carried :: "int \<Rightarrow> byte list \<Rightarrow> byte list \<Rightarrow> byte list" where
  "carried cnt pre tx = (if carry cnt pre tx then last (split_lines tx) else [])"

definition searched :: "int \<Rightarrow> byte list \<Rightarrow> byte list \<Rightarrow> byte list list" where
  "searched cnt pre tx = (if carry cnt pre tx then butlast (split_lines tx) else split_lines tx)"

definition lines_done :: "byte list \<Rightarrow> byte list \<Rightarrow> nat \<Rightarrow> byte list \<Rightarrow> byte list list \<Rightarrow> 'w \<Rightarrow> (byte list \<times> nat \<times> 'w) option \<Rightarrow> bool" where
  "lines_done s fname n keep ls w r \<longleftrightarrow> (\<exists>data w'. r = Some (data, length keep, w') \<and> length data = n \<and> 10 \<notin> set data
     \<and> take (length keep) data = keep \<and> rest w' = rest w \<and> ok w' \<and> shown w' = shown w @ shown_matches s (cstring fname) ls)"

lemma grep_last_line:
  assumes ok: "ok w" and s: "0 \<notin> set s" "s \<noteq> []" and tx: "0 \<notin> set tx" "10 \<notin> set tx"
    and nn: "10 \<notin> set pre" "10 \<notin> set post" "post \<noteq> []"
  shows "lines_done s fname (length (pre @ tx @ post)) (carried cnt pre tx) (searched cnt pre tx) w
    (grep_lines os s fname cnt (pre @ tx @ post) (length pre + length tx) (length pre) w)"
proof -
  obtain p ps where post: "post = p # ps" "p \<noteq> 10" using nn(2,3) by (cases post) auto
  have e: "line_end (pre @ tx @ post) (length pre + length tx) (length pre) = length pre + length tx"
    using line_end_line [OF tx(2), of "[]" pre post] by simp
  have d: "(pre @ tx @ post) ! (length pre + length tx) = p" "(pre @ tx @ post)[length pre + length tx := 0] = pre @ tx @ 0 # ps"
    using post(1) by (simp_all add: nth_append list_update_append)
  have one: "split_lines tx = [tx]" by (rule split_lines_one [OF tx(2)])
  show ?thesis
  proof (cases "carry cnt pre tx")
    case True
    then have c: "cnt \<noteq> 0" "pre \<noteq> []" using tx(2) by (auto simp: carry_def)
    have "\<exists>buf. strcpy_down 0 (length pre) (pre @ tx @ 0 # ps) = Some buf \<and> length buf = length (pre @ tx @ 0 # ps)
        \<and> (\<forall>m. buf ! m = (if 0 \<le> m \<and> m \<le> 0 + length tx then (tx @ [0]) ! (m - 0) else (pre @ tx @ 0 # ps) ! m))"
      by (rule strcpy_down_nth) (use c(2) tx(1) in \<open>auto simp: nth_append\<close>)
    then obtain buf where b: "strcpy_down 0 (length pre) (pre @ tx @ 0 # ps) = Some buf" "length buf = length (pre @ tx @ 0 # ps)"
      "\<And>m. buf ! m = (if m \<le> length tx then (tx @ [0]) ! m else (pre @ tx @ 0 # ps) ! m)" by auto
    have "take (length tx) buf = tx" by (rule nth_equalityI) (use b in \<open>auto simp: nth_append\<close>)
    moreover have "buf ! m \<noteq> 10" if "m < length buf" for m
    proof -
      have "buf ! m \<in> set (tx @ [0]) \<union> set (pre @ tx @ 0 # ps)"
        unfolding b(3) using that b(2) by (cases "m \<le> length tx") (auto intro: nth_mem simp del: set_append)
      then show ?thesis using tx(2) nn(1,2) post(1) by auto
    qed
    then have "10 \<notin> set buf" by (auto simp: in_set_conv_nth)
    ultimately show ?thesis using True c e d one b post ok
      by (subst grep_lines.simps) (simp add: lines_done_def carried_def searched_def shown_matches_def)
  next
    case False
    then have c: "\<not> (cnt \<noteq> 0 \<and> length pre \<noteq> 0)" by (auto simp: carry_def)
    from search_line [OF ok s tx(1), of pre ps fname] obtain w' where w':
      "(if line_matches s (pre @ tx @ 0 # ps) (length pre) (length pre + length tx)
        then print_match os fname (drop (length pre) (pre @ tx @ 0 # ps)) w else Some w) = Some w'"
      "rest w' = rest w" "shown w' = shown w @ shown_matches s (cstring fname) [tx]" "ok w'" by blast
    have "grep_lines os s fname cnt (pre @ tx @ post) (length pre + length tx) (length pre) w = Some (pre @ tx @ 0 # ps, 0, w')"
      unfolding grep_lines.simps [of os s fname cnt "pre @ tx @ post"] Let_def e d using c post(2) w'(1) by auto
    then show ?thesis using False w'(2-) one post(1) nn tx(2)
      by (simp add: lines_done_def carried_def searched_def)
  qed
qed


lemma grep_lines_law:
  assumes "ok w" and s: "0 \<notin> set s" "s \<noteq> []" and "0 \<notin> set tx" and "10 \<notin> set pre" and nn: "10 \<notin> set post" "post \<noteq> []"
  shows "lines_done s fname (length (pre @ tx @ post)) (carried cnt pre tx) (searched cnt pre tx) w
    (grep_lines os s fname cnt (pre @ tx @ post) (length pre + length tx) (length pre) w)"
  using assms(1,4,5)
proof (induction "length tx" arbitrary: tx pre w rule: less_induct)
  case less
  show ?case
  proof (cases "10 \<in> set tx")
    case False
    then show ?thesis using grep_last_line [OF less.prems(1) s less.prems(2) False less.prems(3) nn] by simp
  next
    case True
    then obtain l z where t: "tx = l @ 10 # z" "10 \<notin> set l" by (auto dest: split_list_first)
    have zero: "0 \<notin> set l" "0 \<notin> set z" using less.prems(2) t(1) by auto
    let ?data = "pre @ tx @ post" and ?e = "length pre + length l"
    have e: "line_end ?data (length pre + length tx) (length pre) = ?e"
      using line_end_line [OF t(2), of "10 # z" pre post] t(1) by (simp add: add.assoc)
    have d: "?data ! ?e = 10" "?data[?e := 0] = pre @ l @ 0 # z @ post"
      using t(1) by (simp_all add: nth_append list_update_append)
    from search_line [OF less.prems(1) s zero(1), of pre "z @ post" fname] obtain v where v:
      "(if line_matches s (pre @ l @ 0 # z @ post) (length pre) ?e
        then print_match os fname (drop (length pre) (pre @ l @ 0 # z @ post)) w else Some w) = Some v"
      "rest v = rest w" "shown v = shown w @ shown_matches s (cstring fname) [l]" "ok v" by blast
    have split: "split_lines tx = l # split_lines z" using t by (simp add: split_lines_Cons)
    have step: "grep_lines os s fname cnt ?data (length pre + length tx) (length pre) w
        = (if z = [] then Some (pre @ l @ 0 # z @ post, 0, v)
           else grep_lines os s fname cnt (pre @ l @ 0 # z @ post) (length pre + length tx) (Suc ?e) v)"
      unfolding grep_lines.simps [of os s fname cnt ?data] Let_def e d using v(1) t(1) by auto
    show ?thesis
    proof (cases "z = []")
      case True
      then show ?thesis using step v(2-) split t less.prems(3) nn(1) shown_matches_Nil [OF s(2), of "cstring fname"]
          shown_matches_append [of s "cstring fname" "[l]" "[[]]"]
        by (auto simp: lines_done_def carried_def searched_def)
    next
      case False
      let ?pre = "pre @ l @ [0]"
      have "lines_done s fname (length (?pre @ z @ post)) (carried cnt ?pre z) (searched cnt ?pre z) v
          (grep_lines os s fname cnt (?pre @ z @ post) (length ?pre + length z) (length ?pre) v)"
        by (rule less.hyps) (use v(4) zero(2) less.prems(3) t in auto)
      moreover have "carried cnt ?pre z = carried cnt pre tx" "searched cnt pre tx = l # searched cnt ?pre z"
        using split \<open>10 \<in> set tx\<close> by (simp_all add: carried_def searched_def carry_def)
      moreover have "length ?pre + length z = length pre + length tx" "length ?pre = Suc ?e" "?pre @ z @ post = pre @ l @ 0 # z @ post"
        using t(1) by simp_all
      ultimately show ?thesis using step False v(2,3) t(1) shown_matches_append [of s "cstring fname" "[l]" "searched cnt ?pre z"]
        by (auto simp: lines_done_def add.assoc)
    qed
  qed
qed

text \<open>Reading the file.\<close>

lemma grep_loop_law:
  assumes "ok w" and s: "0 \<notin> set s" "s \<noteq> []" and "0 \<notin> set (keep @ rest w)" and "10 \<notin> set data" and "length data = 1025"
    and "take (length keep) data = keep" and "length keep \<le> 1023" and "list_all (\<lambda>l. length l \<le> 1023) (split_lines (keep @ rest w))"
  shows "\<exists>w'. grep_loop os s fname fd data (length keep) w = Some (0, w') \<and> ok w'
    \<and> shown w' = shown w @ shown_matches s (cstring fname) (split_lines (keep @ rest w))"
  using assms(1,4-)
proof (induction "length (rest w)" arbitrary: keep data w rule: less_induct)
  case less
  let ?k = "length keep" and ?n = "1024 - int (length keep)"
  define bs where "bs = take (nat ?n) (rest w)"
  obtain v where v: "os_read os fd ?n w = Some (int (length bs), bs, v)" "rest v = drop (nat ?n) (rest w)" "shown v = shown w" "ok v"
    using read_law [OF less.prems(1), of ?n] less.prems(6) unfolding bs_def by auto
  let ?tx = "keep @ bs" and ?post = "drop (length bs + ?k) data" and ?cnt = "int (length bs)"
  have len: "length ?tx \<le> 1024" using less.prems(6) by (auto simp: bs_def)
  have fill: "fill ?k bs data = [] @ ?tx @ ?post"
    using less.prems(5) by (simp add: fill_def add.commute)
  have "length bs + ?k < length data" using len less.prems(4) by simp
  then have post: "?post \<noteq> []" "10 \<notin> set ?post" using less.prems(3) by (auto dest: in_set_dropD)
  have total: "length ([] @ ?tx @ ?post) = 1025" using len less.prems(4) by simp
  have nul: "0 \<notin> set ?tx" using less.prems(2) by (auto simp: bs_def dest: in_set_takeD)
  let ?keep = "carried ?cnt [] ?tx"
  from grep_lines_law [OF v(4) s nul _ post(2,1), of "[]" fname ?cnt] obtain data' u where u:
    "grep_lines os s fname ?cnt ([] @ ?tx @ ?post) (length ?tx) 0 v = Some (data', length ?keep, u)"
    "length data' = 1025" "10 \<notin> set data'" "take (length ?keep) data' = ?keep"
    "rest u = rest v" "ok u" "shown u = shown v @ shown_matches s (cstring fname) (searched ?cnt [] ?tx)"
    using total by (auto simp: lines_done_def)
  have step: "grep_loop os s fname fd data ?k w = (if bs = [] then Some (0, u) else grep_loop os s fname fd data' (length ?keep) u)"
    using v(1) u(1) fill by (subst grep_loop.simps) simp
  show ?case
  proof (cases "bs = []")
    case True
    then have "rest w = []" using less.prems(6) by (auto simp: bs_def)
    then show ?thesis using True step u(5-) v(3) by (auto simp: searched_def carry_def)
  next
    case False
    have tx: "keep @ rest w = ?tx @ rest u" using v(2) u(5) by (simp add: bs_def)
    have "rest w \<noteq> []" using False by (auto simp: bs_def)
    then have shorter: "length (rest u) < length (rest w)" using u(5) v(2) less.prems(6) by auto
    have IH: "\<exists>w'. grep_loop os s fname fd data' (length ?keep) u = Some (0, w') \<and> ok w'
        \<and> shown w' = shown u @ shown_matches s (cstring fname) (split_lines (?keep @ rest u))"
      if "0 \<notin> set ?keep" "length ?keep \<le> 1023" "list_all (\<lambda>l. length l \<le> 1023) (split_lines (?keep @ rest u))"
      by (rule less.hyps [OF shorter u(6) _ u(3,2,4) that(2,3)]) (use that(1) u(5) v(2) less.prems(2) in \<open>auto dest: in_set_dropD\<close>)
    show ?thesis
    proof (cases "10 \<in> set ?tx")
      case True
      then have c: "?keep = last (split_lines ?tx)" "searched ?cnt [] ?tx = butlast (split_lines ?tx)"
        using False by (simp_all add: carried_def searched_def carry_def)
      have sp: "split_lines (keep @ rest w) = butlast (split_lines ?tx) @ split_lines (?keep @ rest u)"
        unfolding tx c(1) by (rule split_lines_append)
      have "0 \<notin> set ?keep" "length ?keep \<le> 1023" "list_all (\<lambda>l. length l \<le> 1023) (split_lines (?keep @ rest u))"
        using last_line_part [of ?tx] True nul len less.prems(7) unfolding sp c(1) [symmetric] by auto
      from IH [OF this] show ?thesis using step False u(7) v(3) c(2) sp by (auto simp: shown_matches_append)
    next
      case one: False
      then have c: "?keep = []" "searched ?cnt [] ?tx = [?tx]"
        by (simp_all add: carried_def searched_def carry_def split_lines_one)
      have "rest u = []"
      proof (rule ccontr)
        assume "rest u \<noteq> []"
        then have "length ?tx = 1024" using u(5) v(2) less.prems(6) by (auto simp: bs_def)
        then have "1024 \<le> length (hd (split_lines (keep @ rest w)))" using first_line_long [OF one, of "rest u"] tx by simp
        moreover have "length (hd (split_lines (keep @ rest w))) \<le> 1023"
          using less.prems(7) hd_in_set [OF split_lines_not_Nil] unfolding list_all_iff by blast
        ultimately show False by simp
      qed
      then have "split_lines (keep @ rest w) = [?tx]" using tx one by (simp add: split_lines_one)
      then show ?thesis using IH c \<open>rest u = []\<close> step False u(7) v(3) shown_matches_Nil [OF s(2)] by auto
    qed
  qed
qed


lemma do_one_file_law:
  assumes "os_open os (cstring fname) w0 = Some (fd, w)" and "ok w" and "shown w = shown w0" and "fd \<noteq> -1"
    and "\<And>w. ok w \<Longrightarrow> \<exists>r w'. os_close os fd w = Some (r, w') \<and> r \<noteq> -1 \<and> shown w' = shown w"
    and "0 \<notin> set s" and "s \<noteq> []" and "0 \<notin> set (rest w)" and "10 \<notin> set data" and "length data = 1025"
    and "list_all (\<lambda>l. length l \<le> 1023) (split_lines (rest w))"
  shows "\<exists>w'. do_one_file os s fname data w0 = Some (0, w') \<and> shown w' = shown w0 @ shown_matches s (cstring fname) (split_lines (rest w))"
proof -
  obtain u where u: "grep_loop os s fname fd data 0 w = Some (0, u)" "ok u"
      "shown u = shown w @ shown_matches s (cstring fname) (split_lines (rest w))"
    using grep_loop_law [OF assms(2,6,7), of "[]" data fname] assms(8-) by auto
  obtain r v where "os_close os fd u = Some (r, v)" "r \<noteq> -1" "shown v = shown u" using assms(5) [OF u(2)] by blast
  then show ?thesis using u assms(1,3,4) by (simp add: do_one_file_def cstring_def)
qed

end


section \<open>On the kernel's files\<close>

text \<open>System calls on one file of the kernel's file system that is open already, read with the kernel's \<open>file_read\<close>; the output is
  collected. Opening, closing and writing are not the kernel's here.\<close>

definition file_os :: "(file_handle \<times> byte list) os" where
  "file_os = \<lparr>
     os_execute = (\<lambda>_ _. None),
     os_read = (\<lambda>fd n (h, out). let (r, bs, h') = file_rd (of_int n) h in Some (r, bs, (h', out))),
     os_write = (\<lambda>fd bs (h, out). Some (int (length bs), (h, out @ bs))),
     os_open = (\<lambda>_ w. Some (2, w)),
     os_close = (\<lambda>_ w. Some (0, w)),
     os_getargs = (\<lambda>_ _. None), os_vidmap = (\<lambda>_ _. None), os_set_handler = (\<lambda>_ _ _. None), os_number = (\<lambda>_ _. None)\<rparr>"

interpretation text_file: text_source file_os 2 "\<lambda>w. file_rest (fst w)" snd "\<lambda>w. file_ok 1024 (fst w)"
proof
  fix w :: "file_handle \<times> byte list" and n :: int
  assume ok: "file_ok 1024 (fst w)" and n: "0 < n" "n \<le> 1024"
  obtain r bs h where rd: "file_rd (of_int n) (fst w) = (r, bs, h)" by (metis prod_cases3)
  have u: "unat (of_int n :: u32) = nat n" 
  proof -
    have "n mod 4294967296 = n" using n by (intro mod_pos_pos_trivial) linarith+
    then show ?thesis by (simp add: unat_eq_nat_uint uint_word_of_int)
  qed
  then have "(of_int n :: u32) \<noteq> 0" "unat (of_int n :: u32) \<le> unat (1024 :: u32)" using n by auto
  note spec = file_rd_spec [OF ok this rd]
  have "os_read file_os 2 n w = Some (r, bs, (h, snd w))" using rd by (simp add: file_os_def split_beta)
  then show "\<exists>w'. os_read file_os 2 n w = Some (int (length (take (nat n) (file_rest (fst w)))), take (nat n) (file_rest (fst w)), w')
      \<and> file_rest (fst w') = drop (nat n) (file_rest (fst w)) \<and> snd w' = snd w \<and> file_ok 1024 (fst w')"
    using spec unfolding u by simp
qed (auto simp: file_os_def split: prod.split)

section \<open>Properties\<close>

text \<open>C27: \<open>grep\<close> prints exactly the matching lines: searching for a non-empty string in a regular file of the kernel's file system that contains no NUL byte and no line longer than 1023 characters, with a buffer in which no newline is left over, \<open>do_one_file\<close> ends with 0 and has written, for every line of the file that contains the string and for no other, in the order of the file, the file name, a colon, the whole line and a newline; this includes the lines that cross the boundary of two reads and a last line without newline.\<close>

theorem grep_prints_matching_lines:
  assumes "file_ok 1024 h" and "0 \<notin> set (file_rest h)" and "list_all (\<lambda>l. length l \<le> 1023) (split_lines (file_rest h))"
    and "0 \<notin> set s" and "s \<noteq> []" and "length data = 1025" and "10 \<notin> set data"
  shows "\<exists>h'. do_one_file file_os s fname data (h, out)
    = Some (0, h', out @ concat (map (\<lambda>l. cstring fname @ [58] @ l @ [10]) (filter (sublist s) (split_lines (file_rest h)))))"
proof -
  have "\<exists>w. do_one_file file_os s fname data (h, out) = Some (0, w)
      \<and> snd w = snd (h, out) @ shown_matches s (cstring fname) (split_lines (file_rest (fst (h, out))))"
    by (rule text_file.do_one_file_law) (use assms in \<open>simp_all add: file_os_def\<close>)
  then show ?thesis by (auto simp: shown_matches_def)
qed

theorem grep_prints_matching_lines_witness:
  "\<exists>h'. do_one_file file_os (ascii ''ell'') (ascii ''a'') (replicate 1025 0)
      (\<lparr>fh_mem = sample_image, fh_bbp = 0x1000, fh_inode = 1, fh_buf = 0x9000, fh_pos = 0\<rparr>, [])
    = Some (0, h', ascii ''a:hello\<newline>'')"
proof -
  let ?h = "\<lparr>fh_mem = sample_image, fh_bbp = 0x1000, fh_inode = 1, fh_buf = 0x9000, fh_pos = 0\<rparr>"
  have f: "file_ok 1024 ?h" "file_rest ?h = [104, 101, 108, 108, 111]"
    by (simp_all add: file_ok_def sample_valid sample_length Let_def file_rest_def sample_content)
  have "sublist (ascii ''ell'') [104, 101, 108, 108, 111]" by (simp add: ascii_def sublist_Cons_right)
  then show ?thesis
    using grep_prints_matching_lines [of ?h "ascii ''ell''" "replicate 1025 0" "ascii ''a''" "[]"] f
    by (simp add: ascii_def cstring_def)
qed

end
