(* ===== verification/Blink.thy ===== *)
theory Blink
  imports User_Lib Kernel_Interfaces
begin

text \<open>
  The blink driver of the user program \<open>fish\<close> (\<^verbatim>\<open>fish/blink.S\<close>, \<^verbatim>\<open>fish/blink.h\<close> and the memory functions of
  \<^verbatim>\<open>fish/fish.c\<close>): characters that alternate on the screen, kept in a linked list whose nodes come from the array
  \<open>blink_array\<close>. A pointer to a node is the index of the node in the array, \<open>None\<close> is NULL. Walks along the list
  are partial functions, since nothing in the code keeps the list acyclic.
\<close>

section \<open>State\<close>

type_synonym u16 = "16 word"

record mp1_blink_struct =
  location :: u16
  on_char :: byte
  off_char :: byte
  on_length :: u16
  off_length :: u16
  countdown :: u16
  status :: u16
  next_ptr :: "nat option"

text \<open>The variables of the program: the node array, the list head and the video memory that was mapped.\<close>

record blink_state =
  blink_array :: "mp1_blink_struct list"
  mp1_list_head :: "nat option"
  vmem_base_addr :: addr
  vmem :: mem

definition zero_blink :: mp1_blink_struct where
  "zero_blink = \<lparr>location = 0, on_char = 0, off_char = 0, on_length = 0, off_length = 0, countdown = 0, status = 0, next_ptr = None\<rparr>"

definition set_node :: "nat \<Rightarrow> mp1_blink_struct \<Rightarrow> blink_state \<Rightarrow> blink_state" where
  "set_node i b st = st\<lparr>blink_array := (blink_array st)[i := b]\<rparr>"

section \<open>Memory functions of fish.c\<close>

definition ece391_memset :: "addr \<Rightarrow> byte \<Rightarrow> nat \<Rightarrow> mem \<Rightarrow> mem" where
  "ece391_memset memory c n M = fold (\<lambda>i M. M(memory + of_nat i := c)) [0..<n] M"

definition ece391_memcpy :: "addr \<Rightarrow> addr \<Rightarrow> nat \<Rightarrow> mem \<Rightarrow> int \<times> mem" where
  "ece391_memcpy dest src n M = (0, fold (\<lambda>i M. M(dest + of_nat i := M (src + of_nat i))) [0..<n] M)"

text \<open>A node is free when its location is 0; freeing clears all its bytes.\<close>

definition mp1_malloc :: "blink_state \<Rightarrow> nat option" where
  "mp1_malloc st = find (\<lambda>i. location (blink_array st ! i) = 0) [0..<80 * 25]"

definition mp1_free :: "nat \<Rightarrow> blink_state \<Rightarrow> blink_state" where
  "mp1_free i st = set_node i zero_blink st"

section \<open>The driver\<close>

definition mp1_poke :: "u32 \<Rightarrow> byte \<Rightarrow> blink_state \<Rightarrow> blink_state" where
  "mp1_poke eax cl st = st\<lparr>vmem := (vmem st)(vmem_base_addr st + eax := cl)\<rparr>"

text \<open>The offset of a location on the screen: two bytes per character.\<close>

definition cell_offset :: "mp1_blink_struct \<Rightarrow> u32" where
  "cell_offset b = push_bit 1 (ucast (location b))"

text \<open>One round of the tasklet's loop; the counter is compared as a signed number.\<close>

definition tick_node :: "nat \<Rightarrow> blink_state \<Rightarrow> blink_state" where
  "tick_node i st =
     (let b = blink_array st ! i;
          b = b\<lparr>countdown := countdown b - 1\<rparr>
      in if 0 < sint (countdown b) then set_node i b st
         else
           let on = status b AND 1 \<noteq> 0;
               c = (if on then off_char b else on_char b);
               dx = (if on then off_length b else on_length b)
           in set_node i (b\<lparr>countdown := dx, status := status b XOR 1\<rparr>) (mp1_poke (cell_offset b) c st))"

partial_function (option) tasklet_loop :: "nat option \<Rightarrow> blink_state \<Rightarrow> blink_state option" where
  "tasklet_loop ebx st =
     (case ebx of None \<Rightarrow> Some st
      | Some i \<Rightarrow> let st = tick_node i st in tasklet_loop (next_ptr (blink_array st ! i)) st)"

definition mp1_rtc_tasklet :: "blink_state \<Rightarrow> blink_state option" where
  "mp1_rtc_tasklet st = tasklet_loop (mp1_list_head st) st"

text \<open>The first node with a location.\<close>

partial_function (option) find_loop :: "u16 \<Rightarrow> blink_state \<Rightarrow> nat option \<Rightarrow> nat option option" where
  "find_loop ax st ebx =
     (case ebx of None \<Rightarrow> Some None
      | Some i \<Rightarrow> if location (blink_array st ! i) = ax then Some (Some i)
                 else find_loop ax st (next_ptr (blink_array st ! i)))"

definition mp1_find_helper :: "u32 \<Rightarrow> blink_state \<Rightarrow> nat option option" where
  "mp1_find_helper arg st = find_loop (ucast arg) st (mp1_list_head st)"

definition mp1_ioctl_add :: "mp1_blink_struct \<Rightarrow> blink_state \<Rightarrow> int \<times> blink_state" where
  "mp1_ioctl_add arg st =
     (if 80 * 25 \<le> location arg then (-1, st)
      else
        let b = arg\<lparr>status := 1, countdown := on_length arg\<rparr>
        in case mp1_malloc st of None \<Rightarrow> (-1, st)
           | Some i \<Rightarrow>
               let st = set_node i (b\<lparr>next_ptr := mp1_list_head st\<rparr>) st;
                   st = st\<lparr>mp1_list_head := Some i\<rparr>
               in (0, mp1_poke (cell_offset b) (on_char b) st))"

text \<open>The variable that holds the pointer to a node: the list head or the link of the node before.\<close>

datatype link = Head | Next_of nat

definition link_get :: "link \<Rightarrow> blink_state \<Rightarrow> nat option" where
  "link_get l st = (case l of Head \<Rightarrow> mp1_list_head st | Next_of i \<Rightarrow> next_ptr (blink_array st ! i))"

definition link_set :: "link \<Rightarrow> nat option \<Rightarrow> blink_state \<Rightarrow> blink_state" where
  "link_set l p st = (case l of Head \<Rightarrow> st\<lparr>mp1_list_head := p\<rparr>
     | Next_of i \<Rightarrow> set_node i ((blink_array st ! i)\<lparr>next_ptr := p\<rparr>) st)"

partial_function (option) remove_find_prev :: "nat \<Rightarrow> blink_state \<Rightarrow> link \<Rightarrow> link option" where
  "remove_find_prev i st edx =
     (case link_get edx st of None \<Rightarrow> None
      | Some j \<Rightarrow> if j = i then Some edx else remove_find_prev i st (Next_of j))"

definition mp1_ioctl_remove :: "u32 \<Rightarrow> blink_state \<Rightarrow> (int \<times> blink_state) option" where
  "mp1_ioctl_remove arg st =
     Option.bind (mp1_find_helper arg st) (\<lambda>r. case r of None \<Rightarrow> Some (-1, st)
       | Some i \<Rightarrow>
           Option.bind (remove_find_prev i st Head) (\<lambda>edx.
             Some (0, mp1_free i (link_set edx (next_ptr (blink_array st ! i)) st))))"

text \<open>
  \<open>sync\<close> copies the phase of one node to another and shows it. The conditional move \<open>cmovl\<close> after
  \<open>testb\<close> looks at the sign of the tested value.
\<close>

definition sync_node :: "mp1_blink_struct \<Rightarrow> mp1_blink_struct \<Rightarrow> mp1_blink_struct" where
  "sync_node a b = b\<lparr>on_length := on_length a, off_length := off_length a, countdown := countdown a, status := status a\<rparr>"

definition sync_char :: "mp1_blink_struct \<Rightarrow> byte" where
  "sync_char b = (if sint (ucast (status b) AND 1 :: byte) < 0 then on_char b else off_char b)"

definition mp1_ioctl_sync :: "u32 \<Rightarrow> blink_state \<Rightarrow> (int \<times> blink_state) option" where
  "mp1_ioctl_sync arg st =
     Option.bind (mp1_find_helper (drop_bit 16 arg) st) (\<lambda>r. case r of None \<Rightarrow> Some (-1, st)
       | Some esi \<Rightarrow>
           Option.bind (mp1_find_helper (arg AND 0xFFFF) st) (\<lambda>r. case r of None \<Rightarrow> Some (-1, st)
             | Some edi \<Rightarrow>
                 let b = sync_node (blink_array st ! esi) (blink_array st ! edi)
                 in Some (0, mp1_poke (cell_offset b) (sync_char b) (set_node edi b st))))"

text \<open>\<open>find\<close> is given the location and fills the caller's structure.\<close>

definition mp1_ioctl_find :: "u16 \<Rightarrow> blink_state \<Rightarrow> (int \<times> mp1_blink_struct option) option" where
  "mp1_ioctl_find loc st =
     Option.bind (mp1_find_helper (ucast loc) st) (\<lambda>r. case r of None \<Rightarrow> Some (-1, None)
       | Some i \<Rightarrow> Some (0, Some (blink_array st ! i)))"

text \<open>The calls of \<open>mp1_ioctl\<close> with their arguments, in the order of \<open>call_table\<close>, and the tasklet.\<close>

datatype blink_call = RTC_ADD mp1_blink_struct | RTC_REMOVE u32 | RTC_FIND u16 | RTC_SYNC u32 | Tasklet

type_synonym blink_reply = "int \<times> mp1_blink_struct option"

definition mp1_ioctl :: "blink_call \<Rightarrow> blink_state \<Rightarrow> (blink_reply \<times> blink_state) option" where
  "mp1_ioctl c st = (case c of
       RTC_ADD b \<Rightarrow> (case mp1_ioctl_add b st of (r, st) \<Rightarrow> Some ((r, None), st))
     | RTC_REMOVE arg \<Rightarrow> map_option (\<lambda>(r, st). ((r, None), st)) (mp1_ioctl_remove arg st)
     | RTC_FIND loc \<Rightarrow> map_option (\<lambda>r. (r, st)) (mp1_ioctl_find loc st)
     | RTC_SYNC arg \<Rightarrow> map_option (\<lambda>(r, st). ((r, None), st)) (mp1_ioctl_sync arg st)
     | Tasklet \<Rightarrow> map_option (\<lambda>st. ((0, None), st)) (mp1_rtc_tasklet st))"

section \<open>Linked lists in the array\<close>

primrec chain :: "mp1_blink_struct list \<Rightarrow> nat option \<Rightarrow> nat list \<Rightarrow> bool" where
  "chain arr p [] \<longleftrightarrow> p = None"
| "chain arr p (x # xs) \<longleftrightarrow> p = Some x \<and> x < length arr \<and> chain arr (next_ptr (arr ! x)) xs"

lemma chain_in_range: "chain arr p xs \<Longrightarrow> i \<in> set xs \<Longrightarrow> i < length arr"
  by (induction xs arbitrary: p) auto

text \<open>The list depends on the links of its own nodes only.\<close>

lemma chain_cong:
  assumes "chain arr p xs" and "length arr' = length arr" and "\<And>i. i \<in> set xs \<Longrightarrow> next_ptr (arr' ! i) = next_ptr (arr ! i)"
  shows "chain arr' p xs"
  using assms by (induction xs arbitrary: p) auto

lemma chain_other: "chain arr p xs \<Longrightarrow> i \<notin> set xs \<Longrightarrow> chain (arr[i := b]) p xs"
  by (erule chain_cong) (simp, metis nth_list_update_neq)

lemma chain_same_link: "chain arr p xs \<Longrightarrow> next_ptr b = next_ptr (arr ! i) \<Longrightarrow> chain (arr[i := b]) p xs"
  by (erule chain_cong) (simp, metis list_update_beyond nth_list_update not_le)

text \<open>Taking a node out of the list by its predecessor's link.\<close>

lemma chain_bypass:
  assumes "chain arr p (us @ j # i # vs)" and "distinct (us @ j # i # vs)"
  shows "chain (arr[j := (arr ! j)\<lparr>next_ptr := next_ptr (arr ! i)\<rparr>]) p (us @ j # vs)"
  using assms
proof (induction us arbitrary: p)
  case Nil
  then show ?case by (auto intro: chain_other)
qed (auto simp: nth_list_update_neq)

section \<open>Specification\<close>

text \<open>What the driver promises: a list of blinking characters, the latest first, and what it has put on the screen.\<close>

record blink_spec =
  blinks :: "mp1_blink_struct list"
  picture_base :: addr
  picture :: mem

definition unlink :: "mp1_blink_struct \<Rightarrow> mp1_blink_struct" where
  "unlink b = b\<lparr>next_ptr := None\<rparr>"

definition draw :: "mp1_blink_struct \<Rightarrow> byte \<Rightarrow> blink_spec \<Rightarrow> blink_spec" where
  "draw b c a = a\<lparr>picture := (picture a)(picture_base a + cell_offset b := c)\<rparr>"

primrec remove_blink :: "u16 \<Rightarrow> mp1_blink_struct list \<Rightarrow> mp1_blink_struct list" where
  "remove_blink loc [] = []"
| "remove_blink loc (b # bs) = (if location b = loc then bs else b # remove_blink loc bs)"

primrec change_blink :: "u16 \<Rightarrow> mp1_blink_struct \<Rightarrow> mp1_blink_struct list \<Rightarrow> mp1_blink_struct list" where
  "change_blink loc c [] = []"
| "change_blink loc c (b # bs) = (if location b = loc then c # bs else b # change_blink loc c bs)"

definition find_blink :: "u16 \<Rightarrow> blink_spec \<Rightarrow> mp1_blink_struct option" where
  "find_blink loc a = find (\<lambda>b. location b = loc) (blinks a)"

text \<open>Counting down; at the end of a phase the other character is shown for its own length.\<close>

definition expired :: "mp1_blink_struct \<Rightarrow> bool" where
  "expired b \<longleftrightarrow> sint (countdown b - 1) \<le> 0"

definition other_char :: "mp1_blink_struct \<Rightarrow> byte" where
  "other_char b = (if status b AND 1 \<noteq> 0 then off_char b else on_char b)"

definition tick :: "mp1_blink_struct \<Rightarrow> mp1_blink_struct" where
  "tick b = (if expired b
     then b\<lparr>countdown := (if status b AND 1 \<noteq> 0 then off_length b else on_length b), status := status b XOR 1\<rparr>
     else b\<lparr>countdown := countdown b - 1\<rparr>)"

definition draw_expired :: "mp1_blink_struct \<Rightarrow> blink_spec \<Rightarrow> blink_spec" where
  "draw_expired b a = (if expired b then draw b (other_char b) a else a)"

definition spec_call :: "blink_call \<Rightarrow> blink_spec \<Rightarrow> blink_reply \<times> blink_spec" where
  "spec_call c a = (case c of
       RTC_ADD b \<Rightarrow>
         if 2000 \<le> location b \<or> 2000 \<le> length (blinks a) then ((-1, None), a)
         else ((0, None), draw b (on_char b)
                (a\<lparr>blinks := b\<lparr>status := 1, countdown := on_length b, next_ptr := None\<rparr> # blinks a\<rparr>))
     | RTC_REMOVE arg \<Rightarrow>
         (case find_blink (ucast arg) a of None \<Rightarrow> ((-1, None), a)
          | Some _ \<Rightarrow> ((0, None), a\<lparr>blinks := remove_blink (ucast arg) (blinks a)\<rparr>))
     | RTC_FIND loc \<Rightarrow>
         (case find_blink loc a of None \<Rightarrow> ((-1, None), a) | Some b \<Rightarrow> ((0, Some b), a))
     | RTC_SYNC arg \<Rightarrow>
         (case (find_blink (ucast (drop_bit 16 arg)) a, find_blink (ucast arg) a) of
            (Some x, Some y) \<Rightarrow> ((0, None), draw y (off_char y)
               (a\<lparr>blinks := change_blink (ucast arg) (sync_node x y) (blinks a)\<rparr>))
          | _ \<Rightarrow> ((-1, None), a))
     | Tasklet \<Rightarrow> ((0, None), (fold draw_expired (blinks a) a)\<lparr>blinks := map tick (blinks a)\<rparr>))"

text \<open>The driver's state represents a specification state: the list is free of cycles and its nodes are those in use.\<close>

definition represents :: "nat list \<Rightarrow> blink_spec \<Rightarrow> blink_state \<Rightarrow> bool" where
  "represents xs a st \<longleftrightarrow> length (blink_array st) = 80 * 25 \<and> chain (blink_array st) (mp1_list_head st) xs \<and> distinct xs
     \<and> (\<forall>i < 80 * 25. location (blink_array st ! i) = 0 \<longleftrightarrow> i \<notin> set xs)
     \<and> blinks a = map (\<lambda>i. unlink (blink_array st ! i)) xs
     \<and> picture_base a = vmem_base_addr st \<and> picture a = vmem st"

definition blink_rel :: "blink_spec \<Rightarrow> blink_state \<Rightarrow> bool" where
  "blink_rel a st \<longleftrightarrow> (\<exists>xs. represents xs a st)"

text \<open>Structures for location 0 are excluded: such a node counts as free.\<close>

definition legal_call :: "blink_call \<Rightarrow> bool" where
  "legal_call c = (case c of RTC_ADD b \<Rightarrow> location b \<noteq> 0 | _ \<Rightarrow> True)"


section \<open>The driver implements the specification\<close>

lemma sync_char_off: "sync_char b = off_char b"
proof -
  have "ucast (status b) AND 1 = (0 :: byte) \<or> ucast (status b) AND 1 = (1 :: byte)" by (simp add: and_one_eq mod_2_eq_odd)
  then show ?thesis by (auto simp: sync_char_def)
qed

lemma find_loop_chain:
  "chain (blink_array st) p xs \<Longrightarrow> find_loop ax st p = Some (find (\<lambda>i. location (blink_array st ! i) = ax) xs)"
  by (induction xs arbitrary: p) (subst find_loop.simps, simp)+

lemma find_helper_find:
  assumes "represents xs a st"
  shows "mp1_find_helper arg st = Some (find (\<lambda>i. location (blink_array st ! i) = ucast arg) xs)"
    and "find_blink loc a = map_option (\<lambda>i. unlink (blink_array st ! i)) (find (\<lambda>i. location (blink_array st ! i) = loc) xs)"
proof -
  show "mp1_find_helper arg st = Some (find (\<lambda>i. location (blink_array st ! i) = ucast arg) xs)"
    using assms by (simp add: mp1_find_helper_def represents_def find_loop_chain)
  have "find (\<lambda>b. location b = loc) (map (\<lambda>i. unlink (blink_array st ! i)) xs)
      = map_option (\<lambda>i. unlink (blink_array st ! i)) (find (\<lambda>i. location (blink_array st ! i) = loc) xs)" for xs
    by (induction xs) (auto simp: unlink_def)
  then show "find_blink loc a = map_option (\<lambda>i. unlink (blink_array st ! i)) (find (\<lambda>i. location (blink_array st ! i) = loc) xs)"
    using assms by (simp add: find_blink_def represents_def)
qed

text \<open>Changing one node in place.\<close>

lemma represents_range: "represents xs a st \<Longrightarrow> i \<in> set xs \<Longrightarrow> i < length (blink_array st) \<and> location (blink_array st ! i) \<noteq> 0"
  unfolding represents_def by (metis chain_in_range)

lemma represents_change:
  assumes "represents xs a st" and "i \<in> set xs" and "next_ptr b = next_ptr (blink_array st ! i)"
    and "location b = location (blink_array st ! i)"
  shows "represents xs (a\<lparr>blinks := map (\<lambda>j. if j = i then unlink b else unlink (blink_array st ! j)) xs\<rparr>) (set_node i b st)"
proof -
  have "i < length (blink_array st)" using represents_range [OF assms(1,2)] by simp
  then show ?thesis using assms chain_same_link
    by (auto simp: represents_def set_node_def nth_list_update)
qed

lemma represents_poke:
  "represents xs a st \<Longrightarrow> represents xs (draw b c a) (mp1_poke (cell_offset b) c st)"
  by (simp add: represents_def draw_def mp1_poke_def)


text \<open>Adding a node: the first free node is not in the list.\<close>

lemma malloc_free:
  assumes "represents xs a st"
  shows "mp1_malloc st = None \<longleftrightarrow> 2000 \<le> length (blinks a)"
    and "mp1_malloc st = Some i \<Longrightarrow> i < 80 * 25 \<and> i \<notin> set xs"
proof -
  have l: "\<forall>i < 80 * 25. location (blink_array st ! i) = 0 \<longleftrightarrow> i \<notin> set xs" "distinct xs" "length (blinks a) = length xs"
    and sub: "set xs \<subseteq> {..<2000}"
    using assms represents_range [OF assms] by (auto simp: represents_def)
  have "mp1_malloc st = None \<longleftrightarrow> {..<2000} \<subseteq> set xs"
    using l(1) by (auto simp: mp1_malloc_def find_None_iff simp del: upt_rec_numeral)
  also have "\<dots> \<longleftrightarrow> 2000 \<le> card (set xs)"
    using sub by (metis card_lessThan card_mono card_seteq finite_lessThan List.finite_set order_refl subset_antisym)
  finally show "mp1_malloc st = None \<longleftrightarrow> 2000 \<le> length (blinks a)" using l by (simp add: distinct_card)
  show "i < 80 * 25 \<and> i \<notin> set xs" if "mp1_malloc st = Some i"
    using that l(1) by (auto simp: mp1_malloc_def find_Some_iff simp del: upt_rec_numeral)
qed

lemma add_represents:
  assumes "represents xs a st" and "location b \<noteq> 0"
  shows "\<exists>st'. mp1_ioctl (RTC_ADD b) st = Some (fst (spec_call (RTC_ADD b) a), st') \<and> blink_rel (snd (spec_call (RTC_ADD b) a)) st'"
proof (cases "2000 \<le> location b \<or> mp1_malloc st = None")
  case True
  then show ?thesis using assms(1) malloc_free(1) [OF assms(1)]
    by (auto simp: mp1_ioctl_def mp1_ioctl_add_def spec_call_def blink_rel_def)
next
  case False
  then obtain i where i: "mp1_malloc st = Some i" by auto
  let ?b = "b\<lparr>status := 1, countdown := on_length b\<rparr>"
  let ?st = "(set_node i (?b\<lparr>next_ptr := mp1_list_head st\<rparr>) st)\<lparr>mp1_list_head := Some i\<rparr>"
  let ?a = "a\<lparr>blinks := unlink ?b # blinks a\<rparr>"
  have f: "i < 80 * 25" "i \<notin> set xs" using malloc_free(2) [OF assms(1) i] by auto
  have "represents (i # xs) ?a ?st"
    using assms f chain_other by (auto simp: represents_def set_node_def unlink_def nth_list_update)
  then have "represents (i # xs) (draw ?b (on_char b) ?a) (mp1_poke (cell_offset ?b) (on_char b) ?st)" by (rule represents_poke)
  moreover have "draw ?b (on_char b) ?a = snd (spec_call (RTC_ADD b) a)"
    using False malloc_free(1) [OF assms(1)] by (simp add: spec_call_def draw_def unlink_def cell_offset_def)
  ultimately show ?thesis using False i malloc_free(1) [OF assms(1)]
    by (auto simp: mp1_ioctl_def mp1_ioctl_add_def spec_call_def blink_rel_def Let_def)
qed


text \<open>Removing a node: the search ends at the link that points to it.\<close>

lemma remove_find_prev_chain:
  assumes "chain (blink_array st) (link_get l st) (us @ i # vs)" and "i \<notin> set us"
  shows "remove_find_prev i st l = Some (if us = [] then l else Next_of (last us))"
  using assms
proof (induction us arbitrary: l)
  case Nil
  then show ?case by (subst remove_find_prev.simps) simp
next
  case (Cons u us)
  then have "chain (blink_array st) (link_get (Next_of u) st) (us @ i # vs)" by (simp add: link_get_def)
  then have "remove_find_prev i st (Next_of u) = Some (if us = [] then Next_of u else Next_of (last us))"
    using Cons by auto
  then show ?case using Cons.prems by (subst remove_find_prev.simps) auto
qed

lemma remove_blink_map:
  assumes "find (\<lambda>i. location (arr ! i) = loc) xs = Some i"
  shows "remove_blink loc (map (\<lambda>i. unlink (arr ! i)) xs) = map (\<lambda>i. unlink (arr ! i)) (remove1 i xs)"
proof -
  have "location (arr ! i) = loc" using assms by (auto simp: find_Some_iff)
  then show ?thesis using assms by (induction xs) (auto simp: unlink_def split: if_splits)
qed

lemma unlink_relinked: "unlink (arr[j := (arr ! j)\<lparr>next_ptr := p\<rparr>] ! k) = unlink (arr ! k)"
  by (cases "j < length arr"; cases "k = j") (simp_all add: unlink_def list_update_beyond not_less)

lemma unlink_chain:
  assumes r: "represents (us @ i # vs) a st"
  defines "st' \<equiv> link_set (if us = [] then Head else Next_of (last us)) (next_ptr (blink_array st ! i)) st"
  shows "represents (us @ vs) (a\<lparr>blinks := map (\<lambda>j. unlink (blink_array st ! j)) (us @ vs)\<rparr>) (mp1_free i st')"
proof -
  let ?arr = "blink_array st"
  have d: "distinct (us @ i # vs)" and c: "chain ?arr (mp1_list_head st) (us @ i # vs)"
    and f: "\<And>j. j < 2000 \<Longrightarrow> location (?arr ! j) = 0 \<longleftrightarrow> j \<notin> set (us @ i # vs)"
    and len: "length ?arr = 2000"
    using r by (auto simp: represents_def)
  have "\<exists>arr. blink_array st' = arr \<and> length arr = length ?arr \<and> chain arr (mp1_list_head st') (us @ vs)
      \<and> (\<forall>j. unlink (arr ! j) = unlink (?arr ! j))"
  proof (cases us rule: rev_cases)
    case Nil
    then show ?thesis using c by (simp add: st'_def link_set_def)
  next
    case (snoc ws j)
    have "chain (?arr[j := (?arr ! j)\<lparr>next_ptr := next_ptr (?arr ! i)\<rparr>]) (mp1_list_head st) (ws @ j # vs)"
      using c d snoc by (intro chain_bypass) auto
    then show ?thesis using snoc by (auto simp: st'_def link_set_def set_node_def unlink_relinked)
  qed
  then obtain arr where a: "blink_array st' = arr" "length arr = length ?arr" "chain arr (mp1_list_head st') (us @ vs)"
    and u: "\<And>j. unlink (arr ! j) = unlink (?arr ! j)" by blast
  have loc: "location (arr ! j) = location (?arr ! j)" for j
    using arg_cong [OF u [of j], of location] by (simp add: unlink_def)
  have "vmem_base_addr st' = vmem_base_addr st" "vmem st' = vmem st"
    by (simp_all add: st'_def link_set_def set_node_def split: link.split)
  moreover have "chain (arr[i := zero_blink]) (mp1_list_head st') (us @ vs)" using a(3) d by (intro chain_other) auto
  moreover have "location (arr[i := zero_blink] ! j) = 0 \<longleftrightarrow> j \<notin> set (us @ vs)" if "j < 2000" for j
    using that f [OF that] d a(2) len by (cases "j = i") (auto simp: nth_list_update loc zero_blink_def)
  moreover have "unlink (arr[i := zero_blink] ! j) = unlink (?arr ! j)" if "j \<in> set (us @ vs)" for j
    using that d u by (metis distinct_append distinct.simps(2) nth_list_update_neq set_append Un_iff disjoint_iff list.set_intros(1))
  ultimately show ?thesis using a(1,2) d len r by (simp add: represents_def mp1_free_def set_node_def)
qed

lemma remove_represents:
  assumes "represents xs a st"
  shows "\<exists>st'. mp1_ioctl (RTC_REMOVE arg) st = Some (fst (spec_call (RTC_REMOVE arg) a), st')
    \<and> blink_rel (snd (spec_call (RTC_REMOVE arg) a)) st'"
proof (cases "find (\<lambda>i. location (blink_array st ! i) = ucast arg) xs")
  case None
  then show ?thesis using assms find_helper_find [OF assms]
    by (auto simp: mp1_ioctl_def mp1_ioctl_remove_def spec_call_def blink_rel_def)
next
  case (Some i)
  then have "i \<in> set xs" by (auto simp: find_Some_iff)
  then obtain us vs where xs: "xs = us @ i # vs" by (auto simp: in_set_conv_decomp)
  have u: "i \<notin> set us" "chain (blink_array st) (link_get Head st) (us @ i # vs)" "blinks a = map (\<lambda>i. unlink (blink_array st ! i)) xs"
    using assms xs by (auto simp: represents_def link_get_def)
  have "remove1 i xs = us @ vs" using u(1) xs by (simp add: remove1_append)
  then have "snd (spec_call (RTC_REMOVE arg) a) = a\<lparr>blinks := map (\<lambda>j. unlink (blink_array st ! j)) (us @ vs)\<rparr>"
    using Some find_helper_find(2) [OF assms] remove_blink_map [OF Some] u(3) by (simp add: spec_call_def)
  moreover note unlink_chain [OF assms [unfolded xs]]
  ultimately show ?thesis
    using Some find_helper_find [OF assms] remove_find_prev_chain [OF u(2,1)]
    by (auto simp: mp1_ioctl_def mp1_ioctl_remove_def spec_call_def blink_rel_def)
qed


text \<open>Copying the phase of a node.\<close>

lemma change_blink_map:
  assumes "find (\<lambda>i. location (arr ! i) = loc) xs = Some i" and "distinct xs"
  shows "change_blink loc c (map (\<lambda>i. unlink (arr ! i)) xs) = map (\<lambda>j. if j = i then c else unlink (arr ! j)) xs"
proof -
  have "location (arr ! i) = loc" using assms(1) by (auto simp: find_Some_iff)
  then show ?thesis using assms by (induction xs) (auto simp: unlink_def split: if_splits)
qed

lemma sync_represents:
  assumes "represents xs a st"
  shows "\<exists>st'. mp1_ioctl (RTC_SYNC arg) st = Some (fst (spec_call (RTC_SYNC arg) a), st')
    \<and> blink_rel (snd (spec_call (RTC_SYNC arg) a)) st'"
proof -
  let ?f = "\<lambda>loc. find (\<lambda>i. location (blink_array st ! i) = loc) xs"
  have low: "ucast (arg AND 0xFFFF) = (ucast arg :: u16)" 
  proof -
    have "arg AND 0xFFFF = take_bit 16 arg" by (simp add: take_bit_eq_mask mask_eq_exp_minus_1)
    then show ?thesis by (auto simp: bit_simps intro: bit_word_eqI)
  qed
  show ?thesis
  proof (cases "?f (ucast (drop_bit 16 arg)) = None \<or> ?f (ucast arg) = None")
    case True
    then show ?thesis using assms find_helper_find [OF assms] low
      by (auto simp: mp1_ioctl_def mp1_ioctl_sync_def spec_call_def blink_rel_def split: option.splits)
  next
    case False
    then obtain i j where ij: "?f (ucast (drop_bit 16 arg)) = Some i" "?f (ucast arg) = Some j" by auto
    let ?x = "blink_array st ! i" and ?y = "blink_array st ! j"
    let ?b = "sync_node ?x ?y"
    have j: "j \<in> set xs" using ij(2) by (auto simp: find_Some_iff)
    have "distinct xs" "blinks a = map (\<lambda>i. unlink (blink_array st ! i)) xs" using assms by (auto simp: represents_def)
    then have "snd (spec_call (RTC_SYNC arg) a)
        = draw ?b (sync_char ?b) (a\<lparr>blinks := map (\<lambda>k. if k = j then unlink ?b else unlink (blink_array st ! k)) xs\<rparr>)"
      using ij find_helper_find(2) [OF assms] change_blink_map [OF ij(2)]
      by (simp add: spec_call_def sync_char_off draw_def unlink_def sync_node_def cell_offset_def)
    moreover have "represents xs (draw ?b (sync_char ?b) (a\<lparr>blinks := map (\<lambda>k. if k = j then unlink ?b else unlink (blink_array st ! k)) xs\<rparr>))
        (mp1_poke (cell_offset ?b) (sync_char ?b) (set_node j ?b st))"
      by (intro represents_poke represents_change [OF assms j]) (simp_all add: sync_node_def)
    ultimately show ?thesis using ij find_helper_find [OF assms] low
      by (auto simp: mp1_ioctl_def mp1_ioctl_sync_def spec_call_def blink_rel_def Let_def)
  qed
qed

text \<open>The tasklet visits every node once.\<close>

lemma tick_node_links: "next_ptr (blink_array (tick_node i st) ! j) = next_ptr (blink_array st ! j)"
  by (cases "i < length (blink_array st)"; cases "i = j") (simp_all add: tick_node_def Let_def set_node_def mp1_poke_def list_update_beyond not_less)

lemma tick_node_length: "length (blink_array (tick_node i st)) = length (blink_array st)"
  by (simp add: tick_node_def Let_def set_node_def mp1_poke_def)

lemma tasklet_loop_chain:
  "chain (blink_array st) p ys \<Longrightarrow> tasklet_loop p st = Some (fold tick_node ys st)"
proof (induction ys arbitrary: p st)
  case Nil
  then show ?case by (subst tasklet_loop.simps) simp
next
  case (Cons y ys)
  have "chain (blink_array (tick_node y st)) (next_ptr (blink_array st ! y)) ys"
    using Cons.prems by (auto intro: chain_cong simp: tick_node_links tick_node_length)
  then show ?case using Cons by (subst tasklet_loop.simps) (simp add: tick_node_links)
qed

lemma tick_unlink: "unlink (tick b) = tick (unlink b)" "expired (unlink b) = expired b" "other_char (unlink b) = other_char b"
    "cell_offset (unlink b) = cell_offset b"
  by (simp_all add: unlink_def tick_def expired_def other_char_def cell_offset_def)

lemma tick_node_tick:
  "tick_node i st = set_node i (tick (blink_array st ! i))
     (if expired (blink_array st ! i)
      then mp1_poke (cell_offset (blink_array st ! i)) (other_char (blink_array st ! i)) st else st)"
  by (simp add: tick_node_def tick_def expired_def other_char_def cell_offset_def Let_def not_less)


lemma tick_represents:
  assumes "represents xs a st" and "i \<in> set xs"
  shows "represents xs (draw_expired (unlink (blink_array st ! i))
      (a\<lparr>blinks := map (\<lambda>j. if j = i then tick (unlink (blink_array st ! i)) else unlink (blink_array st ! j)) xs\<rparr>)) (tick_node i st)"
proof -
  let ?b = "blink_array st ! i"
  have c: "represents xs (a\<lparr>blinks := map (\<lambda>j. if j = i then unlink (tick ?b) else unlink (blink_array st ! j)) xs\<rparr>)
      (set_node i (tick ?b) st)"
    by (rule represents_change [OF assms]) (simp_all add: tick_def)
  show ?thesis
  proof (cases "expired ?b")
    case True
    have "tick_node i st = mp1_poke (cell_offset (unlink ?b)) (other_char ?b) (set_node i (tick ?b) st)"
      using True by (simp add: tick_node_tick tick_unlink set_node_def mp1_poke_def)
    then show ?thesis using represents_poke [OF c, of "unlink ?b" "other_char ?b"] True
      by (simp add: draw_expired_def tick_unlink cong: if_cong)
  next
    case False
    then show ?thesis using c by (simp add: tick_node_tick draw_expired_def tick_unlink cong: if_cong)
  qed
qed

lemma draw_expired_blinks: "draw_expired b (a\<lparr>blinks := bs\<rparr>) = (draw_expired b a)\<lparr>blinks := bs\<rparr>"
  by (simp add: draw_expired_def draw_def)

lemma ticks_represent:
  assumes "represents xs a st"
  shows "set ys \<subseteq> set xs \<Longrightarrow> distinct ys \<Longrightarrow>
    represents xs ((fold draw_expired (map (\<lambda>j. unlink (blink_array st ! j)) ys) a)
      \<lparr>blinks := map (\<lambda>j. if j \<in> set ys then tick (unlink (blink_array st ! j)) else unlink (blink_array st ! j)) xs\<rparr>)
      (fold tick_node ys st)"
proof (induction ys rule: rev_induct)
  case Nil
  have "a\<lparr>blinks := map (\<lambda>j. unlink (blink_array st ! j)) xs\<rparr> = a" using assms by (simp add: represents_def)
  then show ?case using assms by simp
next
  case (snoc y ys)
  let ?u = "\<lambda>j. unlink (blink_array st ! j)" and ?st = "fold tick_node ys st"
  let ?a = "(fold draw_expired (map ?u ys) a)\<lparr>blinks := map (\<lambda>j. if j \<in> set ys then tick (?u j) else ?u j) xs\<rparr>"
  have y: "y \<in> set xs" "y \<notin> set ys" and r: "represents xs ?a ?st" using snoc by auto
  then have "map (\<lambda>j. if j \<in> set ys then tick (?u j) else ?u j) xs = map (\<lambda>j. unlink (blink_array ?st ! j)) xs"
    by (simp add: represents_def)
  then have u: "unlink (blink_array ?st ! j) = (if j \<in> set ys then tick (?u j) else ?u j)" if "j \<in> set xs" for j
    using that by (simp add: map_eq_conv)
  have e: "map (\<lambda>j. if j = y then tick (unlink (blink_array ?st ! y)) else unlink (blink_array ?st ! j)) xs
      = map (\<lambda>j. if j \<in> set (ys @ [y]) then tick (?u j) else ?u j) xs"
    using u y by (auto simp: map_eq_conv)
  have "unlink (blink_array ?st ! y) = ?u y" using u [OF y(1)] y(2) by simp
  then show ?case using tick_represents [OF r y(1)] unfolding e by (simp add: draw_expired_blinks)
qed

lemma tasklet_represents:
  assumes "represents xs a st"
  shows "\<exists>st'. mp1_ioctl Tasklet st = Some (fst (spec_call Tasklet a), st') \<and> blink_rel (snd (spec_call Tasklet a)) st'"
proof -
  have c: "chain (blink_array st) (mp1_list_head st) xs" "distinct xs" "blinks a = map (\<lambda>i. unlink (blink_array st ! i)) xs"
    using assms by (auto simp: represents_def)
  have eq: "map (\<lambda>j. if j \<in> set xs then tick (unlink (blink_array st ! j)) else unlink (blink_array st ! j)) xs
      = map tick (blinks a)" using c(3) by simp
  have "represents xs (snd (spec_call Tasklet a)) (fold tick_node xs st)"
    using ticks_represent [OF assms subset_refl c(2)] unfolding eq c(3) [symmetric] by (simp add: spec_call_def)
  then show ?thesis using tasklet_loop_chain [OF c(1)]
    by (auto simp: mp1_ioctl_def mp1_rtc_tasklet_def spec_call_def blink_rel_def)
qed

section \<open>Sequences of calls\<close>

primrec run_calls :: "('c \<Rightarrow> 's \<Rightarrow> ('r \<times> 's) option) \<Rightarrow> 'c list \<Rightarrow> 's \<Rightarrow> ('r list \<times> 's) option" where
  "run_calls call [] s = Some ([], s)"
| "run_calls call (c # cs) s = do { (r, s) \<leftarrow> call c s; (rs, s) \<leftarrow> run_calls call cs s; Some (r # rs, s) }"

primrec run_spec :: "('c \<Rightarrow> 'a \<Rightarrow> 'r \<times> 'a) \<Rightarrow> 'c list \<Rightarrow> 'a \<Rightarrow> 'r list \<times> 'a" where
  "run_spec call [] a = ([], a)"
| "run_spec call (c # cs) a = (fst (call c a) # fst (run_spec call cs (snd (call c a))), snd (run_spec call cs (snd (call c a))))"

text \<open>A device whose calls return and follow a specification does so over any sequence of calls.\<close>

locale device =
  fixes call :: "'c \<Rightarrow> 's \<Rightarrow> ('r \<times> 's) option" and spec :: "'c \<Rightarrow> 'a \<Rightarrow> 'r \<times> 'a"
    and rel :: "'a \<Rightarrow> 's \<Rightarrow> bool" and legal :: "'c \<Rightarrow> bool" and seen :: "'r \<Rightarrow> 'r"
  assumes call_spec: "rel a s \<Longrightarrow> legal c \<Longrightarrow> \<exists>r s'. call c s = Some (r, s') \<and> seen r = fst (spec c a) \<and> rel (snd (spec c a)) s'"
begin

lemma run_calls_spec:
  "rel a s \<Longrightarrow> list_all legal cs \<Longrightarrow>
   \<exists>rs s'. run_calls call cs s = Some (rs, s') \<and> map seen rs = fst (run_spec spec cs a) \<and> rel (snd (run_spec spec cs a)) s'"
proof (induction cs arbitrary: a s)
  case (Cons c cs)
  then obtain r t where "call c s = Some (r, t)" "seen r = fst (spec c a)" "rel (snd (spec c a)) t"
    using call_spec [of a s c] by auto
  moreover from this Cons obtain rs u where "run_calls call cs t = Some (rs, u)"
      "map seen rs = fst (run_spec spec cs (snd (spec c a)))" "rel (snd (run_spec spec cs (snd (spec c a)))) u"
    by fastforce
  ultimately show ?case by auto
qed simp

end

text \<open>The links of a node mean nothing to the caller.\<close>

definition reply_seen :: "blink_reply \<Rightarrow> blink_reply" where
  "reply_seen r = (fst r, map_option unlink (snd r))"

lemma find_represents:
  assumes "represents xs a st"
  shows "\<exists>r. mp1_ioctl (RTC_FIND loc) st = Some (r, st) \<and> reply_seen r = fst (spec_call (RTC_FIND loc) a)
    \<and> snd (spec_call (RTC_FIND loc) a) = a"
proof -
  have "ucast (ucast loc :: u32) = loc" by (rule bit_word_eqI) (simp add: bit_simps)
  then show ?thesis using find_helper_find [OF assms]
    by (cases "find (\<lambda>i. location (blink_array st ! i) = loc) xs")
      (auto simp: mp1_ioctl_def mp1_ioctl_find_def spec_call_def reply_seen_def)
qed

interpretation blink: device mp1_ioctl spec_call blink_rel legal_call reply_seen
proof
  fix a st c
  assume rel: "blink_rel a st" and l: "legal_call c"
  then obtain xs where r: "represents xs a st" by (auto simp: blink_rel_def)
  have seen: "snd q = None \<Longrightarrow> reply_seen q = q" for q by (cases q) (simp add: reply_seen_def)
  show "\<exists>r st'. mp1_ioctl c st = Some (r, st') \<and> reply_seen r = fst (spec_call c a) \<and> blink_rel (snd (spec_call c a)) st'"
  proof (cases c)
    case (RTC_ADD b)
    then have "location b \<noteq> 0" using l by (simp add: legal_call_def)
    then show ?thesis using add_represents [OF r, of b] RTC_ADD seen [of "fst (spec_call c a)"]
      by (auto simp: spec_call_def split: if_splits)
  next
    case (RTC_REMOVE arg)
    then show ?thesis using remove_represents [OF r, of arg] seen [of "fst (spec_call c a)"]
      by (auto simp: spec_call_def split: option.splits)
  next
    case (RTC_FIND loc)
    then show ?thesis using find_represents [OF r, of loc] rel by metis
  next
    case (RTC_SYNC arg)
    then show ?thesis using sync_represents [OF r, of arg] seen [of "fst (spec_call c a)"]
      by (auto simp: spec_call_def split: option.splits)
  next
    case Tasklet
    then show ?thesis using tasklet_represents [OF r] seen [of "fst (spec_call c a)"] by (auto simp: spec_call_def)
  qed
qed


section \<open>Properties\<close>

definition blink_init :: "addr \<Rightarrow> mem \<Rightarrow> blink_state" where
  "blink_init base M = \<lparr>blink_array = replicate (80 * 25) zero_blink, mp1_list_head = None, vmem_base_addr = base, vmem = M\<rparr>"

lemma blink_init_rel: "blink_rel \<lparr>blinks = [], picture_base = base, picture = M\<rparr> (blink_init base M)"
proof -
  have "represents [] \<lparr>blinks = [], picture_base = base, picture = M\<rparr> (blink_init base M)"
    by (simp add: represents_def blink_init_def zero_blink_def)
  then show ?thesis unfolding blink_rel_def by blast
qed

text \<open>C28: The blink driver of \<open>fish\<close> implements a list of blinking characters: starting from the cleared node array, any sequence of additions (at locations other than 0), removals, searches, synchronisations and clock ticks returns, gives the replies of the specification, and leaves a linked list without cycles that holds the specification's characters, with the screen the specification describes.\<close>

theorem blink_driver_refines:
  assumes "list_all legal_call cs"
  shows "\<exists>rs st. run_calls mp1_ioctl cs (blink_init base M) = Some (rs, st)
    \<and> map reply_seen rs = fst (run_spec spec_call cs \<lparr>blinks = [], picture_base = base, picture = M\<rparr>)
    \<and> blink_rel (snd (run_spec spec_call cs \<lparr>blinks = [], picture_base = base, picture = M\<rparr>)) st"
  by (rule blink.run_calls_spec [OF blink_init_rel assms])

theorem blink_driver_refines_witness:
  "\<exists>st. run_calls mp1_ioctl [RTC_ADD (zero_blink\<lparr>location := 540, on_char := 73\<rparr>), Tasklet, RTC_REMOVE 540, RTC_REMOVE 540]
     (blink_init 0 (\<lambda>_. 0)) = Some ([(0, None), (0, None), (0, None), (-1, None)], st)"
proof -
  let ?cs = "[RTC_ADD (zero_blink\<lparr>location := 540, on_char := 73\<rparr>), Tasklet, RTC_REMOVE 540, RTC_REMOVE 540]"
  have "list_all legal_call ?cs" by (simp add: legal_call_def)
  from blink_driver_refines [OF this, of 0 "\<lambda>_. 0"] obtain rs st where
    r: "run_calls mp1_ioctl ?cs (blink_init 0 (\<lambda>_. 0)) = Some (rs, st)"
      "map reply_seen rs = fst (run_spec spec_call ?cs \<lparr>blinks = [], picture_base = 0, picture = \<lambda>_. 0\<rparr>)" by blast
  have "map reply_seen rs = [(0, None), (0, None), (0, None), (-1, None)]"
    using r(2) by (simp add: spec_call_def find_blink_def draw_def tick_def expired_def draw_expired_def zero_blink_def)
  then have "rs = [(0, None), (0, None), (0, None), (-1, None)]"
    by (auto simp: reply_seen_def map_eq_Cons_conv)
  then show ?thesis using r(1) by auto
qed

text \<open>A node that is linked to itself is never left.\<close>

lemma tasklet_self_loop:
  assumes "next_ptr (blink_array st ! i) = Some i"
  shows "tasklet_loop (Some i) st = None"
proof -
  let ?P = "\<lambda>p st (y :: blink_state). \<not> (p = Some i \<and> next_ptr (blink_array st ! i) = Some i)"
  have "?P p st y" if "tasklet_loop p st = Some y" for p st y
  proof (rule tasklet_loop.raw_induct [where P = ?P, OF _ that])
    fix f ebx st y
    assume IH: "\<And>ebx st y. f ebx st = Some y \<Longrightarrow> ?P ebx st y"
      and y: "(case ebx of None \<Rightarrow> Some st | Some i \<Rightarrow> let st = tick_node i st in f (next_ptr (blink_array st ! i)) st) = Some y"
    show "?P ebx st y"
      using y IH [of "Some i" "tick_node i st" y] by (auto simp: Let_def tick_node_links)
  qed
  then show ?thesis using assms by (cases "tasklet_loop (Some i) st") auto
qed

lemma malloc_first: "location (blink_array st ! 0) = 0 \<Longrightarrow> mp1_malloc st = Some 0"
  unfolding mp1_malloc_def by (subst upt_conv_Cons) (simp_all del: upt_rec_numeral upt_Suc)

text \<open>C30: A structure for location 0, the top left corner, breaks the driver: the node counts as free although it is in the list, so the next addition takes the same node, links it to itself, and the next clock tick never returns.\<close>

theorem corner_blink_hangs:
  assumes "location b = 0" and "location c < 2000"
  shows "run_calls mp1_ioctl [RTC_ADD b, RTC_ADD c, Tasklet] (blink_init base M) = None"
proof -
  let ?b = "b\<lparr>status := 1, countdown := on_length b, next_ptr := None\<rparr>"
  let ?arr = "(replicate 2000 zero_blink)[0 := ?b]"
  let ?c = "c\<lparr>status := 1, countdown := on_length c, next_ptr := Some 0\<rparr>"
  have z: "location (replicate 2000 zero_blink ! 0) = 0" by (simp add: zero_blink_def)
  have "\<exists>M'. mp1_ioctl_add b (blink_init base M)
      = (0, \<lparr>blink_array = ?arr, mp1_list_head = Some 0, vmem_base_addr = base, vmem = M'\<rparr>)"
    using assms(1) z by (simp add: mp1_ioctl_add_def blink_init_def malloc_first set_node_def mp1_poke_def Let_def)
  then obtain M' where 1: "mp1_ioctl_add b (blink_init base M)
      = (0, \<lparr>blink_array = ?arr, mp1_list_head = Some 0, vmem_base_addr = base, vmem = M'\<rparr>)" ..
  let ?st = "\<lparr>blink_array = ?arr, mp1_list_head = Some 0, vmem_base_addr = base, vmem = M'\<rparr>"
  have "location (?arr ! 0) = 0" using assms(1) by (subst nth_list_update_eq) simp_all
  then have m: "mp1_malloc ?st = Some 0" by (intro malloc_first) simp
  have "\<exists>M''. mp1_ioctl_add c ?st = (0, \<lparr>blink_array = ?arr[0 := ?c], mp1_list_head = Some 0, vmem_base_addr = base, vmem = M''\<rparr>)"
    using assms(2) m by (simp add: mp1_ioctl_add_def set_node_def mp1_poke_def Let_def not_le [symmetric])
  then obtain M'' where 2: "mp1_ioctl_add c ?st
      = (0, \<lparr>blink_array = ?arr[0 := ?c], mp1_list_head = Some 0, vmem_base_addr = base, vmem = M''\<rparr>)" ..
  have "next_ptr (?arr[0 := ?c] ! 0) = Some 0" by (subst nth_list_update_eq) simp_all
  then show ?thesis using 1 2 by (simp add: mp1_ioctl_def mp1_rtc_tasklet_def tasklet_self_loop)
qed

theorem corner_blink_hangs_witness:
  "run_calls mp1_ioctl [RTC_ADD zero_blink, RTC_ADD (zero_blink\<lparr>location := 1\<rparr>), Tasklet] (blink_init 0 (\<lambda>_. 0)) = None"
  using corner_blink_hangs [of zero_blink "zero_blink\<lparr>location := 1\<rparr>" 0 "\<lambda>_. 0"] by (simp add: zero_blink_def)

end
