(* ===== verification/User_Fish.thy ===== *)
theory User_Fish
  imports Blink Filesystem
begin

text \<open>
  The user program \<open>fish\<close> (\<^verbatim>\<open>fish/fish.c\<close>): two text files are the two phases of an animation; every character that
  is not blank in one of them becomes a blinking character of the driver. The program's own memory is a \<open>blink_state\<close>,
  the state of the system calls has type \<open>'w\<close>.
\<close>

section \<open>The frames\<close>

text \<open>The next character of a file, unless its line has ended; the end of the file ends the line.\<close>

definition frame_char :: "'w os \<Rightarrow> int \<Rightarrow> byte \<Rightarrow> bool \<Rightarrow> 'w \<Rightarrow> (byte \<times> bool \<times> 'w) option" where
  "frame_char os fd c eof w =
     (if c \<noteq> 10 then
        Option.bind (os_read os fd 1 w) (\<lambda>(num_bytes, bs, w).
          Some (if num_bytes = 0 then (10, True, w) else (fill 0 bs [c] ! 0, eof, w)))
      else Some (c, eof, w))"

text \<open>The fields that \<open>mp1_ioctl_add\<close> overwrites are not set by the program.\<close>

definition frame_blink :: "u32 \<Rightarrow> u32 \<Rightarrow> byte \<Rightarrow> byte \<Rightarrow> mp1_blink_struct" where
  "frame_blink row col c0 c1 = zero_blink\<lparr>on_length := 15, off_length := 15,
     on_char := (if c0 = 10 then 32 else c0), off_char := (if c1 = 10 then 32 else c1),
     location := ucast (row * 80 + col + 40)\<rparr>"

definition frame_cell :: "u32 \<Rightarrow> u32 \<Rightarrow> byte \<Rightarrow> byte \<Rightarrow> blink_state \<Rightarrow> blink_state" where
  "frame_cell row col c0 c1 st =
     (if (c0 \<noteq> 32 \<and> c0 \<noteq> 10) \<or> (c1 \<noteq> 32 \<and> c1 \<noteq> 10) then snd (mp1_ioctl_add (frame_blink row col c0 c1) st) else st)"

partial_function (option) frame_cols ::
  "'w os \<Rightarrow> int \<Rightarrow> int \<Rightarrow> u32 \<Rightarrow> u32 \<Rightarrow> byte \<Rightarrow> byte \<Rightarrow> bool \<Rightarrow> bool \<Rightarrow> blink_state \<Rightarrow> 'w \<Rightarrow> (bool \<times> bool \<times> blink_state \<times> 'w) option"
where
  "frame_cols os fd0 fd1 row col c0 c1 eof0 eof1 st w =
     Option.bind (frame_char os fd0 c0 eof0 w) (\<lambda>(c0, eof0, w).
     Option.bind (frame_char os fd1 c1 eof1 w) (\<lambda>(c1, eof1, w).
       if c0 = 10 \<and> c1 = 10 then Some (eof0, eof1, st, w)
       else frame_cols os fd0 fd1 row (col + 1) c0 c1 eof0 eof1 (frame_cell row col c0 c1 st) w))"

text \<open>After a row: a file that has ended is closed (in every later row once more) and its lines stay empty.\<close>

definition frame_close :: "'w os \<Rightarrow> int \<Rightarrow> bool \<Rightarrow> 'w \<Rightarrow> (byte \<times> 'w) option" where
  "frame_close os fd eof w = (if eof then map_option (\<lambda>(_, w). (10, w)) (os_close os fd w) else Some (48, w))"

partial_function (option) frame_rows ::
  "'w os \<Rightarrow> int \<Rightarrow> int \<Rightarrow> u32 \<Rightarrow> byte \<Rightarrow> byte \<Rightarrow> bool \<Rightarrow> bool \<Rightarrow> blink_state \<Rightarrow> 'w \<Rightarrow> (blink_state \<times> 'w) option"
where
  "frame_rows os fd0 fd1 row c0 c1 eof0 eof1 st w =
     (if eof0 \<and> eof1 then Some (st, w)
      else
        Option.bind (frame_cols os fd0 fd1 row 0 c0 c1 eof0 eof1 st w) (\<lambda>(eof0, eof1, st, w).
        Option.bind (frame_close os fd0 eof0 w) (\<lambda>(c0, w).
        Option.bind (frame_close os fd1 eof1 w) (\<lambda>(c1, w).
          frame_rows os fd0 fd1 (row + 1) c0 c1 eof0 eof1 st w))))"

text \<open>\<open>Inl\<close> when the program halts because a file cannot be opened.\<close>

definition add_frames :: "'w os \<Rightarrow> byte list \<Rightarrow> byte list \<Rightarrow> blink_state \<Rightarrow> 'w \<Rightarrow> ((int + blink_state) \<times> 'w) option" where
  "add_frames os f0 f1 st w = do {
     (fd0, w) \<leftarrow> os_open os f0 w;
     if fd0 < 0 then Some (Inl 255, w)
     else do {
       (fd1, w) \<leftarrow> os_open os f1 w;
       if fd1 < 0 then Some (Inl 255, w)
       else map_option (\<lambda>(st, w). (Inr st, w)) (frame_rows os fd0 fd1 0 48 48 False False st w)
     }
   }"

section \<open>The program\<close>

definition WAIT :: nat where
  "WAIT = 100"

text \<open>Wait for a tick of the clock and let the characters blink, \<open>n\<close> times.\<close>

primrec fish_ticks :: "'w os \<Rightarrow> int \<Rightarrow> nat \<Rightarrow> blink_state \<Rightarrow> 'w \<Rightarrow> (blink_state \<times> 'w) option" where
  "fish_ticks os rtc_fd 0 st w = Some (st, w)"
| "fish_ticks os rtc_fd (Suc n) st w = do {
     (_, _, w) \<leftarrow> os_read os rtc_fd 4 w;
     st \<leftarrow> mp1_rtc_tasklet st;
     fish_ticks os rtc_fd n st w
   }"

text \<open>
  \<open>vidmap\<close> stores the address of the screen in the program's variable, at the address \<open>vp\<close>; \<open>peek\<close> reads it back.
  No result when the call fails.
\<close>

definition mp1_set_video_mode :: "'w os \<Rightarrow> u32 \<Rightarrow> ('w \<Rightarrow> addr) \<Rightarrow> 'w \<Rightarrow> (addr option \<times> 'w) option" where
  "mp1_set_video_mode os vp peek w = map_option (\<lambda>(r, w). (if r = -1 \<or> peek w = 0 then None else Some (peek w), w)) (os_vidmap os vp w)"

definition fish_blink :: mp1_blink_struct where
  "fish_blink = zero_blink\<lparr>on_char := 73, off_char := 77, on_length := 7, off_length := 6, location := 6 * 80 + 60\<rparr>"

text \<open>The four phases of the show: the frames, a new character, the character in step with another one, the character gone.\<close>

definition fish_show :: "'w os \<Rightarrow> int \<Rightarrow> blink_state \<Rightarrow> 'w \<Rightarrow> (int \<times> 'w) option" where
  "fish_show os rtc_fd st w = do {
     (st, w) \<leftarrow> fish_ticks os rtc_fd WAIT st w;
     let st = snd (mp1_ioctl_add fish_blink st);
     (st, w) \<leftarrow> fish_ticks os rtc_fd WAIT st w;
     (_, st) \<leftarrow> mp1_ioctl_sync (push_bit 16 40 OR (6 * 80 + 60)) st;
     (st, w) \<leftarrow> fish_ticks os rtc_fd WAIT st w;
     (_, st) \<leftarrow> mp1_ioctl_remove (6 * 80 + 60) st;
     (st, w) \<leftarrow> fish_ticks os rtc_fd WAIT st w;
     (_, w) \<leftarrow> os_close os rtc_fd w;
     Some (0, w)
   }"

definition fish_main :: "'w os \<Rightarrow> u32 \<Rightarrow> ('w \<Rightarrow> addr) \<Rightarrow> mem \<Rightarrow> 'w \<Rightarrow> (int \<times> 'w) option" where
  "fish_main os vp peek screen w = do {
     (mode, w) \<leftarrow> mp1_set_video_mode os vp peek w;
     case mode of None \<Rightarrow> Some (-1, w)
     | Some base \<Rightarrow> do {
         (rtc_fd, w) \<leftarrow> os_open os (ascii ''rtc'') w;
         (r, w) \<leftarrow> add_frames os (ascii ''frame0.txt'') (ascii ''frame1.txt'') (blink_init base screen) w;
         case r of Inl rc \<Rightarrow> Some (rc, w)
         | Inr st \<Rightarrow> do {
             (_, w) \<leftarrow> os_write os rtc_fd [32, 0, 0, 0] w;
             fish_show os rtc_fd st w
           }
       }
   }"


section \<open>What the frames draw\<close>

text \<open>
  The specification reads the files line by line: two lines with the same number, the shorter one continued by
  blanks, give a blinking character for each column where one of them is not blank.
\<close>

definition cell_blinks :: "u32 \<Rightarrow> u32 \<Rightarrow> byte \<Rightarrow> byte \<Rightarrow> mp1_blink_struct list" where
  "cell_blinks row col c0 c1 = (if (c0 \<noteq> 32 \<and> c0 \<noteq> 10) \<or> (c1 \<noteq> 32 \<and> c1 \<noteq> 10) then [frame_blink row col c0 c1] else [])"

fun row_blinks :: "u32 \<Rightarrow> u32 \<Rightarrow> byte list \<Rightarrow> byte list \<Rightarrow> mp1_blink_struct list" where
  "row_blinks row col [] [] = []"
| "row_blinks row col (x # xs) [] = cell_blinks row col x 10 @ row_blinks row (col + 1) xs []"
| "row_blinks row col [] (y # ys) = cell_blinks row col 10 y @ row_blinks row (col + 1) [] ys"
| "row_blinks row col (x # xs) (y # ys) = cell_blinks row col x y @ row_blinks row (col + 1) xs ys"

definition first_line :: "byte list \<Rightarrow> byte list" where
  "first_line cs = takeWhile (\<lambda>c. c \<noteq> 10) cs"

definition other_lines :: "byte list \<Rightarrow> byte list" where
  "other_lines cs = drop (Suc (length (first_line cs))) cs"

text \<open>\<open>None\<close> for a file that has ended.\<close>

definition line_of :: "byte list option \<Rightarrow> byte list" where
  "line_of f = (case f of None \<Rightarrow> [] | Some cs \<Rightarrow> first_line cs)"

definition lines_after :: "byte list option \<Rightarrow> byte list option" where
  "lines_after f = (case f of None \<Rightarrow> None | Some cs \<Rightarrow> if 10 \<in> set cs then Some (other_lines cs) else None)"

definition file_size :: "byte list option \<Rightarrow> nat" where
  "file_size f = (case f of None \<Rightarrow> 0 | Some cs \<Rightarrow> Suc (length cs))"

lemma lines_after_size: "file_size (lines_after f) \<le> file_size f" "f \<noteq> None \<Longrightarrow> file_size (lines_after f) < file_size f"
proof -
  have "cs \<noteq> []" if "10 \<in> set cs" for cs :: "byte list" using that by auto
  then show "file_size (lines_after f) \<le> file_size f" "f \<noteq> None \<Longrightarrow> file_size (lines_after f) < file_size f"
    by (auto simp: file_size_def lines_after_def other_lines_def split: option.split)
qed

function frame_blinks :: "u32 \<Rightarrow> byte list option \<Rightarrow> byte list option \<Rightarrow> mp1_blink_struct list" where
  "frame_blinks row f0 f1 =
     (if f0 = None \<and> f1 = None then []
      else row_blinks row 0 (line_of f0) (line_of f1) @ frame_blinks (row + 1) (lines_after f0) (lines_after f1))"
  by pat_completeness auto
termination
proof (relation "measure (\<lambda>(row, f0, f1). file_size f0 + file_size f1)")
  fix row :: u32 and f0 f1 :: "byte list option"
  assume "\<not> (f0 = None \<and> f1 = None)"
  then show "((row + 1, lines_after f0, lines_after f1), row, f0, f1) \<in> measure (\<lambda>(row, f0, f1). file_size f0 + file_size f1)"
    using lines_after_size [of f0] lines_after_size [of f1] by auto
qed simp

declare frame_blinks.simps [simp del]

definition add_blink :: "mp1_blink_struct \<Rightarrow> blink_state \<Rightarrow> blink_state" where
  "add_blink b st = snd (mp1_ioctl_add b st)"

lemma frame_cell_blinks: "frame_cell row col c0 c1 st = fold add_blink (cell_blinks row col c0 c1) st"
  by (simp add: frame_cell_def cell_blinks_def add_blink_def)

section \<open>The frames on open files\<close>

text \<open>System calls on two open files that are read by \<open>rd\<close>.\<close>

definition two_files :: "('s \<Rightarrow> int \<times> byte list \<times> 's) \<Rightarrow> byte list \<Rightarrow> ('s \<times> 's) os" where
  "two_files rd f0 = \<lparr>
     os_execute = (\<lambda>_ _. None),
     os_read = (\<lambda>fd n (s0, s1). if n \<noteq> 1 then None
       else if fd = 2 then Some (fst (rd s0), fst (snd (rd s0)), (snd (snd (rd s0)), s1))
       else Some (fst (rd s1), fst (snd (rd s1)), (s0, snd (snd (rd s1))))),
     os_write = (\<lambda>_ _ _. None),
     os_open = (\<lambda>name w. Some (if name = f0 then 2 else 3, w)),
     os_close = (\<lambda>_ w. Some (0, w)),
     os_getargs = (\<lambda>_ _. None), os_vidmap = (\<lambda>_ _. None), os_set_handler = (\<lambda>_ _ _. None), os_number = (\<lambda>_ _. None)\<rparr>"

text \<open>A source of single characters.\<close>

locale char_source = byte_source rd rest ok 1 for rd :: "'s \<Rightarrow> int \<times> byte list \<times> 's" and rest ok
begin

text \<open>What is left of a file whose current character is \<open>c\<close>: of the line, and after the line.\<close>

definition in_line :: "byte \<Rightarrow> 's \<Rightarrow> byte list" where
  "in_line c s = (if c = 10 then [] else first_line (rest s))"

definition after_line :: "byte \<Rightarrow> bool \<Rightarrow> 's \<Rightarrow> byte list option" where
  "after_line c eof s = (if eof then None else if c = 10 then Some (rest s) else lines_after (Some (rest s)))"

text \<open>One character of a file, wherever the file is in the state of the system calls.\<close>

definition char_step :: "byte \<Rightarrow> bool \<Rightarrow> 's \<Rightarrow> byte \<Rightarrow> bool \<Rightarrow> 's \<Rightarrow> bool" where
  "char_step c eof s c' eof' s' \<longleftrightarrow> ok s' \<and> c' = (case in_line c s of [] \<Rightarrow> 10 | x # _ \<Rightarrow> x) \<and> in_line c' s' = tl (in_line c s)
     \<and> after_line c' eof' s' = after_line c eof s \<and> (eof' \<longrightarrow> c' = 10)"

lemma read_step:
  assumes "ok s" and "c \<noteq> 10" and "\<not> eof"
  shows "\<exists>n bs s'. rd s = (n, bs, s') \<and> char_step c eof s (if n = 0 then 10 else fill 0 bs [c] ! 0) (n = 0) s'"
proof -
  obtain s' where s': "rd s = (int (length (take 1 (rest s))), take 1 (rest s), s')" "rest s' = drop 1 (rest s)" "ok s'"
    using rd_ok [OF assms(1)] by blast
  have "char_step c eof s (if rest s = [] then 10 else fill 0 (take 1 (rest s)) [c] ! 0) (rest s = []) s'"
  proof (cases "rest s")
    case Nil
    then show ?thesis using s' assms(2,3)
      by (simp add: char_step_def in_line_def after_line_def first_line_def lines_after_def)
  next
    case (Cons x xs)
    then show ?thesis using s' assms(2,3)
      by (simp add: char_step_def in_line_def after_line_def first_line_def lines_after_def other_lines_def fill_def)
  qed
  then show ?thesis using s'(1) by (cases "rest s") auto
qed

lemma char_step_end: "ok s \<Longrightarrow> char_step 10 eof s 10 eof s"
  by (simp add: char_step_def in_line_def)

lemma frame_char_step:
  assumes "ok s" and "eof \<longrightarrow> c = 10" and "put s = w"
    and "os_read os fd 1 w = Some (fst (rd s), fst (snd (rd s)), put (snd (snd (rd s))))"
  shows "\<exists>c' eof' s'. frame_char os fd c eof w = Some (c', eof', put s') \<and> char_step c eof s c' eof' s'"
proof (cases "c = 10")
  case True
  then show ?thesis using char_step_end [OF assms(1)] assms(3) by (auto simp: frame_char_def)
next
  case False
  then obtain n bs s' where "rd s = (n, bs, s')" "char_step c eof s (if n = 0 then 10 else fill 0 bs [c] ! 0) (n = 0) s'"
    using read_step [OF assms(1) False] assms(2) by blast
  then show ?thesis using False assms(2,4) by (cases "n = 0") (auto simp: frame_char_def)
qed

lemmas frame_char_0 = frame_char_step [where fd = 2 and put = "\<lambda>s. (s, t)" and os = "two_files rd name" for t name]
lemmas frame_char_1 = frame_char_step [where fd = 3 and put = "\<lambda>s. (t, s)" and os = "two_files rd name" for t name]

lemma frame_cols_row:
  assumes "ok s0" and "ok s1" and "eof0 \<longrightarrow> c0 = 10" and "eof1 \<longrightarrow> c1 = 10"
  shows "\<exists>e0 e1 t0 t1. frame_cols (two_files rd f0) 2 3 row col c0 c1 eof0 eof1 st (s0, s1)
      = Some (e0, e1, fold add_blink (row_blinks row col (in_line c0 s0) (in_line c1 s1)) st, t0, t1)
    \<and> ok t0 \<and> ok t1 \<and> after_line 10 e0 t0 = after_line c0 eof0 s0 \<and> after_line 10 e1 t1 = after_line c1 eof1 s1"
  using assms
proof (induction "length (in_line c0 s0) + length (in_line c1 s1)" arbitrary: col c0 c1 eof0 eof1 st s0 s1 rule: less_induct)
  case less
  obtain d0 g0 t0 where 0: "frame_char (two_files rd f0) 2 c0 eof0 (s0, s1) = Some (d0, g0, t0, s1)" "char_step c0 eof0 s0 d0 g0 t0"
    using frame_char_0 [OF less.prems(1,3) refl, where t = s1 and name = f0] by (auto simp: two_files_def)
  obtain d1 g1 t1 where 1: "frame_char (two_files rd f0) 3 c1 eof1 (t0, s1) = Some (d1, g1, t0, t1)" "char_step c1 eof1 s1 d1 g1 t1"
    using frame_char_1 [OF less.prems(2,4) refl, where t = t0 and name = f0] by (auto simp: two_files_def)
  have ten: "10 \<notin> set (in_line c s)" for c s by (auto simp: in_line_def first_line_def dest: set_takeWhileD)
  show ?case
  proof (cases "in_line c0 s0 = [] \<and> in_line c1 s1 = []")
    case True
    then show ?thesis using 0 1 by (subst frame_cols.simps) (auto simp: char_step_def)
  next
    case False
    then have ne: "\<not> (d0 = 10 \<and> d1 = 10)"
      using 0(2) 1(2) ten by (auto simp: char_step_def split: list.splits) (metis list.set_intros(1))+
    have "length (in_line d0 t0) + length (in_line d1 t1) < length (in_line c0 s0) + length (in_line c1 s1)"
      using False 0(2) 1(2) by (cases "in_line c0 s0"; cases "in_line c1 s1") (auto simp: char_step_def)
    from less.hyps [OF this, of g0 g1 "col + 1" "frame_cell row col d0 d1 st"] 0(2) 1(2) obtain e0 e1 u0 u1 where
      "frame_cols (two_files rd f0) 2 3 row (col + 1) d0 d1 g0 g1 (frame_cell row col d0 d1 st) (t0, t1)
         = Some (e0, e1, fold add_blink (row_blinks row (col + 1) (in_line d0 t0) (in_line d1 t1)) (frame_cell row col d0 d1 st), u0, u1)"
      "ok u0" "ok u1" "after_line 10 e0 u0 = after_line d0 g0 t0" "after_line 10 e1 u1 = after_line d1 g1 t1"
      by (auto simp: char_step_def)
    moreover have "row_blinks row col (in_line c0 s0) (in_line c1 s1)
        = cell_blinks row col d0 d1 @ row_blinks row (col + 1) (in_line d0 t0) (in_line d1 t1)"
      using False 0(2) 1(2) by (cases "in_line c0 s0"; cases "in_line c1 s1") (auto simp: char_step_def)
    ultimately show ?thesis using 0 1 ne
      by (subst frame_cols.simps) (auto simp: char_step_def frame_cell_blinks)
  qed
qed


text \<open>A file at the start of a row.\<close>

definition lines_left :: "bool \<Rightarrow> 's \<Rightarrow> byte list option" where
  "lines_left eof s = (if eof then None else Some (rest s))"

lemma row_start:
  "in_line (if eof then 10 else 48) s = line_of (lines_left eof s)"
  "after_line (if eof then 10 else 48) eof s = lines_after (lines_left eof s)" "after_line 10 eof s = lines_left eof s"
  by (simp_all add: in_line_def line_of_def lines_left_def after_line_def lines_after_def)

lemma frame_rows_blinks:
  assumes "ok s0" and "ok s1"
  shows "\<exists>w. frame_rows (two_files rd f0) 2 3 row (if eof0 then 10 else 48) (if eof1 then 10 else 48) eof0 eof1 st (s0, s1)
    = Some (fold add_blink (frame_blinks row (lines_left eof0 s0) (lines_left eof1 s1)) st, w)"
  using assms
proof (induction "file_size (lines_left eof0 s0) + file_size (lines_left eof1 s1)" arbitrary: row eof0 eof1 st s0 s1 rule: less_induct)
  case less
  let ?f0 = "lines_left eof0 s0" and ?f1 = "lines_left eof1 s1"
  show ?case
  proof (cases "eof0 \<and> eof1")
    case True
    then show ?thesis by (subst frame_rows.simps, subst frame_blinks.simps) (simp add: lines_left_def)
  next
    case False
    then have ne: "\<not> (?f0 = None \<and> ?f1 = None)" by (auto simp: lines_left_def)
    let ?st = "fold add_blink (row_blinks row 0 (line_of ?f0) (line_of ?f1)) st"
    from frame_cols_row [OF less.prems, of eof0 "if eof0 then 10 else 48" eof1 "if eof1 then 10 else 48" f0 row 0 st]
    obtain e0 e1 t0 t1 where c: "frame_cols (two_files rd f0) 2 3 row 0 (if eof0 then 10 else 48) (if eof1 then 10 else 48) eof0 eof1 st (s0, s1)
        = Some (e0, e1, ?st, t0, t1)" and t: "ok t0" "ok t1" "lines_left e0 t0 = lines_after ?f0" "lines_left e1 t1 = lines_after ?f1"
      unfolding row_start by auto
    have cl: "frame_close (two_files rd f0) fd e w = Some (if e then 10 else 48, w)" for fd e w
      by (simp add: frame_close_def two_files_def)
    have "file_size (lines_left e0 t0) + file_size (lines_left e1 t1) < file_size ?f0 + file_size ?f1"
      using lines_after_size [of ?f0] lines_after_size [of ?f1] ne t(3,4) by fastforce
    from less.hyps [OF this t(1,2), of "row + 1" ?st] obtain w where
      "frame_rows (two_files rd f0) 2 3 (row + 1) (if e0 then 10 else 48) (if e1 then 10 else 48) e0 e1 ?st (t0, t1)
        = Some (fold add_blink (frame_blinks (row + 1) (lines_after ?f0) (lines_after ?f1)) ?st, w)"
      unfolding t(3,4) by blast
    moreover have "frame_blinks row ?f0 ?f1
        = row_blinks row 0 (line_of ?f0) (line_of ?f1) @ frame_blinks (row + 1) (lines_after ?f0) (lines_after ?f1)"
      using ne by (subst frame_blinks.simps) auto
    ultimately show ?thesis using c cl by (subst frame_rows.simps) (simp add: False)
  qed
qed

lemma add_frames_blinks:
  assumes "ok s0" and "ok s1" and "f0 \<noteq> f1"
  shows "\<exists>w. add_frames (two_files rd f0) f0 f1 st (s0, s1)
    = Some (Inr (fold add_blink (frame_blinks 0 (Some (rest s0)) (Some (rest s1))) st), w)"
  using frame_rows_blinks [OF assms(1,2), of f0 0 False False st] assms(3)
  by (auto simp: add_frames_def two_files_def lines_left_def)

end

interpretation frame_file: char_source "file_rd 1" file_rest "file_ok 1"
proof
  fix h r bs h'
  assume "file_ok 1 h" and "file_rd 1 h = (r, bs, h')"
  then show "r = int (length bs) \<and> bs = take 1 (file_rest h) \<and> file_rest h' = drop 1 (file_rest h) \<and> file_ok 1 h'"
    using file_rd_spec [of 1 h 1 r bs h'] by simp
qed simp


section \<open>The show ends\<close>

text \<open>With a list without cycles, every driver call of the program returns.\<close>

lemma tasklet_rel: "blink_rel a st \<Longrightarrow> \<exists>a' st'. mp1_rtc_tasklet st = Some st' \<and> blink_rel a' st'"
  using blink.call_spec [of a st Tasklet] by (auto simp: mp1_ioctl_def legal_call_def)

lemma add_rel: "blink_rel a st \<Longrightarrow> location b \<noteq> 0 \<Longrightarrow> \<exists>a'. blink_rel a' (snd (mp1_ioctl_add b st))"
  using blink.call_spec [of a st "RTC_ADD b"] by (auto simp: mp1_ioctl_def legal_call_def split: prod.splits)

lemma sync_rel: "blink_rel a st \<Longrightarrow> \<exists>a' r st'. mp1_ioctl_sync arg st = Some (r, st') \<and> blink_rel a' st'"
  using blink.call_spec [of a st "RTC_SYNC arg"] by (auto simp: mp1_ioctl_def legal_call_def)

lemma remove_rel: "blink_rel a st \<Longrightarrow> \<exists>a' r st'. mp1_ioctl_remove arg st = Some (r, st') \<and> blink_rel a' st'"
  using blink.call_spec [of a st "RTC_REMOVE arg"] by (auto simp: mp1_ioctl_def legal_call_def)

lemma fish_ticks_rel:
  assumes "blink_rel a st" and "\<And>w. os_read os fd 4 w \<noteq> None"
  shows "\<exists>a' st' w'. fish_ticks os fd n st w = Some (st', w') \<and> blink_rel a' st'"
  using assms(1)
proof (induction n arbitrary: a st w)
  case (Suc n)
  obtain x y w' where "os_read os fd 4 w = Some (x, y, w')" using assms(2) [of w] by auto
  moreover obtain a' st' where "mp1_rtc_tasklet st = Some st'" "blink_rel a' st'" using tasklet_rel [OF Suc.prems] by blast
  ultimately show ?case using Suc.IH [of a' st' w'] by simp
qed auto

lemma fish_show_ends:
  assumes "blink_rel a st" and r: "\<And>w. os_read os fd 4 w \<noteq> None" and "\<And>w. os_close os fd w \<noteq> None"
  shows "\<exists>w'. fish_show os fd st w = Some (0, w')"
proof -
  obtain a1 st1 w1 where 1: "fish_ticks os fd WAIT st w = Some (st1, w1)" "blink_rel a1 st1"
    using fish_ticks_rel [OF assms(1) r] by blast
  obtain a2 where 2: "blink_rel a2 (snd (mp1_ioctl_add fish_blink st1))"
    using add_rel [OF 1(2), of fish_blink] by (auto simp: fish_blink_def)
  obtain a3 st3 w3 where 3: "fish_ticks os fd WAIT (snd (mp1_ioctl_add fish_blink st1)) w1 = Some (st3, w3)" "blink_rel a3 st3"
    using fish_ticks_rel [OF 2 r] by blast
  obtain a4 x4 st4 where 4: "mp1_ioctl_sync (push_bit 16 40 OR (6 * 80 + 60)) st3 = Some (x4, st4)" "blink_rel a4 st4"
    using sync_rel [OF 3(2)] by blast
  obtain a5 st5 w5 where 5: "fish_ticks os fd WAIT st4 w3 = Some (st5, w5)" "blink_rel a5 st5"
    using fish_ticks_rel [OF 4(2) r] by blast
  obtain a6 x6 st6 where 6: "mp1_ioctl_remove (6 * 80 + 60) st5 = Some (x6, st6)" "blink_rel a6 st6"
    using remove_rel [OF 5(2)] by blast
  obtain a7 st7 w7 where 7: "fish_ticks os fd WAIT st6 w5 = Some (st7, w7)" using fish_ticks_rel [OF 6(2) r] by blast
  obtain x8 w8 where "os_close os fd w7 = Some (x8, w8)" using assms(3) [of w7] by auto
  then show ?thesis using 1(1) 3(1) 4(1) 5(1) 6(1) 7 by (simp add: fish_show_def)
qed

section \<open>Properties\<close>

text \<open>C29: \<open>fish\<close> draws both frames: run on two open regular files of the kernel's file system, \<open>add_frames\<close> ends and has added to the driver, in order, exactly one blinking character for every column of every pair of lines in which one of the two files is not blank, at that row and column of the picture, with the characters of the two files as its two phases.\<close>

theorem fish_draws_frames:
  assumes "file_ok 1 h0" and "file_ok 1 h1" and "f0 \<noteq> f1"
  shows "\<exists>w. add_frames (two_files (file_rd 1) f0) f0 f1 st (h0, h1)
    = Some (Inr (fold (\<lambda>b st. snd (mp1_ioctl_add b st)) (frame_blinks 0 (Some (file_rest h0)) (Some (file_rest h1))) st), w)"
  using frame_file.add_frames_blinks [OF assms, of st] by (simp add: add_blink_def [abs_def])

theorem fish_draws_frames_witness:
  "\<exists>w. add_frames (two_files (file_rd 1) (ascii ''frame0.txt'')) (ascii ''frame0.txt'') (ascii ''frame1.txt'') (blink_init 0 (\<lambda>_. 0))
      (\<lparr>fh_mem = sample_image, fh_bbp = 0x1000, fh_inode = 1, fh_buf = 0x9000, fh_pos = 0\<rparr>,
       \<lparr>fh_mem = sample_image, fh_bbp = 0x1000, fh_inode = 1, fh_buf = 0x9000, fh_pos = 5\<rparr>)
    = Some (Inr (fold (\<lambda>b st. snd (mp1_ioctl_add b st))
        [frame_blink 0 0 104 10, frame_blink 0 1 101 10, frame_blink 0 2 108 10, frame_blink 0 3 108 10, frame_blink 0 4 111 10]
        (blink_init 0 (\<lambda>_. 0))), w)"
proof -
  let ?h = "\<lambda>pos. \<lparr>fh_mem = sample_image, fh_bbp = 0x1000, fh_inode = 1, fh_buf = 0x9000, fh_pos = pos\<rparr>"
  have "file_ok 1 (?h 0)" "file_ok 1 (?h 5)" by (simp_all add: file_ok_def sample_valid sample_length Let_def)
  moreover have "file_rest (?h 0) = [104, 101, 108, 108, 111]" "file_rest (?h 5) = []"
    by (simp_all add: file_rest_def sample_content)
  moreover have "frame_blinks 0 (Some [104, 101, 108, 108, 111]) (Some [])
      = [frame_blink 0 0 104 10, frame_blink 0 1 101 10, frame_blink 0 2 108 10, frame_blink 0 3 108 10, frame_blink 0 4 111 10]"
    by (subst frame_blinks.simps, subst frame_blinks.simps)
      (simp add: line_of_def lines_after_def first_line_def cell_blinks_def)
  moreover have "ascii ''frame0.txt'' \<noteq> ascii ''frame1.txt''" by (simp add: ascii_def)
  ultimately show ?thesis using fish_draws_frames [of "?h 0" "?h 5" "ascii ''frame0.txt''" "ascii ''frame1.txt''" "blink_init 0 (\<lambda>_. 0)"]
    by auto
qed

end
