(* ===== verification/User_Demos.thy ===== *)
theory User_Demos
  imports User_Lib
begin

text \<open>
  The user programs \<open>pingpong\<close> (an animation driven by the clock, which never ends) and \<open>sigtest\<close> (a test of signals,
  which the kernel does not support) of \<^verbatim>\<open>syscalls/\<close>.
\<close>

section \<open>pingpong\<close>

definition BUFMAX :: nat where
  "BUFMAX = 79 + 2"

definition STARTLOOP :: nat where
  "STARTLOOP = 1 + 1"

definition LOOPMAX :: nat where
  "LOOPMAX = 79 + 2 - 2 - 1"

definition pingpong_walls :: "byte list" where
  "pingpong_walls = (replicate BUFMAX 32)[BUFMAX - 1 := 0, BUFMAX - 2 := 10, BUFMAX - 3 := 124, 1 := 124]"

definition clear_world :: "byte list \<Rightarrow> byte list" where
  "clear_world buf = fold (\<lambda>i buf. buf[i := 32]) [STARTLOOP..<LOOPMAX] buf"

text \<open>One picture: the character at column \<open>j\<close>, shown until the next tick of the clock.\<close>

definition pingpong_frame :: "'w os \<Rightarrow> int \<Rightarrow> byte \<Rightarrow> nat \<Rightarrow> byte list \<times> 'w \<Rightarrow> (byte list \<times> 'w) option" where
  "pingpong_frame os rtc_fd curchar j st = (case st of (buf, w) \<Rightarrow>
     let buf = (clear_world buf)[j := curchar]
     in do {
       w \<leftarrow> ece391_fdputs os 1 buf w;
       (_, _, w) \<leftarrow> os_read os rtc_fd 4 w;
       Some (buf, w)
     })"

primrec pingpong_frames :: "'w os \<Rightarrow> int \<Rightarrow> byte \<Rightarrow> nat list \<Rightarrow> byte list \<times> 'w \<Rightarrow> (byte list \<times> 'w) option" where
  "pingpong_frames os rtc_fd curchar [] st = Some st"
| "pingpong_frames os rtc_fd curchar (j # js) st =
     Option.bind (pingpong_frame os rtc_fd curchar j st) (pingpong_frames os rtc_fd curchar js)"

text \<open>Out and back; then the next character, after \<open>Z\<close> again \<open>A\<close>.\<close>

definition pingpong_round :: "'w os \<Rightarrow> int \<Rightarrow> byte \<Rightarrow> byte list \<times> 'w \<Rightarrow> (byte list \<times> 'w) option" where
  "pingpong_round os rtc_fd curchar st =
     Option.bind (pingpong_frames os rtc_fd curchar [STARTLOOP..<LOOPMAX] st)
       (pingpong_frames os rtc_fd curchar (rev [STARTLOOP..<LOOPMAX]))"

definition next_char :: "byte \<Rightarrow> byte" where
  "next_char curchar = (if curchar = 90 then 65 else curchar + 1)"

partial_function (option) pingpong_loop :: "'w os \<Rightarrow> int \<Rightarrow> byte \<Rightarrow> byte list \<times> 'w \<Rightarrow> (int \<times> 'w) option" where
  "pingpong_loop os rtc_fd curchar st =
     Option.bind (pingpong_round os rtc_fd curchar st) (pingpong_loop os rtc_fd (next_char curchar))"

definition pingpong_main :: "'w os \<Rightarrow> 'w \<Rightarrow> (int \<times> 'w) option" where
  "pingpong_main os w = do {
     (rtc_fd, w) \<leftarrow> os_open os (ascii ''rtc'') w;
     (_, w) \<leftarrow> os_write os rtc_fd [32, 0, 0, 0] w;
     pingpong_loop os rtc_fd 65 (pingpong_walls, w)
   }"

section \<open>sigtest\<close>

definition print_signum :: "'w os \<Rightarrow> int \<Rightarrow> 'w \<Rightarrow> 'w option" where
  "print_signum os signum w = ece391_fdputs os 1
     (if signum = 0 then ascii ''0\<newline>'' else if signum = 1 then ascii ''1\<newline>'' else if signum = 2 then ascii ''2\<newline>''
      else if signum = 3 then ascii ''3\<newline>'' else ascii ''invalid\<newline>'') w"

definition alarm_sighandler :: "'w os \<Rightarrow> int \<Rightarrow> 'w \<Rightarrow> 'w option" where
  "alarm_sighandler os signum w =
     Option.bind (ece391_fdputs os 1 (ascii ''Alarm signal handler called, signum: '') w) (print_signum os signum)"

text \<open>
  The handler ends by pointing \<open>badbuf\<close>, and the register \<open>EAX\<close> that the interrupted code reloads, to \<open>charbuf\<close>;
  \<open>retarget\<close> stands for the two stores.
\<close>

definition segfault_sighandler :: "('w \<Rightarrow> 'w) \<Rightarrow> 'w os \<Rightarrow> int \<Rightarrow> 'w \<Rightarrow> 'w option" where
  "segfault_sighandler retarget os signum w = do {
     w \<leftarrow> ece391_fdputs os 1 (ascii ''Segfault signal handler called, signum: '') w;
     w \<leftarrow> print_signum os signum w;
     w \<leftarrow> ece391_fdputs os 1 (ascii ''Press enter to continue...\<newline>'') w;
     (_, _, w) \<leftarrow> os_read os 0 1 w;
     ece391_fdputs os 1 (ascii ''Signal handler returning\<newline>'') (retarget w)
   }"

text \<open>
  \<open>segv\<close> and \<open>alarm\<close> are the addresses of the handlers. \<open>store_bad\<close> is the store through \<open>badbuf\<close>, which is NULL, with what
  the system makes of it: no result when the program does not continue, otherwise the value of \<open>charbuf\<close>.
\<close>

definition sigtest_main :: "'w os \<Rightarrow> u32 \<Rightarrow> u32 \<Rightarrow> ('w \<Rightarrow> (byte \<times> 'w) option) \<Rightarrow> byte list \<Rightarrow> 'w \<Rightarrow> (int \<times> 'w) option" where
  "sigtest_main os segv alarm store_bad buf w = do {
     (r, bs, w) \<leftarrow> os_getargs os 1024 w;
     if r \<noteq> 0 then map_option (Pair 3) (ece391_fdputs os 1 (ascii ''could not read argument\<newline>'') w)
     else do {
       let buf = fill 0 bs buf;
       w \<leftarrow> (if buf ! 0 = 49 then do {
               w \<leftarrow> ece391_fdputs os 1 (ascii ''Installing signal handlers\<newline>'') w;
               (_, w) \<leftarrow> os_set_handler os 1 segv w;
               (_, w) \<leftarrow> os_set_handler os 3 alarm w;
               Some w
             } else Some w);
       w \<leftarrow> ece391_fdputs os 1 (ascii ''Hi, what's your name? '') w;
       (cnt, bs, w) \<leftarrow> os_read os 0 1023 w;
       if cnt = -1 then map_option (Pair 3) (ece391_fdputs os 1 (ascii ''Can't read name from keyboard.\<newline>'') w)
       else do {
         (charbuf, w) \<leftarrow> store_bad w;
         w \<leftarrow> ece391_fdputs os 1 (ascii ''Hello, '') w;
         w \<leftarrow> ece391_fdputs os 1 ((fill 0 bs buf)[nat cnt := 0]) w;
         map_option (Pair 0) (ece391_fdputs os 1 (if charbuf = 1 then ascii ''success\<newline>'' else ascii ''failure\<newline>'') w)
       }
     }
   }"

section \<open>Lemmas\<close>

text \<open>Every picture of \<open>pingpong\<close> is a line with two walls and one character between them.\<close>

definition pingpong_picture :: "byte \<Rightarrow> nat \<Rightarrow> byte list" where
  "pingpong_picture c j = [32, 124] @ (replicate 76 32)[j - 2 := c] @ [124, 10]"

definition world :: "byte list \<Rightarrow> bool" where
  "world buf \<longleftrightarrow> (\<exists>mid. buf = [32, 124] @ mid @ [124, 10, 0] \<and> length mid = 76)"

lemma world_walls: "world pingpong_walls"
proof -
  have "pingpong_walls = [32, 124] @ replicate 76 32 @ [124, 10, 0]" by (simp add: pingpong_walls_def BUFMAX_def) code_simp
  then show ?thesis by (auto simp: world_def)
qed

lemma fold_blank: "fold (\<lambda>i buf. buf[i := 32]) [length us..<length us + length mid] (us @ mid @ vs) = us @ replicate (length mid) (32 :: byte) @ vs"
proof (induction mid arbitrary: us)
  case (Cons x mid)
  have "[length us..<length us + length (x # mid)] = length us # [length (us @ [32 :: byte])..<length (us @ [32 :: byte]) + length mid]"
    by (subst upt_conv_Cons) (simp_all del: upt_Suc)
  then show ?case using Cons [of "us @ [32]"] by simp
qed simp

lemma strlen_nul: "0 \<notin> set s \<Longrightarrow> ece391_strlen (s @ [0]) = length s"
  by (induction s) auto

lemma pingpong_frame_shows:
  assumes "world buf" and "2 \<le> j" and "j < 78" and "c \<noteq> 0"
  shows "ece391_fdputs os 1 ((clear_world buf)[j := c]) w = map_option snd (os_write os 1 (pingpong_picture c j) w)"
    and "world ((clear_world buf)[j := c])"
proof -
  obtain mid where m: "buf = [32, 124] @ mid @ [124, 10, 0]" "length mid = 76" using assms(1) by (auto simp: world_def)
  have "clear_world buf = [32, 124] @ replicate 76 32 @ [124, 10, 0]"
    using fold_blank [of "[32, 124]" mid "[124, 10, 0]"] m by (simp add: clear_world_def STARTLOOP_def LOOPMAX_def)
  moreover obtain k where "j = Suc (Suc k)" "k < 76"
  proof
    show "j = Suc (Suc (j - 2))" "j - 2 < 76" using assms(2,3) by linarith+
  qed
  ultimately have b: "(clear_world buf)[j := c] = pingpong_picture c j @ [0]"
    by (simp add: pingpong_picture_def list_update_append)
  have "0 \<notin> set (pingpong_picture c j)"
    using assms(4) set_update_subset_insert [of "replicate 76 (32 :: byte)" "j - 2" c] by (auto simp: pingpong_picture_def)
  then have "ece391_strlen (pingpong_picture c j @ [0]) = length (pingpong_picture c j)" by (rule strlen_nul)
  then show "ece391_fdputs os 1 ((clear_world buf)[j := c]) w = map_option snd (os_write os 1 (pingpong_picture c j) w)"
    unfolding b by (simp add: ece391_fdputs_def)
  show "world ((clear_world buf)[j := c])" unfolding b by (auto simp: pingpong_picture_def world_def)
qed

text \<open>\<open>pingpong\<close> never ends.\<close>

lemma pingpong_never_ends: "pingpong_main os w = None"
proof -
  have "False" if "pingpong_loop os fd c st = Some y" for fd c st y
    by (rule pingpong_loop.raw_induct [where P = "\<lambda>os fd c st y. False", OF _ that]) (auto simp: bind_eq_Some_conv)
  then have "pingpong_loop os fd c st = None" for fd c st by (metis option.exhaust)
  then show ?thesis by (auto simp: pingpong_main_def split: Option.bind_splits prod.splits)
qed

end
