(* ===== verification/User_Emulate.thy ===== *)
theory User_Emulate
  imports User_Lib
begin

text \<open>
  The emulation of the system calls on a host system (\<^verbatim>\<open>syscalls/ece391emulate.c\<close>, and the same code in \<^verbatim>\<open>fish/\<close>), with which
  the user programs run under Linux. The calls of the host are arguments: a record \<open>host\<close> of functions on a host state
  \<open>'h\<close> with directory streams \<open>'d\<close>.
\<close>

section \<open>The host\<close>

text \<open>How a child process ended.\<close>

datatype wait_status = Exited int | Signalled int

text \<open>
  The system calls return their 32-bit result. \<open>spawn\<close> is \<open>fork\<close>, \<open>execv\<close> (a child that cannot execute kills itself
  with signal 9) and \<open>wait\<close>; \<open>map_screen\<close> maps the low megabyte of the physical memory.
\<close>

record ('h, 'd) host =
  sys_read :: "int \<Rightarrow> int \<Rightarrow> 'h \<Rightarrow> u32 \<times> byte list \<times> 'h"
  sys_write :: "int \<Rightarrow> byte list \<Rightarrow> 'h \<Rightarrow> u32 \<times> 'h"
  sys_open :: "byte list \<Rightarrow> 'h \<Rightarrow> u32 \<times> 'h"
  sys_close :: "int \<Rightarrow> 'h \<Rightarrow> u32 \<times> 'h"
  open_null :: "'h \<Rightarrow> int \<times> 'h"
  opendir :: "'h \<Rightarrow> 'd option \<times> 'h"
  readdir :: "'d \<Rightarrow> 'h \<Rightarrow> byte list option \<times> 'd \<times> 'h"
  closedir :: "'d \<Rightarrow> 'h \<Rightarrow> 'h"
  spawn :: "byte list \<Rightarrow> byte list list \<Rightarrow> 'h \<Rightarrow> wait_status \<times> 'h"
  map_screen :: "'h \<Rightarrow> addr option \<times> 'h"

text \<open>The two static variables of the emulation.\<close>

record ('h, 'd) emu =
  dir_fd :: int
  dir :: "'d option"
  host_state :: 'h

section \<open>System calls\<close>

text \<open>The wrapper around a host call: results above \<open>0xFFFFC000\<close> are errors.\<close>

definition host_result :: "u32 \<Rightarrow> int" where
  "host_result eax = (if 0xFFFFC000 < eax then -1 else sint eax)"

definition blank_or_newline :: "byte \<Rightarrow> bool" where
  "blank_or_newline c \<longleftrightarrow> c = 32 \<or> c = 10"

text \<open>The words after the program name; the string is given without its NUL.\<close>

function emu_words :: "byte list \<Rightarrow> byte list list" where
  "emu_words scan =
     (let scan = dropWhile (\<lambda>c. c = 32) scan
      in if scan = [] \<or> hd scan = 10 then []
         else takeWhile (\<lambda>c. \<not> blank_or_newline c) scan # emu_words (drop 1 (dropWhile (\<lambda>c. \<not> blank_or_newline c) scan)))"
  by pat_completeness auto
termination
proof (relation "measure length")
  fix s scan :: "byte list"
  assume s: "scan = dropWhile (\<lambda>c. c = 32) s" and n: "\<not> (scan = [] \<or> hd scan = 10)"
  have "hd scan \<noteq> 32" using s n hd_dropWhile by blast
  then have "length (dropWhile (\<lambda>c. \<not> blank_or_newline c) scan) < length scan"
    using n by (cases scan) (auto simp: blank_or_newline_def less_Suc_eq_le length_dropWhile_le)
  moreover have "length scan \<le> length s" using s by (simp add: length_dropWhile_le)
  ultimately show "(drop 1 (dropWhile (\<lambda>c. \<not> blank_or_newline c) scan), s) \<in> measure length" by auto
qed simp

declare emu_words.simps [simp del]

definition emu_args :: "byte list \<Rightarrow> byte list list" where
  "emu_args command =
     ([46, 47] @ takeWhile (\<lambda>c. \<not> blank_or_newline c) command)
       # (case dropWhile (\<lambda>c. \<not> blank_or_newline c) command of [] \<Rightarrow> [] | _ # scan \<Rightarrow> emu_words scan)"

definition emu_execute :: "('h, 'd) host \<Rightarrow> byte list \<Rightarrow> ('h, 'd) emu \<Rightarrow> int \<times> ('h, 'd) emu" where
  "emu_execute H command e =
     (let command = take (ece391_strlen command) command
      in if 1023 < length command then (-1, e)
         else case spawn H (hd (emu_args command)) (emu_args command) (host_state e) of
                (status, h) \<Rightarrow>
                  (case status of Exited n \<Rightarrow> n | Signalled s \<Rightarrow> if s = 9 then -1 else 256, e\<lparr>host_state := h\<rparr>))"

definition emu_open :: "('h, 'd) host \<Rightarrow> byte list \<Rightarrow> ('h, 'd) emu \<Rightarrow> int \<times> ('h, 'd) emu" where
  "emu_open H fname e =
     (if ece391_strcmp fname (ascii ''.'') = 0 then
        (case opendir H (host_state e) of (d, h) \<Rightarrow>
         case open_null H h of (fd, h) \<Rightarrow> (fd, e\<lparr>dir := d, dir_fd := fd, host_state := h\<rparr>))
      else (case sys_open H fname (host_state e) of (rval, h) \<Rightarrow> (host_result rval, e\<lparr>host_state := h\<rparr>)))"

text \<open>The arguments of the program, \<open>args\<close>, are joined with blanks. Returns the result and the bytes stored so far.\<close>

fun emu_join :: "byte list \<Rightarrow> int \<Rightarrow> byte list list \<Rightarrow> int \<times> byte list" where
  "emu_join acc nbytes [] = (if nbytes < 1 then (-1, acc) else (0, acc @ [0]))"
| "emu_join acc nbytes (w # ws) =
     (if nbytes < int (length w) then (-1, acc)
      else
        let acc = acc @ w; nbytes = nbytes - int (length w)
        in if ws = [] then (if nbytes < 1 then (-1, acc @ [0]) else (0, acc @ [0]))
           else if nbytes < 1 then (-1, acc @ [0])
           else emu_join (acc @ [32]) (nbytes - 1) ws)"

definition emu_getargs :: "byte list list \<Rightarrow> int \<Rightarrow> int \<times> byte list" where
  "emu_getargs args nbytes = emu_join [] nbytes args"

definition emu_vidmap :: "('h, 'd) host \<Rightarrow> ('h, 'd) emu \<Rightarrow> (int \<times> addr option) \<times> ('h, 'd) emu" where
  "emu_vidmap H e = (case map_screen H (host_state e) of (mem_image, h) \<Rightarrow>
     (case mem_image of None \<Rightarrow> (-1, None) | Some a \<Rightarrow> (0, Some (a + 0xb8000)), e\<lparr>host_state := h\<rparr>))"

text \<open>A directory entry: the characters of the name, then zeros; never more than 32 bytes.\<close>

fun emu_name :: "int \<Rightarrow> int \<Rightarrow> byte list \<Rightarrow> bool \<times> byte list" where
  "emu_name nbytes copied [] = (False, [])"
| "emu_name nbytes copied (c # from) =
     (let copied = copied + 1
      in if copied = nbytes \<or> copied = 32 then (True, [c])
         else case emu_name nbytes copied from of (full, bs) \<Rightarrow> (full, c # bs))"

definition emu_entry :: "int \<Rightarrow> byte list \<Rightarrow> byte list" where
  "emu_entry nbytes name =
     (case emu_name nbytes 0 name of (full, bs) \<Rightarrow>
        if full then bs else bs @ replicate (nat (min nbytes 32) - length bs) 0)"

definition is_dir :: "int \<Rightarrow> ('h, 'd) emu \<Rightarrow> bool" where
  "is_dir fd e \<longleftrightarrow> dir e \<noteq> None \<and> dir_fd e = fd"

definition emu_read :: "('h, 'd) host \<Rightarrow> int \<Rightarrow> int \<Rightarrow> ('h, 'd) emu \<Rightarrow> (int \<times> byte list) \<times> ('h, 'd) emu" where
  "emu_read H fd nbytes e =
     (if \<not> is_dir fd e
      then (case sys_read H fd nbytes (host_state e) of (eax, bs, h) \<Rightarrow> ((host_result eax, bs), e\<lparr>host_state := h\<rparr>))
      else (case readdir H (the (dir e)) (host_state e) of (de, d, h) \<Rightarrow>
              ((case de of None \<Rightarrow> (0, []) | Some name \<Rightarrow> (int (length (emu_entry nbytes name)), emu_entry nbytes name)),
               e\<lparr>dir := Some d, host_state := h\<rparr>)))"

definition emu_write :: "('h, 'd) host \<Rightarrow> int \<Rightarrow> byte list \<Rightarrow> ('h, 'd) emu \<Rightarrow> int \<times> ('h, 'd) emu" where
  "emu_write H fd bs e =
     (if \<not> is_dir fd e then (case sys_write H fd bs (host_state e) of (eax, h) \<Rightarrow> (host_result eax, e\<lparr>host_state := h\<rparr>))
      else (-1, e))"

definition emu_close :: "('h, 'd) host \<Rightarrow> int \<Rightarrow> ('h, 'd) emu \<Rightarrow> int \<times> ('h, 'd) emu" where
  "emu_close H fd e =
     (if \<not> is_dir fd e then (case sys_close H fd (host_state e) of (eax, h) \<Rightarrow> (host_result eax, e\<lparr>host_state := h\<rparr>))
      else (0, e\<lparr>dir := None, dir_fd := -1,
                 host_state := snd (sys_close H (dir_fd e) (closedir H (the (dir e)) (host_state e)))\<rparr>))"


section \<open>Directory entries\<close>

text \<open>The entry is the name in a field of 32 bytes, cut to what the caller asked for.\<close>

lemma emu_name_take:
  assumes "copied < nbytes" and "copied < 32"
  shows "emu_name nbytes copied name = (nat (min nbytes 32 - copied) \<le> length name, take (nat (min nbytes 32 - copied)) name)"
  using assms
proof (induction name arbitrary: copied)
  case (Cons c name)
  have s: "nat (min nbytes 32 - copied) = Suc (nat (min nbytes 32 - (copied + 1)))" using Cons.prems by linarith
  show ?case
  proof (cases "copied + 1 = nbytes \<or> copied + 1 = 32")
    case True
    then have "min nbytes 32 - (copied + 1) = 0" using Cons.prems by linarith
    then show ?thesis using True s by auto
  next
    case False
    then have "emu_name nbytes (copied + 1) name
        = (nat (min nbytes 32 - (copied + 1)) \<le> length name, take (nat (min nbytes 32 - (copied + 1))) name)"
      using Cons.IH [of "copied + 1"] Cons.prems False by auto
    then show ?thesis using False s by (simp add: Let_def)
  qed
qed simp

lemma emu_entry_take:
  assumes "0 < nbytes"
  shows "emu_entry nbytes name = take (nat (min nbytes 32)) (name @ replicate 32 0)"
proof -
  have "emu_name nbytes 0 name = (nat (min nbytes 32) \<le> length name, take (nat (min nbytes 32)) name)"
    using emu_name_take [of 0 nbytes name] assms by simp
  then show ?thesis using assms by (auto simp: emu_entry_def min_def)
qed

section \<open>Arguments\<close>

definition word_ok :: "byte list \<Rightarrow> bool" where
  "word_ok w \<longleftrightarrow> w \<noteq> [] \<and> list_all (\<lambda>c. c \<noteq> 0 \<and> \<not> blank_or_newline c) w"

definition blank_word :: "byte list \<Rightarrow> byte list" where
  "blank_word w = 32 # w"

lemma word_ok_scan:
  assumes "word_ok w" and "rest = [] \<or> (\<exists>r. rest = 32 # r)"
  shows "takeWhile (\<lambda>c. \<not> blank_or_newline c) (w @ rest) = w" "dropWhile (\<lambda>c. \<not> blank_or_newline c) (w @ rest) = rest"
    "dropWhile (\<lambda>c. c = 32) (w @ rest) = w @ rest" "hd (w @ rest) \<noteq> 10"
proof -
  have w: "\<forall>c\<in>set w. \<not> blank_or_newline c" "w \<noteq> []" using assms(1) by (auto simp: word_ok_def list_all_iff)
  have r: "takeWhile (\<lambda>c. \<not> blank_or_newline c) rest = []" "dropWhile (\<lambda>c. \<not> blank_or_newline c) rest = rest"
    using assms(2) by (auto simp: blank_or_newline_def)
  show "takeWhile (\<lambda>c. \<not> blank_or_newline c) (w @ rest) = w" "dropWhile (\<lambda>c. \<not> blank_or_newline c) (w @ rest) = rest"
    using w(1) r by (simp_all add: takeWhile_append2 dropWhile_append2)
  show "dropWhile (\<lambda>c. c = 32) (w @ rest) = w @ rest" "hd (w @ rest) \<noteq> 10"
    using w by (cases w; auto simp: blank_or_newline_def)+
qed

lemma blank_words_start: "concat (map blank_word ws) = [] \<or> (\<exists>r. concat (map blank_word ws) = 32 # r)"
  by (cases ws) (auto simp: blank_word_def)

lemma emu_words_split: "list_all word_ok (w # ws) \<Longrightarrow> emu_words (w @ concat (map blank_word ws)) = w # ws"
proof (induction ws arbitrary: w)
  case Nil
  then have w: "word_ok w" by simp
  have "w \<noteq> []" using w by (simp add: word_ok_def)
  moreover have "emu_words [] = []" by (subst emu_words.simps) simp
  ultimately show ?case using word_ok_scan [OF w, of "[]"]
    by (subst emu_words.simps) (simp add: Let_def del: dropWhile_eq_Nil_conv)
next
  case (Cons v ws)
  then have w: "word_ok w" by simp
  let ?r = "concat (map blank_word (v # ws))"
  have "w @ ?r \<noteq> []" using w by (simp add: word_ok_def)
  moreover have "drop 1 ?r = v @ concat (map blank_word ws)" by (simp add: blank_word_def)
  moreover have "emu_words (v @ concat (map blank_word ws)) = v # ws" using Cons by simp
  ultimately show ?case using word_ok_scan [OF w blank_words_start, of "v # ws"]
    by (subst emu_words.simps) (simp add: Let_def)
qed

lemma emu_args_split:
  assumes "list_all word_ok (name # ws)"
  shows "emu_args (name @ concat (map blank_word ws)) = ([46, 47] @ name) # ws"
proof (cases ws)
  case Nil
  then show ?thesis using assms word_ok_scan [of name "[]"] by (simp add: emu_args_def del: dropWhile_eq_Nil_conv)
next
  case (Cons v vs)
  have "word_ok name" using assms by simp
  note scan = word_ok_scan [OF this blank_words_start, of ws]
  have "concat (map blank_word ws) = 32 # v @ concat (map blank_word vs)" using Cons by (simp add: blank_word_def)
  then show ?thesis using scan emu_words_split [of v vs] assms Cons by (simp add: emu_args_def)
qed

lemma emu_join_words:
  assumes "int (length w + length (concat (map blank_word ws))) < nbytes"
  shows "emu_join acc nbytes (w # ws) = (0, acc @ w @ concat (map blank_word ws) @ [0])"
  using assms
proof (induction ws arbitrary: acc nbytes w)
  case (Cons v ws)
  have "emu_join ((acc @ w) @ [32]) (nbytes - int (length w) - 1) (v # ws)
      = (0, ((acc @ w) @ [32]) @ v @ concat (map blank_word ws) @ [0])"
    using Cons.prems by (intro Cons.IH) (simp add: blank_word_def [of v])
  moreover have "emu_join acc nbytes (w # v # ws) = emu_join ((acc @ w) @ [32]) (nbytes - int (length w) - 1) (v # ws)"
    using Cons.prems by (subst emu_join.simps(2)) (simp add: Let_def blank_word_def [of v] del: emu_join.simps)
  ultimately show ?case by (simp add: blank_word_def [of v] del: emu_join.simps)
qed simp

lemma words_no_nul: "list_all word_ok ws \<Longrightarrow> 0 \<notin> set (concat (map blank_word ws))"
  by (induction ws) (auto simp: blank_word_def word_ok_def list_all_iff)

section \<open>Properties\<close>

text \<open>C31: The emulated system calls hand a command line to a program unchanged. For a program name and words separated by single blanks, in at most 1023 characters, \<open>execute\<close> starts the program with the path \<^verbatim>\<open>./name\<close>, the argument vector is exactly this path and these words, one element each, and the result is the program's exit status (256 when it was killed, -1 when it could not be executed); and \<open>getargs\<close> in a program with this vector gives back the words with single blanks between them and a NUL, whenever they fit the buffer.\<close>

theorem emulated_arguments_round_trip:
  assumes "list_all word_ok (name # w # ws)" and "int (length (w @ concat (map blank_word ws))) < nbytes"
    and "length (name @ concat (map blank_word (w # ws))) \<le> 1023"
  shows "emu_args (name @ concat (map blank_word (w # ws))) = (ascii ''./'' @ name) # w # ws
    \<and> emu_execute H (name @ concat (map blank_word (w # ws))) e =
        (case spawn H (ascii ''./'' @ name) ((ascii ''./'' @ name) # w # ws) (host_state e) of
           (Exited n, h) \<Rightarrow> (n, e\<lparr>host_state := h\<rparr>)
         | (Signalled s, h) \<Rightarrow> (if s = 9 then -1 else 256, e\<lparr>host_state := h\<rparr>))
    \<and> emu_getargs (w # ws) nbytes = (0, w @ concat (map blank_word ws) @ [0])"
proof -
  define c where "c = name @ concat (map blank_word (w # ws))"
  have args: "emu_args c = (ascii ''./'' @ name) # w # ws" using emu_args_split [OF assms(1)] unfolding c_def by (simp add: ascii_def)
  have "0 \<notin> set c" using words_no_nul [of "w # ws"] assms(1) by (auto simp: c_def word_ok_def list_all_iff)
  then have "take (ece391_strlen c) c = c" using ece391_strlen_id by (metis take_all order_refl)
  then have "emu_execute H c e = (case spawn H (ascii ''./'' @ name) ((ascii ''./'' @ name) # w # ws) (host_state e) of
      (Exited n, h) \<Rightarrow> (n, e\<lparr>host_state := h\<rparr>) | (Signalled s, h) \<Rightarrow> (if s = 9 then -1 else 256, e\<lparr>host_state := h\<rparr>))"
    using assms(3) unfolding emu_execute_def Let_def c_def [symmetric] by (simp add: args split: prod.split wait_status.split)
  moreover have "emu_getargs (w # ws) nbytes = (0, w @ concat (map blank_word ws) @ [0])"
    using emu_join_words [of w ws nbytes "[]"] assms(2) by (simp add: emu_getargs_def)
  ultimately show ?thesis using args unfolding c_def by blast
qed

theorem emulated_arguments_round_trip_witness:
  "emu_args (ascii ''grep very large'') = [ascii ''./grep'', ascii ''very'', ascii ''large'']
   \<and> emu_getargs [ascii ''very'', ascii ''large''] 11 = (0, ascii ''very large'' @ [0])"
proof -
  have "list_all word_ok [ascii ''grep'', ascii ''very'', ascii ''large'']"
    by (simp add: word_ok_def ascii_def blank_or_newline_def)
  note t = emulated_arguments_round_trip [OF this, of 11]
  show ?thesis
    using t [THEN conjunct1] t [THEN conjunct2, THEN conjunct2] by (simp add: ascii_def blank_word_def)
qed

end
