(* ===== verification/Spec2Isabelle.thy ===== *)
theory Spec2Isabelle
  imports System_Isolation Exceptions Boot_Assembly User_Syserr User_Ls User_Grep User_Fish User_Demos User_Emulate
begin

text \<open>
  A verification development for a small 32-bit x86 kernel with its user programs: the kernel
  (\<^verbatim>\<open>student-distrib/\<close>) runs up to six processes on three virtual terminals, with paging, a read-only file system in
  memory, a keyboard, a clock and ten system calls; the user programs (\<^verbatim>\<open>syscalls/\<close>, \<^verbatim>\<open>fish/\<close>) run on it.

  \<^bold>\<open>The parts of the program and the theories that model them.\<close>

  \<^item> Shared vocabulary: \<open>Kernel_Prelude\<close> (words, byte-addressed memory, little-endian loads), \<open>Kernel_Interfaces\<close> (the
    interfaces as locales: an open file, a pool of slots, step relations with invariants, simulations).
  \<^item> The C library of the kernel, \<^verbatim>\<open>lib.c\<close>: \<open>Lib_Mem\<close> (\<open>memset\<close>, \<open>memcpy\<close>, \<open>memmove\<close> as their string instructions),
    \<open>Lib_String\<close> (strings, \<open>itoa\<close>), \<open>Console\<close> (\<open>putc\<close>, \<open>clear\<close>, scrolling, cursor), \<open>Printf\<close> (the format loop).
  \<^item> Data: \<open>Kernel_State\<close> has the structures of \<^verbatim>\<open>syscall.h\<close>, \<^verbatim>\<open>general_file.h\<close> and \<^verbatim>\<open>paging.h\<close> as records and the global
    variables of all files as the one record \<open>kstate\<close>; physical memory is the field \<open>pmem\<close> (frame and offset to byte),
    port output a log, port input a function of the log.
  \<^item> Memory: \<open>Paging\<close> (\<^verbatim>\<open>paging.c\<close>, \<open>paging_execute\<close>, \<open>paging_video_memory\<close> and the vidmap of \<^verbatim>\<open>syscall.c\<close>, and the translation
    that the processor makes with the tables).
  \<^item> Devices: \<open>Pic\<close> (\<^verbatim>\<open>i8259.c\<close>, \<^verbatim>\<open>pit.c\<close>), \<open>Rtc\<close> (\<^verbatim>\<open>rtc.c\<close>), \<open>Terminal_Switch\<close> and \<open>Keyboard\<close> (\<^verbatim>\<open>keyboard.c\<close>), \<open>Terminal\<close> (\<^verbatim>\<open>terminal.c\<close>).
  \<^item> Files: \<open>Filesystem\<close> (\<^verbatim>\<open>filesystem.c\<close>), \<open>File_Descriptor\<close> (\<^verbatim>\<open>general_file.c\<close>).
  \<^item> Processes: \<open>Process\<close> (\<^verbatim>\<open>syscall.c\<close> and the timer handler), \<open>Command_Line\<close> (the parsing in \<open>syscall_execute\<close>).
  \<^item> Entry: \<open>Descriptors\<close> (\<^verbatim>\<open>x86_desc.h\<close>, \<^verbatim>\<open>idtInit.c\<close>), \<open>Exceptions\<close> (\<^verbatim>\<open>exceptions.c\<close>, \<^verbatim>\<open>exceptionWrapper.S\<close>), \<open>Entry_Stubs\<close>
    (\<^verbatim>\<open>interruptWrapper.S\<close>, \<^verbatim>\<open>syscallWrapper.S\<close> on a processor with a stack), \<open>Boot\<close> (\<open>entry\<close> of \<^verbatim>\<open>kernel.c\<close>),
    \<open>Boot_Assembly\<close> (\<^verbatim>\<open>boot.S\<close>, the tables of \<^verbatim>\<open>x86_desc.S\<close>, \<^verbatim>\<open>enable_paging.S\<close> and the register loads of \<^verbatim>\<open>x86_desc.h\<close>).
  \<^item> The kernel as a whole: \<open>Kernel_Frames\<close> (what drivers leave alone), \<open>Process_Tree\<close> (the abstract processes),
    \<open>Kernel\<close> (the step relation and the invariant), \<open>Kernel_Memory\<close> (what the kernel writes), \<open>Kernel_Isolation\<close>,
    \<open>Program_Memory\<close> (the page of the running program).
  \<^item> The system while processes wait: \<open>Line_Discipline\<close> (the line buffer of a terminal as an abstract editor, a read in
    two parts), \<open>Multitasking\<close> (timer, keys, clock, calls and waiting reads of the three terminals' processes, interleaved),
    \<open>Waiting_Reads\<close> (what a waiting process gets), \<open>System_Isolation\<close> (the kernel's guarantees in all these executions).
  \<^item> User programs: \<open>User_Lib\<close> (\<^verbatim>\<open>ece391support.c\<close> and the system calls as a record of functions), \<open>User_Cat\<close>,
    \<open>User_Programs\<close> (hello, testprint, counter, ls, shell, grep), \<open>User_Syserr\<close>, \<open>User_Demos\<close> (pingpong, sigtest), \<open>Blink\<close> and
    \<open>User_Fish\<close> (\<^verbatim>\<open>fish/\<close>), \<open>User_Kernel\<close> (the system calls given by the kernel's own dispatch, and the way back through its stub), \<open>User_Ls\<close> and \<open>User_Grep\<close> (programs
    proved on the kernel's definitions), \<open>User_Emulate\<close> (\<^verbatim>\<open>ece391emulate.c\<close>).

  \<^bold>\<open>Correspondence.\<close> A C function is the definition of the same name; a handler is the whole handler. Functions that
  change variables take the state and return it updated; a result with a state is a pair. Errors are the C result
  -1. \<open>outcome\<close> says how kernel code gives up the processor: it returns to its caller, enters a user program, resumes a
  parent, switches stacks, waits, or is undefined (a C array is overrun or a string does not end). The inline assembly that
  saves the stack pointers is the arguments \<open>esp\<close> and \<open>ebp\<close> of the operations. Integers keep their width where the code can
  wrap. Assembly routines are sequences of instructions on registers, flags and stack.

  \<^bold>\<open>What the lemmas show.\<close> Library: the optimised routines equal plain descriptions for every alignment, and round
  trips of number conversion. Console, terminals, keyboard: the screens refine abstract consoles, switching is
  transparent, a typed line is read back, the handler keeps its invariant. File system and descriptors: reads deliver
  slices of files, names are found, descriptors are taken and given back. Paging: user accesses are confined and
  processes disjoint. Processes: execute and halt are a round trip, the scheduler is round robin, and the concrete
  process table refines a tree of programs per terminal. Entry: the gates and segments are what the processor needs, an
  interrupt is transparent, and starting establishes the invariant. Whole kernel: from the state that booting establishes, every
  sequence of interrupts, system calls and user stores, with the timer switching between processes that wait inside
  their reads, keeps the invariant, the isolation of processes and the file system image; a waiting process gets the
  line typed on its own terminal, or its own clock's period, whatever the others do. User programs: \<open>cat\<close>, \<open>ls\<close>, \<open>grep\<close> and \<open>fish\<close> do their work on the kernel's files and console (\<open>ls\<close> and the tests of
  \<open>syserr\<close> with the answers of the C code; through the system call stub neither ends), the driver of \<open>fish\<close> implements a list. Several lemmas prove faults of the code: the return path of the
  system call stub, descriptors lost by failed opens, a finished line that can still be emptied before it is read, the last directory entry that is never listed, the cycle in the
  list of \<open>fish\<close>.

  \<^bold>\<open>Loops.\<close> Loops over arrays are recursion or \<open>fold\<close> with a termination proof. Loops that end only when memory or
  another party says so (string scans, the programs' loops, walks along linked lists) are partial functions to \<open>option\<close>, and that
  they return is proved as such. Busy waiting (\<open>terminal_read\<close>, \<open>rtc_read\<close>) runs over an explicit list of interrupts; no
  result means that it still waits after them. In \<open>Multitasking\<close> it is two steps of an execution, and that the second one is
  reached is proved as such. No loop is cut off by fuel.

  \<^bold>\<open>Limits of the model.\<close> The kernel's variables are fields of the state and do not alias physical memory; that
  system calls store through unchecked pointers is therefore a hypothesis of the executions (\<open>user_buffers\<close>,
  \<open>user_range\<close>: a process passes buffers in the user part of the address space), so the isolation theorems are about processes that do not attack the
  kernel. A call whose C code is undefined makes no step. A kernel access to an unmapped address does not fault: \<open>vload\<close>
  reads 0 there and \<open>vstore\<close> does nothing. \<open>syscall_dispatch\<close> ends where the C function has returned to the
  system call stub. The way back to user code through the stub of \<^verbatim>\<open>syscallWrapper.S\<close> is the separate definition
  \<open>syscall_stub\<close>, which loses the caller; what user code does after a call is arbitrary in the step relations, and for the
  user programs on the kernel the way back is a parameter (\<open>kernel_os\<close>): \<open>c_os\<close> delivers every answer of the C code, \<open>through_stub\<close>
  is the way the stub goes. \<open>cat\<close>, \<open>grep\<close> and \<open>fish\<close> run on the kernel's \<open>file_read\<close> alone. Handlers are atomic steps, and so are system calls apart
  from their waiting loops: the timer switches processes between calls, in user code and in the waiting loops of \<open>read\<close>,
  not in the middle of other kernel code (where all gates being trap gates would allow it). The set-up in \<open>entry\<close> runs
  without interrupts. The instructions of user programs appear as stores and system calls.

  \<^bold>\<open>Not modelled.\<close> The multiboot header of \<^verbatim>\<open>boot.S\<close>, which the boot loader reads, and the status flags in the assembly
  of \<open>Boot_Assembly\<close>; \<^verbatim>\<open>tests.c\<close> has only commented-out tests; the word-sized port functions and debug macros of the headers are
  not used; signals do not exist in the kernel, so what \<open>sigtest\<close> observes of them is an argument; the calls of the host in
  \<^verbatim>\<open>ece391emulate.c\<close> are arguments; \<^verbatim>\<open>createfs\<close> and \<^verbatim>\<open>elfconvert\<close> are binaries.
\<close>

section \<open>Properties that span components\<close>

text \<open>C26: The user program \<open>cat\<close> prints files completely: run against the kernel's \<open>file_read\<close> on a regular file, with an output that does not fail, its loop ends with status 0 after writing chunks of at most 1024 bytes whose concatenation is exactly the rest of the file from the current position.\<close>

theorem cat_prints_file:
  assumes "file_ok 1024 h" and "\<And>bs out. fst (wr bs out) \<noteq> -1"
  shows "\<exists>chunks. concat chunks = file_rest h \<and> (\<forall>c\<in>set chunks. length c \<le> 1024)
    \<and> cat_loop (file_rd 1024) wr h buf out = Some (0, fold (\<lambda>c out. snd (wr c out)) chunks out)"
  by (rule file_source.cat_loop_writes_rest [OF assms])

theorem cat_prints_file_witness:
  "\<exists>chunks. concat chunks = [104, 101, 108, 108, 111 :: byte]
    \<and> cat_loop (file_rd 1024)
        (\<lambda>bs out. (int (length bs), out @ bs))
        \<lparr>fh_mem = sample_image, fh_bbp = 0x1000, fh_inode = 1, fh_buf = 0x9000, fh_pos = 0\<rparr> [] []
      = Some (0, fold (\<lambda>c out. out @ c) chunks [])"
proof -
  let ?h = "\<lparr>fh_mem = sample_image, fh_bbp = 0x1000, fh_inode = 1, fh_buf = 0x9000, fh_pos = 0\<rparr>"
  have "file_ok 1024 ?h" by (simp add: file_ok_def sample_valid sample_length Let_def)
  from cat_prints_file [OF this, of "\<lambda>bs out. (int (length bs), out @ bs)" "[]" "[]"] show ?thesis
    by (auto simp: file_rest_def sample_content)
qed

end
